(* ===== verification/GoLib.thy ===== *)
theory GoLib
  imports Prelude "HOL-Library.Sublist"
begin

text \<open>
  The functions of Go's standard library that the program calls on strings and numbers:
  \<open>strings.Split\<close>, \<open>Join\<close>, \<open>Cut\<close>, \<open>CutPrefix\<close>, \<open>LastIndexByte\<close>, \<open>Trim\<close>, \<open>TrimSpace\<close>,
  \<open>Contains\<close>, \<open>strconv.ParseUint\<close>, \<open>ParseInt\<close>, \<open>Atoi\<close>, \<open>Itoa\<close>, \<open>net.SplitHostPort\<close> and
  \<open>net.JoinHostPort\<close>. A Go string is a sequence of bytes and a \<open>char\<close> is one byte.
\<close>

abbreviation newline :: char where
  "newline \<equiv> CHR 0x0A"

subsection \<open>Splitting and joining\<close>

text \<open>\<open>strings.Split(s, sep)\<close> for a separator of one byte.\<close>

fun goSplit :: "char \<Rightarrow> string \<Rightarrow> string list" where
  "goSplit c [] = [[]]"
| "goSplit c (x # xs) =
     (if x = c then [] # goSplit c xs
      else (case goSplit c xs of [] \<Rightarrow> [[x]] | y # ys \<Rightarrow> (x # y) # ys))"

text \<open>\<open>strings.Join(xs, sep)\<close> for a separator of one byte.\<close>

fun goJoin :: "char \<Rightarrow> string list \<Rightarrow> string" where
  "goJoin c [] = []"
| "goJoin c [x] = x"
| "goJoin c (x # y # ys) = x @ c # goJoin c (y # ys)"

text \<open>\<open>strings.Cut(s, sep)\<close>, which is also \<open>SplitN(s, sep, 2)\<close>: \<open>None\<close> when sep is absent.\<close>

fun goCut :: "char \<Rightarrow> string \<Rightarrow> (string \<times> string) option" where
  "goCut c [] = None"
| "goCut c (x # xs) =
     (if x = c then Some ([], xs)
      else (case goCut c xs of None \<Rightarrow> None | Some (a, b) \<Rightarrow> Some (x # a, b)))"

text \<open>The text before and after the last occurrence of a byte (\<open>strings.LastIndexByte\<close>).\<close>

definition goCutLast :: "char \<Rightarrow> string \<Rightarrow> (string \<times> string) option" where
  "goCutLast c s = (case goCut c (rev s) of None \<Rightarrow> None | Some (a, b) \<Rightarrow> Some (rev b, rev a))"

text \<open>\<open>strings.CutPrefix(s, p)\<close>; \<open>HasPrefix\<close> is its flag and \<open>TrimPrefix\<close> its text.\<close>

fun cutPrefix :: "string \<Rightarrow> string \<Rightarrow> string option" where
  "cutPrefix s [] = Some s"
| "cutPrefix [] (p # ps) = None"
| "cutPrefix (c # cs) (p # ps) = (if c = p then cutPrefix cs ps else None)"

definition hasPrefix :: "string \<Rightarrow> string \<Rightarrow> bool" where
  "hasPrefix s p \<longleftrightarrow> cutPrefix s p \<noteq> None"

definition trimPrefix :: "string \<Rightarrow> string \<Rightarrow> string" where
  "trimPrefix s p = (case cutPrefix s p of None \<Rightarrow> s | Some r \<Rightarrow> r)"

definition hasSuffix :: "string \<Rightarrow> string \<Rightarrow> bool" where
  "hasSuffix s p \<longleftrightarrow> hasPrefix (rev s) (rev p)"

definition trimSuffix :: "string \<Rightarrow> string \<Rightarrow> string" where
  "trimSuffix s p = rev (trimPrefix (rev s) (rev p))"

lemma goSplit_not_Nil [simp]: "goSplit c s \<noteq> []"
  by (cases s) (auto split: list.splits)

lemma goSplit_no_sep: "c \<notin> set s \<Longrightarrow> goSplit c s = [s]"
  by (induction s) auto

lemma goSplit_append_sep: "c \<notin> set a \<Longrightarrow> goSplit c (a @ c # b) = a # goSplit c b"
  by (induction a) auto

lemma goSplit_goJoin:
  "xs \<noteq> [] \<Longrightarrow> (\<And>x. x \<in> set xs \<Longrightarrow> c \<notin> set x) \<Longrightarrow> goSplit c (goJoin c xs) = xs"
proof (induction c xs rule: goJoin.induct)
  case (2 c x)
  then show ?case by (simp add: goSplit_no_sep)
next
  case (3 c x y ys)
  then show ?case by (simp add: goSplit_append_sep)
qed simp

lemma goSplit_parts_no_sep: "x \<in> set (goSplit c s) \<Longrightarrow> c \<notin> set x"
  by (induction s arbitrary: x) (force split: if_splits list.splits)+

lemma goJoin_goSplit: "goJoin c (goSplit c s) = s"
proof (induction s)
  case (Cons x s)
  obtain y ys where "goSplit c s = y # ys"
    using goSplit_not_Nil by (metis list.exhaust)
  with Cons show ?case by (cases ys) auto
qed simp

lemma goSplit_length: "length (goSplit c s) = Suc (count_list s c)"
  by (induction s) (auto split: list.splits)

lemma goSplit_set: "x \<in> set (goSplit c s) \<Longrightarrow> set x \<subseteq> set s"
  by (induction s arbitrary: x) (fastforce split: if_splits list.splits)+

lemma goCut_no_sep: "goCut c s = None \<longleftrightarrow> c \<notin> set s"
  by (induction s) (auto split: option.splits)

lemma goCut_append: "c \<notin> set a \<Longrightarrow> goCut c (a @ c # b) = Some (a, b)"
  by (induction a) auto

lemma goCut_SomeD: "goCut c s = Some (a, b) \<Longrightarrow> s = a @ c # b \<and> c \<notin> set a"
proof (induction s arbitrary: a)
  case (Cons x s)
  show ?case
  proof (cases "x = c")
    case True
    with Cons.prems show ?thesis by simp
  next
    case False
    with Cons.prems obtain a' where "goCut c s = Some (a', b)" "a = x # a'"
      by (auto split: option.splits)
    with Cons.IH [of a'] False show ?thesis by simp
  qed
qed simp

lemma goCut_Some: "goCut c s = Some (a, b) \<longleftrightarrow> s = a @ c # b \<and> c \<notin> set a"
  using goCut_SomeD goCut_append by blast

lemma goCutLast_no_sep: "goCutLast c s = None \<longleftrightarrow> c \<notin> set s"
proof -
  have "goCutLast c s = None \<longleftrightarrow> goCut c (rev s) = None"
    by (auto simp: goCutLast_def split: option.splits)
  then show ?thesis by (simp add: goCut_no_sep)
qed

lemma goCutLast_Some: "goCutLast c s = Some (a, b) \<longleftrightarrow> s = a @ c # b \<and> c \<notin> set b"
proof -
  have "goCutLast c s = Some (a, b) \<longleftrightarrow> goCut c (rev s) = Some (rev b, rev a)"
    by (auto simp: goCutLast_def split: option.splits)
  also have "\<dots> \<longleftrightarrow> rev s = rev (a @ c # b) \<and> c \<notin> set b"
    by (simp add: goCut_Some)
  finally show ?thesis by (simp only: rev_is_rev_conv)
qed

lemma goCutLast_append: "c \<notin> set b \<Longrightarrow> goCutLast c (a @ c # b) = Some (a, b)"
  by (simp add: goCutLast_Some)

lemma cutPrefix_Some: "cutPrefix s p = Some r \<longleftrightarrow> s = p @ r"
  by (induction s p rule: cutPrefix.induct) auto

lemma cutPrefix_append [simp]: "cutPrefix (p @ r) p = Some r"
  by (simp add: cutPrefix_Some)

lemma hasPrefix_iff: "hasPrefix s p \<longleftrightarrow> (\<exists>r. s = p @ r)"
  by (auto simp: hasPrefix_def cutPrefix_Some)

lemma hasSuffix_iff: "hasSuffix s p \<longleftrightarrow> (\<exists>r. s = r @ p)"
  unfolding hasSuffix_def hasPrefix_iff by (metis rev_append rev_rev_ident)

lemma trimSuffix_append [simp]: "trimSuffix (r @ p) p = r"
  by (simp add: trimSuffix_def trimPrefix_def)

subsection \<open>Trimming\<close>

text \<open>
  The UTF-8 encodings of the code points \<open>unicode.IsSpace\<close> accepts. \<open>TrimSpace\<close> decodes one
  rune at a time from either end; UTF-8 is prefix-free, so it removes exactly these byte
  sequences.
\<close>

definition spaceSeqs :: "string list" where
  "spaceSeqs =
    [[CHR 0x09], [CHR 0x0A], [CHR 0x0B], [CHR 0x0C], [CHR 0x0D], [CHR 0x20],
     [CHR 0xC2, CHR 0x85], [CHR 0xC2, CHR 0xA0], [CHR 0xE1, CHR 0x9A, CHR 0x80],
     [CHR 0xE2, CHR 0x80, CHR 0x80], [CHR 0xE2, CHR 0x80, CHR 0x81],
     [CHR 0xE2, CHR 0x80, CHR 0x82], [CHR 0xE2, CHR 0x80, CHR 0x83],
     [CHR 0xE2, CHR 0x80, CHR 0x84], [CHR 0xE2, CHR 0x80, CHR 0x85],
     [CHR 0xE2, CHR 0x80, CHR 0x86], [CHR 0xE2, CHR 0x80, CHR 0x87],
     [CHR 0xE2, CHR 0x80, CHR 0x88], [CHR 0xE2, CHR 0x80, CHR 0x89],
     [CHR 0xE2, CHR 0x80, CHR 0x8A], [CHR 0xE2, CHR 0x80, CHR 0xA8],
     [CHR 0xE2, CHR 0x80, CHR 0xA9], [CHR 0xE2, CHR 0x80, CHR 0xAF],
     [CHR 0xE2, CHR 0x81, CHR 0x9F], [CHR 0xE3, CHR 0x80, CHR 0x80]]"

fun cutAny :: "string list \<Rightarrow> string \<Rightarrow> string option" where
  "cutAny [] s = None"
| "cutAny (p # ps) s = (case cutPrefix s p of Some r \<Rightarrow> Some r | None \<Rightarrow> cutAny ps s)"

lemma cutAny_Some: "cutAny ps s = Some r \<Longrightarrow> \<exists>p \<in> set ps. s = p @ r"
  by (induction ps) (auto simp: cutPrefix_Some split: option.splits)

lemma cutAny_None: "cutAny ps s = None \<longleftrightarrow> (\<forall>p \<in> set ps. \<not> hasPrefix s p)"
  by (induction ps) (auto simp: hasPrefix_def split: option.splits)

text \<open>\<open>TrimLeftFunc\<close>: the empty sequence never occurs, so every round shortens the text.\<close>

function stripSeqs :: "string list \<Rightarrow> string \<Rightarrow> string" where
  "stripSeqs ps s =
     (case cutAny ps s of
        Some r \<Rightarrow> if length r < length s then stripSeqs ps r else s
      | None \<Rightarrow> s)"
  by pat_completeness auto
termination
  by (relation "measure (\<lambda>(ps, s). length s)") auto

declare stripSeqs.simps [simp del]

definition trimSpace :: "string \<Rightarrow> string" where
  "trimSpace s = rev (stripSeqs (map rev spaceSeqs) (rev (stripSeqs spaceSeqs s)))"

text \<open>\<open>strings.Trim(s, cutset)\<close> for a cutset of ASCII bytes.\<close>

definition trimSet :: "char list \<Rightarrow> string \<Rightarrow> string" where
  "trimSet cs s = rev (dropWhile (\<lambda>c. c \<in> set cs) (rev (dropWhile (\<lambda>c. c \<in> set cs) s)))"

definition spaceFree :: "string \<Rightarrow> bool" where
  "spaceFree s \<longleftrightarrow> cutAny spaceSeqs s = None \<and> cutAny (map rev spaceSeqs) (rev s) = None"

lemma stripSeqs_id: "cutAny ps s = None \<Longrightarrow> stripSeqs ps s = s"
  by (subst stripSeqs.simps) simp

lemma stripSeqs_suffix: "\<exists>p. s = p @ stripSeqs ps s"
proof (induction ps s rule: stripSeqs.induct)
  case (1 ps s)
  show ?case
  proof (cases "cutAny ps s")
    case None
    then show ?thesis by (auto simp: stripSeqs_id)
  next
    case (Some r)
    show ?thesis
    proof (cases "length r < length s")
      case True
      with Some 1 obtain p where "r = p @ stripSeqs ps r" by blast
      moreover obtain q where "s = q @ r" using cutAny_Some [OF Some] by blast
      moreover have "stripSeqs ps s = stripSeqs ps r"
        using Some True by (simp add: stripSeqs.simps [of ps s])
      ultimately have "s = (q @ p) @ stripSeqs ps s" by simp
      then show ?thesis by blast
    next
      case False
      with Some have "stripSeqs ps s = s" by (simp add: stripSeqs.simps [of ps s])
      then show ?thesis by auto
    qed
  qed
qed

lemma stripSeqs_done:
  assumes "[] \<notin> set ps"
  shows "cutAny ps (stripSeqs ps s) = None"
  using assms
proof (induction ps s rule: stripSeqs.induct)
  case (1 ps s)
  show ?case
  proof (cases "cutAny ps s")
    case None
    then show ?thesis by (simp add: stripSeqs_id)
  next
    case (Some r)
    then obtain p where "p \<in> set ps" "s = p @ r" using cutAny_Some by blast
    with 1(2) have "length r < length s" by (cases p) auto
    with Some 1 show ?thesis by (simp add: stripSeqs.simps [of ps s])
  qed
qed

lemma trimSpace_id [wire_simps]: "spaceFree s \<Longrightarrow> trimSpace s = s"
  by (simp add: trimSpace_def spaceFree_def stripSeqs_id)

lemma trimSpace_infix: "\<exists>a b. s = a @ trimSpace s @ b"
proof -
  obtain a where a: "s = a @ stripSeqs spaceSeqs s" using stripSeqs_suffix by blast
  obtain b where "rev (stripSeqs spaceSeqs s) =
      b @ stripSeqs (map rev spaceSeqs) (rev (stripSeqs spaceSeqs s))"
    using stripSeqs_suffix by blast
  then have "stripSeqs spaceSeqs s = trimSpace s @ rev b"
    unfolding trimSpace_def by (metis rev_append rev_rev_ident)
  with a show ?thesis by metis
qed

lemma set_trimSpace: "set (trimSpace s) \<subseteq> set s"
  using trimSpace_infix [of s] by (metis Un_iff set_append subsetI)

lemma dropWhile_id: "s = [] \<or> \<not> P (hd s) \<Longrightarrow> dropWhile P s = s"
  by (cases s) auto

lemma trimSet_id:
  assumes "s = [] \<or> hd s \<notin> set cs \<and> last s \<notin> set cs"
  shows "trimSet cs s = s"
proof -
  have "dropWhile (\<lambda>c. c \<in> set cs) s = s" and "dropWhile (\<lambda>c. c \<in> set cs) (rev s) = rev s"
    using assms by (auto intro!: dropWhile_id simp: hd_rev)
  then show ?thesis by (simp add: trimSet_def)
qed

lemma cutPrefix_before:
  "c \<notin> set p \<Longrightarrow> cutPrefix (a @ c # b) p = map_option (\<lambda>r. r @ c # b) (cutPrefix a p)"
  by (induction a p rule: cutPrefix.induct) auto

lemma cutAny_before:
  "(\<And>p. p \<in> set ps \<Longrightarrow> c \<notin> set p) \<Longrightarrow>
     cutAny ps (a @ c # b) = map_option (\<lambda>r. r @ c # b) (cutAny ps a)"
  by (induction ps) (auto simp: cutPrefix_before split: option.splits)

lemma stripSeqs_before:
  assumes "\<And>p. p \<in> set ps \<Longrightarrow> c \<notin> set p"
  shows "stripSeqs ps (a @ c # b) = stripSeqs ps a @ c # b"
  using assms
proof (induction ps a rule: stripSeqs.induct)
  case (1 ps a)
  then show ?case
    by (cases "cutAny ps a"; cases "length (the (cutAny ps a)) < length a")
       (simp_all add: cutAny_before stripSeqs.simps [of ps a] stripSeqs.simps [of ps "a @ c # b"])
qed

lemma cutAny_hd:
  assumes "\<And>p. p \<in> set ps \<Longrightarrow> p \<noteq> [] \<and> hd p \<noteq> x"
  shows "cutAny ps (x # s) = None"
proof -
  have "\<not> hasPrefix (x # s) p" if "p \<in> set ps" for p
    using assms [OF that] by (cases p) (auto simp: hasPrefix_iff)
  then show ?thesis by (simp add: cutAny_None)
qed

subsection \<open>Decimal numbers\<close>

definition isDigit :: "char \<Rightarrow> bool" where
  "isDigit c \<longleftrightarrow> 48 \<le> (of_char c :: int) \<and> (of_char c :: int) \<le> 57"

definition digitChar :: "int \<Rightarrow> char" where
  "digitChar d = char_of (48 + d)"

text \<open>\<open>strconv.FormatUint(n, 10)\<close> and \<open>fmt\<close>'s \<open>%d\<close>, for a non-negative number.\<close>

function formatUint :: "int \<Rightarrow> string" where
  "formatUint n = (if n < 10 then [digitChar n] else formatUint (n div 10) @ [digitChar (n mod 10)])"
  by pat_completeness auto
termination
  by (relation "measure nat") (auto simp: nat_div_distrib)

declare formatUint.simps [simp del]

text \<open>\<open>strconv.Itoa\<close>.\<close>

definition itoa :: "int \<Rightarrow> string" where
  "itoa i = (if i < 0 then CHR ''-'' # formatUint (- i) else formatUint i)"

datatype num_error = SyntaxErr | RangeErr

text \<open>The value of a digit of \<open>ParseUint\<close>; letters count from ten.\<close>

definition digitVal :: "char \<Rightarrow> int option" where
  "digitVal c =
     (let n = of_char c in
      if 48 \<le> n \<and> n \<le> 57 then Some (n - 48)
      else if 97 \<le> n \<and> n \<le> 122 then Some (n - 87)
      else if 65 \<le> n \<and> n \<le> 90 then Some (n - 55)
      else None)"

text \<open>
  The loop of \<open>strconv.ParseUint\<close>. Go compares against a cutoff and tests for wrap-around on
  \<open>uint64\<close>; both are \<open>n * base + d > maxVal\<close> over the integers.
\<close>

fun parseUintLoop :: "int \<Rightarrow> int \<Rightarrow> int \<Rightarrow> string \<Rightarrow> num_error + int" where
  "parseUintLoop base maxVal n [] = Inr n"
| "parseUintLoop base maxVal n (c # cs) =
     (case digitVal c of
        None \<Rightarrow> Inl SyntaxErr
      | Some d \<Rightarrow>
          if base \<le> d then Inl SyntaxErr
          else if n * base + d > maxVal then Inl RangeErr
          else parseUintLoop base maxVal (n * base + d) cs)"

definition parseUint :: "int \<Rightarrow> nat \<Rightarrow> string \<Rightarrow> num_error + int" where
  "parseUint base bits s =
     (if s = [] then Inl SyntaxErr else parseUintLoop base (2 ^ bits - 1) 0 s)"

text \<open>\<open>strconv.ParseInt(s, 10, bits)\<close>; \<open>strconv.Atoi\<close> is the same at 64 bits.\<close>

definition parseSigned :: "bool \<Rightarrow> nat \<Rightarrow> string \<Rightarrow> num_error + int" where
  "parseSigned neg bits s =
     (case parseUint 10 bits s of
        Inl e \<Rightarrow> Inl e
      | Inr un \<Rightarrow>
          if \<not> neg \<and> un \<ge> 2 ^ (bits - 1) then Inl RangeErr
          else if neg \<and> un > 2 ^ (bits - 1) then Inl RangeErr
          else Inr (if neg then - un else un))"

definition parseInt :: "nat \<Rightarrow> string \<Rightarrow> num_error + int" where
  "parseInt bits s =
     (case s of
        [] \<Rightarrow> Inl SyntaxErr
      | c # cs \<Rightarrow>
          if c = CHR ''+'' then parseSigned False bits cs
          else if c = CHR ''-'' then parseSigned True bits cs
          else parseSigned False bits s)"

definition atoi :: "string \<Rightarrow> num_error + int" where
  "atoi s = parseInt 64 s"

text \<open>The regular expression \<open>^\<backslash>d+$\<close>.\<close>

definition reLooksLikePort :: "string \<Rightarrow> bool" where
  "reLooksLikePort s \<longleftrightarrow> s \<noteq> [] \<and> list_all isDigit s"

lemma of_digitChar: "0 \<le> d \<Longrightarrow> d < 10 \<Longrightarrow> (of_char (digitChar d) :: int) = 48 + d"
  by (simp add: digitChar_def)

lemma isDigit_digitChar [simp]: "0 \<le> d \<Longrightarrow> d < 10 \<Longrightarrow> isDigit (digitChar d)"
  by (simp add: isDigit_def of_digitChar)

lemma digitVal_digitChar [simp]: "0 \<le> d \<Longrightarrow> d < 10 \<Longrightarrow> digitVal (digitChar d) = Some d"
  by (simp add: digitVal_def of_digitChar)

lemma digitVal_isDigit: "isDigit c \<Longrightarrow> \<exists>d. digitVal c = Some d \<and> 0 \<le> d \<and> d < 10"
  by (auto simp: isDigit_def digitVal_def)

lemma digitVal_nonneg: "digitVal c = Some d \<Longrightarrow> 0 \<le> d"
  by (auto simp: digitVal_def Let_def split: if_splits)

lemma formatUint_not_Nil [simp]: "formatUint n \<noteq> []"
  by (subst formatUint.simps) simp

lemma length_formatUint: "0 \<le> n \<Longrightarrow> n < 10 ^ k \<Longrightarrow> 0 < k \<Longrightarrow> length (formatUint n) \<le> k"
proof (induction n arbitrary: k rule: formatUint.induct)
  case (1 n)
  show ?case
  proof (cases "n < 10")
    case False
    with 1(3,4) obtain j where k: "k = Suc j" "0 < j" by (cases k; cases "k = 1") auto
    with 1(3) have "n div 10 < 10 ^ j" by (simp add: div_less_iff_less_mult mult.commute)
    with 1(1) [OF False _ _ k(2)] 1(2) False k show ?thesis by (simp add: formatUint.simps [of n])
  qed (use 1 in \<open>simp add: formatUint.simps [of n]\<close>)
qed

lemma formatUint_digits: "0 \<le> n \<Longrightarrow> list_all isDigit (formatUint n)"
proof (induction n rule: formatUint.induct)
  case (1 n)
  then show ?case by (simp add: formatUint.simps [of n])
qed

lemma isDigit_formatUint: "c \<in> set (formatUint n) \<Longrightarrow> 0 \<le> n \<Longrightarrow> isDigit c"
  using formatUint_digits [of n] by (simp add: list_all_iff)

lemma reLooksLikePort_formatUint [simp]: "0 \<le> n \<Longrightarrow> reLooksLikePort (formatUint n)"
  by (simp add: reLooksLikePort_def formatUint_digits)

lemma parseUintLoop_append:
  "parseUintLoop b mx n (xs @ ys) =
     (case parseUintLoop b mx n xs of Inl e \<Rightarrow> Inl e | Inr m \<Rightarrow> parseUintLoop b mx m ys)"
  by (induction b mx n xs rule: parseUintLoop.induct) (auto split: option.splits)

lemma parseUintLoop_formatUint:
  "0 \<le> n \<Longrightarrow> n \<le> mx \<Longrightarrow> parseUintLoop 10 mx 0 (formatUint n) = Inr n"
proof (induction n rule: formatUint.induct)
  case (1 n)
  show ?case
  proof (cases "n < 10")
    case True
    with 1 show ?thesis by (simp add: formatUint.simps [of n])
  next
    case False
    have "n div 10 \<le> n" using 1(2) False by (intro int_div_less_self [THEN less_imp_le]) auto
    with 1 False have "parseUintLoop 10 mx 0 (formatUint (n div 10)) = Inr (n div 10)" by simp
    moreover have "n div 10 * 10 + n mod 10 = n" by simp
    ultimately show ?thesis
      using False 1(3) by (simp add: formatUint.simps [of n] parseUintLoop_append)
  qed
qed

lemma parseUint_formatUint [wire_simps]:
  "0 \<le> n \<Longrightarrow> n < 2 ^ bits \<Longrightarrow> parseUint 10 bits (formatUint n) = Inr n"
  by (simp add: parseUint_def parseUintLoop_formatUint)

lemma parseUintLoop_bound:
  "parseUintLoop b mx n s = Inr m \<Longrightarrow> 0 \<le> n \<Longrightarrow> n \<le> mx \<Longrightarrow> 0 \<le> b \<Longrightarrow> 0 \<le> m \<and> m \<le> mx"
  by (induction b mx n s rule: parseUintLoop.induct)
     (auto split: option.splits if_splits dest: digitVal_nonneg)

lemma parseUint_bound: "parseUint b bits s = Inr n \<Longrightarrow> 0 \<le> b \<Longrightarrow> 0 \<le> n \<and> n < 2 ^ bits"
  using parseUintLoop_bound [of b "2 ^ bits - 1" 0 s n]
  by (auto simp: parseUint_def split: if_splits)

lemma parseSigned_bound:
  "parseSigned neg bits s = Inr i \<Longrightarrow> - (2 ^ (bits - 1)) \<le> i \<and> i < 2 ^ (bits - 1)"
  by (cases "parseUint 10 bits s")
     (auto simp: parseSigned_def split: if_splits dest!: parseUint_bound
       intro: order.strict_trans1 [of _ 0])

lemma parseInt_bound:
  "parseInt bits s = Inr i \<Longrightarrow> - (2 ^ (bits - 1)) \<le> i \<and> i < 2 ^ (bits - 1)"
  by (auto simp: parseInt_def split: list.splits if_splits dest: parseSigned_bound)

lemma formatUint_inj:
  assumes "formatUint m = formatUint n" and "0 \<le> m" and "0 \<le> n"
  shows "m = n"
proof -
  have "Inr m = parseUintLoop 10 (max m n) 0 (formatUint m)"
    using assms(2) by (intro parseUintLoop_formatUint [symmetric]) auto
  also have "\<dots> = parseUintLoop 10 (max m n) 0 (formatUint n)"
    by (simp only: assms)
  also have "\<dots> = Inr n"
    using assms(3) by (intro parseUintLoop_formatUint) auto
  finally show ?thesis by simp
qed

lemma hd_formatUint: "0 \<le> n \<Longrightarrow> isDigit (hd (formatUint n))"
  by (rule isDigit_formatUint [of _ n]) simp_all

lemma last_formatUint: "0 \<le> n \<Longrightarrow> isDigit (last (formatUint n))"
  by (rule isDigit_formatUint [of _ n]) simp_all

lemma notDigit [simp]:
  "\<not> isDigit (CHR ''+'')" "\<not> isDigit (CHR ''-'')" "\<not> isDigit (CHR '':'')"
  "\<not> isDigit (CHR ''/'')" "\<not> isDigit (CHR '';'')" "\<not> isDigit (CHR ''='')"
  "\<not> isDigit (CHR ''u'')" "\<not> isDigit (CHR ''['')" "\<not> isDigit (CHR '']'')"
  "\<not> isDigit (CHR 0x0A)" "\<not> isDigit (CHR 0x00)"
  by (simp_all add: isDigit_def)

lemma notin_formatUint [simp]: "\<not> isDigit c \<Longrightarrow> 0 \<le> n \<Longrightarrow> c \<notin> set (formatUint n)"
  using isDigit_formatUint by blast

lemma parseInt_formatUint:
  assumes "0 \<le> n" and "n < 2 ^ (bits - 1)"
  shows "parseInt bits (formatUint n) = Inr n"
proof -
  have "n < 2 ^ bits"
    using assms(2) by (rule order.strict_trans2) (simp add: power_increasing)
  with assms(1) have *: "parseUint 10 bits (formatUint n) = Inr n" by (rule parseUint_formatUint)
  obtain c cs where f: "formatUint n = c # cs" by (cases "formatUint n") simp_all
  with hd_formatUint [of n] assms(1) have "isDigit c" by simp
  then have "c \<noteq> CHR ''+''" "c \<noteq> CHR ''-''" using notDigit(1,2) by blast+
  with f * assms show ?thesis by (simp add: parseInt_def parseSigned_def)
qed

lemma parseInt_itoa [wire_simps]:
  assumes "- (2 ^ (bits - 1)) \<le> i" and "i < 2 ^ (bits - 1)" and "0 < bits"
  shows "parseInt bits (itoa i) = Inr i"
proof (cases "i < 0")
  case True
  have "- i \<le> 2 ^ (bits - 1)" using assms by simp
  also have "(2::int) ^ (bits - 1) < 2 ^ bits"
    using assms(3) by (simp add: power_strict_increasing)
  finally have "parseUint 10 bits (formatUint (- i)) = Inr (- i)"
    using True by (intro parseUint_formatUint) simp_all
  with True assms show ?thesis by (simp add: itoa_def parseInt_def parseSigned_def)
next
  case False
  with assms show ?thesis by (simp add: itoa_def parseInt_formatUint)
qed

lemma itoa_nonneg: "0 \<le> i \<Longrightarrow> itoa i = formatUint i"
  by (simp add: itoa_def)

subsection \<open>Host and port\<close>

datatype addr_error =
  MissingPort | TooManyColons | MissingBracket | UnexpectedOpen | UnexpectedClose

text \<open>
  \<open>net.SplitHostPort\<close>. The text before the last colon has length \<open>i\<close>; in the bracketed form
  the first closing bracket stands at index \<open>length host + 1\<close>.
\<close>

definition splitHostPort :: "string \<Rightarrow> addr_error + (string \<times> string)" where
  "splitHostPort s =
     (case goCutLast (CHR '':'') s of
        None \<Rightarrow> Inl MissingPort
      | Some (front, port) \<Rightarrow>
          if hd s = CHR ''['' then
            (case goCut (CHR '']'') (tl s) of
               None \<Rightarrow> Inl MissingBracket
             | Some (host, after) \<Rightarrow>
                 if after = [] then Inl MissingPort
                 else if length host + 2 = length front then
                   (if CHR ''['' \<in> set (tl s) then Inl UnexpectedOpen
                    else if CHR '']'' \<in> set after then Inl UnexpectedClose
                    else Inr (host, port))
                 else if hd after = CHR '':'' then Inl TooManyColons
                 else Inl MissingPort)
          else if CHR '':'' \<in> set front then Inl TooManyColons
          else if CHR ''['' \<in> set s then Inl UnexpectedOpen
          else if CHR '']'' \<in> set s then Inl UnexpectedClose
          else Inr (front, port))"

text \<open>\<open>net.JoinHostPort\<close>.\<close>

definition joinHostPort :: "string \<Rightarrow> string \<Rightarrow> string" where
  "joinHostPort host port =
     (if CHR '':'' \<in> set host then ''['' @ host @ '']:'' @ port else host @ '':'' @ port)"

subsection \<open>File paths\<close>

text \<open>
  \<open>path/filepath\<close> of the Unix build: the separator is a slash and there are no volume names.
  \<open>Clean\<close> resolves the elements from left to right on a stack (kept reversed).
\<close>

definition isPathSeparator :: "char \<Rightarrow> bool" where
  "isPathSeparator c \<longleftrightarrow> c = CHR ''/''"

definition isAbsPath :: "string \<Rightarrow> bool" where
  "isAbsPath p \<longleftrightarrow> hasPrefix p ''/''"

definition volumeName :: "string \<Rightarrow> string" where
  "volumeName p = []"

fun cleanElems :: "bool \<Rightarrow> string list \<Rightarrow> string list \<Rightarrow> string list" where
  "cleanElems rooted stack [] = rev stack"
| "cleanElems rooted stack (e # es) =
     (if e = [] \<or> e = ''.'' then cleanElems rooted stack es
      else if e = ''..'' then
        (case stack of
           [] \<Rightarrow> cleanElems rooted (if rooted then [] else [''..'']) es
         | t # ts \<Rightarrow> if t = ''..'' then cleanElems rooted (e # stack) es else cleanElems rooted ts es)
      else cleanElems rooted (e # stack) es)"

definition filepathClean :: "string \<Rightarrow> string" where
  "filepathClean p =
     (let rooted = isAbsPath p;
          out = (if rooted then ''/'' else []) @ goJoin (CHR ''/'') (cleanElems rooted [] (goSplit (CHR ''/'') p))
      in if out = [] then ''.'' else out)"

text \<open>\<open>filepath.Join\<close> of two elements: leading empty elements are ignored.\<close>

definition filepathJoin :: "string \<Rightarrow> string \<Rightarrow> string" where
  "filepathJoin a b =
     (if a = [] \<and> b = [] then []
      else if a = [] then filepathClean b
      else filepathClean (a @ ''/'' @ b))"

text \<open>\<open>filepath.Abs\<close>; \<open>getwd\<close> is what \<open>os.Getwd\<close> returns.\<close>

definition filepathAbs :: "string + string \<Rightarrow> string \<Rightarrow> string + string" where
  "filepathAbs getwd p =
     (if isAbsPath p then Inr (filepathClean p)
      else (case getwd of Inl e \<Rightarrow> Inl e | Inr wd \<Rightarrow> Inr (filepathJoin wd p)))"

subsection \<open>Lists of encoded entries\<close>

text \<open>
  The wire formats of the program are lists of entries joined by one separator byte. An entry
  codec promises that an encoded entry never contains the separator and decodes to what it
  stands for; the list codec then follows for any number of entries.
\<close>

locale sep_codec =
  fixes sep :: char
    and enc :: "'a \<Rightarrow> string"
    and dec :: "string \<Rightarrow> 'e + 'b"
    and norm :: "'a \<Rightarrow> 'b"
    and ok :: "'a \<Rightarrow> bool"
  assumes enc_no_sep: "ok x \<Longrightarrow> sep \<notin> set (enc x)"
    and dec_enc: "ok x \<Longrightarrow> dec (enc x) = Inr (norm x)"
begin

lemma split_encoded:
  assumes "xs \<noteq> []" and "\<forall>x \<in> set xs. ok x"
  shows "goSplit sep (goJoin sep (map enc xs)) = map enc xs"
  using assms by (intro goSplit_goJoin) (auto dest: enc_no_sep)

lemma decode_entries:
  assumes "\<forall>x \<in> set xs. ok x"
  shows "mapE dec (map enc xs) = Inr (map norm xs)"
  using assms by (induction xs) (auto simp: dec_enc)

lemma decode_list:
  assumes "xs \<noteq> []" and "\<forall>x \<in> set xs. ok x"
  shows "mapE dec (goSplit sep (goJoin sep (map enc xs))) = Inr (map norm xs)"
  using assms by (simp add: split_encoded decode_entries)

end

end
