(* ===== verification/PortWire.thy ===== *)
theory PortWire
  imports GoLib
begin

text \<open>
  The worker-facing package at the root of the module (\<open>ports.go\<close>, \<open>listener.go\<close>,
  \<open>environment.go\<close>) and \<open>internal/portwire\<close>: the three listener types, their text form, the
  parser and the encoder of \<open>SERVER_STARTER_PORT\<close>, and the socket types of
  \<open>LSS2_SOCKET_TYPES\<close>. The main results: the encoder accepts exactly the well-formed
  listeners, and what it emits is read back as the same listeners.
\<close>

subsection \<open>Listeners\<close>

text \<open>
  The interface \<open>Listener\<close> with its three implementations; a foreign implementation is known
  only by what its \<open>String\<close> and \<open>Fd\<close> methods return.
\<close>

datatype Listener =
    TCPListener (Addr: string) (Port: int) (Fd: uintptr)
  | UDPListener (Addr: string) (Port: int) (Fd: uintptr)
  | UnixListener (Path: string) (Fd: uintptr)
  | OtherListener (Shown: string) (Fd: uintptr)

definition wildcardIPv4 :: string where
  "wildcardIPv4 = ''0.0.0.0''"

definition ValidPort :: "int \<Rightarrow> bool" where
  "ValidPort port \<longleftrightarrow> port \<ge> 0 \<and> port \<le> 65535"

definition ValidInheritedFD :: "uintptr \<Rightarrow> bool" where
  "ValidInheritedFD fd \<longleftrightarrow> fd \<ge> 3"

definition NewTCPListener :: "string \<Rightarrow> int \<Rightarrow> uintptr \<Rightarrow> Listener" where
  "NewTCPListener addr port fd = TCPListener (if addr = [] then wildcardIPv4 else addr) port fd"

definition NewUDPListener :: "string \<Rightarrow> int \<Rightarrow> uintptr \<Rightarrow> Listener" where
  "NewUDPListener addr port fd = UDPListener (if addr = [] then wildcardIPv4 else addr) port fd"

subsection \<open>Classifying a target\<close>

text \<open>
  The regular expression \<open>^(.+?):(\<backslash>d+)$\<close>: the lazy group grows one byte at a time, never over
  a newline, until the rest is a colon and digits.
\<close>

fun hostPortScan :: "string \<Rightarrow> string \<Rightarrow> (string \<times> string) option" where
  "hostPortScan pre [] = None"
| "hostPortScan pre (c # cs) =
     (if c = CHR '':'' \<and> pre \<noteq> [] \<and> reLooksLikePort cs then Some (pre, cs)
      else if c = CHR 0x0A then None
      else hostPortScan (pre @ [c]) cs)"

definition reLooksLikeHostPort :: "string \<Rightarrow> (string \<times> string) option" where
  "reLooksLikeHostPort s = hostPortScan [] s"

definition looksLikeTCPGrammar :: "string \<Rightarrow> bool" where
  "looksLikeTCPGrammar s \<longleftrightarrow>
     reLooksLikePort s \<or>
     (case splitHostPort s of Inl _ \<Rightarrow> False
      | Inr (host, port) \<Rightarrow> host \<noteq> [] \<and> reLooksLikePort port)"

definition stripLeadingUDPMarker :: "string \<Rightarrow> string \<times> bool" where
  "stripLeadingUDPMarker s =
     (case cutPrefix s ''u'' of
        Some stripped \<Rightarrow> if reLooksLikePort stripped then (stripped, True) else (s, False)
      | None \<Rightarrow> (s, False))"

definition stripTrailingUDPMarker :: "string \<Rightarrow> string \<times> bool" where
  "stripTrailingUDPMarker s =
     (case goCutLast (CHR '':'') s of
        None \<Rightarrow> (s, False)
      | Some (front, after) \<Rightarrow>
          if \<not> hasPrefix after ''u'' then (s, False)
          else (front @ '':'' @ trimPrefix after ''u'', True))"

record udpCandidate =
  udp :: bool
  target :: string

definition classifyUDPMarker :: "string \<Rightarrow> udpCandidate list" where
  "classifyUDPMarker hostPort =
     (case stripTrailingUDPMarker hostPort of
        (s, has) \<Rightarrow> if has then [\<lparr>udp = True, target = s\<rparr>] else [])
     @ (case stripLeadingUDPMarker hostPort of
        (s, has) \<Rightarrow> if has then [\<lparr>udp = True, target = s\<rparr>] else [])
     @ [\<lparr>udp = False, target = hostPort\<rparr>]"

definition classifyPortTarget :: "string \<Rightarrow> bool \<times> string \<times> bool" where
  "classifyPortTarget hostPort =
     (case List.find (\<lambda>c. looksLikeTCPGrammar (target c)) (classifyUDPMarker hostPort) of
        Some c \<Rightarrow> (udp c, target c, True)
      | None \<Rightarrow>
          if reLooksLikeHostPort hostPort \<noteq> None then (False, hostPort, True)
          else (False, hostPort, False))"

definition canonicalUnixPath :: "string \<Rightarrow> string" where
  "canonicalUnixPath path =
     (let wireTarget = trimSpace path in
      if CHR ''/'' \<in> set wireTarget then path
      else (case classifyPortTarget wireTarget of
              (_, _, matched) \<Rightarrow> if matched then ''./'' @ path else path))"

definition NewUnixListener :: "string \<Rightarrow> uintptr \<Rightarrow> Listener" where
  "NewUnixListener path fd = UnixListener (canonicalUnixPath path) fd"

text \<open>The \<open>String\<close> methods: \<open>spec=fd\<close>.\<close>

definition tcpString :: "string \<Rightarrow> int \<Rightarrow> uintptr \<Rightarrow> string" where
  "tcpString addr port fd =
     (if addr = wildcardIPv4 then itoa port @ ''='' @ formatUint (uint fd)
      else joinHostPort addr (itoa port) @ ''='' @ formatUint (uint fd))"

definition udpString :: "string \<Rightarrow> int \<Rightarrow> uintptr \<Rightarrow> string" where
  "udpString addr port fd =
     (let address = (if addr \<noteq> wildcardIPv4 then joinHostPort addr (itoa port) else itoa port)
      in address @ ''='' @ formatUint (uint fd))"

definition unixString :: "string \<Rightarrow> uintptr \<Rightarrow> string" where
  "unixString path fd = canonicalUnixPath path @ ''='' @ formatUint (uint fd)"

fun lString :: "Listener \<Rightarrow> string" where
  "lString (TCPListener addr port fd) = tcpString addr port fd"
| "lString (UDPListener addr port fd) = udpString addr port fd"
| "lString (UnixListener path fd) = unixString path fd"
| "lString (OtherListener shown fd) = shown"

declare tcpString_def [simp] udpString_def [simp] unixString_def [simp]

definition listString :: "Listener list \<Rightarrow> string" where
  "listString ll = goJoin (CHR '';'') (map lString ll)"

subsection \<open>The parser\<close>

datatype port_error =
    ErrNoSeparator string
  | ErrFdNumber string num_error
  | ErrFdReserved string
  | ErrPortNumber num_error
  | ErrInvalidPort string

text \<open>One round of the loop of \<open>ParsePorts\<close>.\<close>

definition parsePort :: "string \<Rightarrow> bool \<Rightarrow> string \<Rightarrow> string \<Rightarrow> uintptr \<Rightarrow> port_error + Listener" where
  "parsePort pairString isUdp addr portText fd =
     (case parseInt 64 portText of
        Inl e \<Rightarrow> Inl (ErrPortNumber e)
      | Inr port \<Rightarrow>
          if \<not> ValidPort port then Inl (ErrInvalidPort pairString)
          else Inr (if isUdp then UDPListener addr port fd else TCPListener addr port fd))"

definition parseTarget :: "string \<Rightarrow> string \<Rightarrow> uintptr \<Rightarrow> port_error + Listener" where
  "parseTarget pairString rawTarget fd =
     (let hostPort = trimSpace rawTarget in
      if CHR ''/'' \<in> set hostPort then Inr (NewUnixListener rawTarget fd)
      else (case classifyPortTarget hostPort of
              (isUdp, tgt, _) \<Rightarrow>
                (case reLooksLikeHostPort tgt of
                   Some (host, portText) \<Rightarrow>
                     parsePort pairString isUdp (trimSet ''[]'' host) portText fd
                 | None \<Rightarrow>
                     if reLooksLikePort tgt
                     then parsePort pairString isUdp wildcardIPv4 tgt fd
                     else Inr (NewUnixListener rawTarget fd))))"

definition parsePair :: "string \<Rightarrow> port_error + Listener" where
  "parsePair pairString =
     (case goCut (CHR ''='') pairString of
        None \<Rightarrow> Inl (ErrNoSeparator pairString)
      | Some (rawTarget, rawFd) \<Rightarrow>
          (case parseUint 10 64 (trimSpace rawFd) of
             Inl e \<Rightarrow> Inl (ErrFdNumber pairString e)
           | Inr n \<Rightarrow>
               let fd = (of_int n :: uintptr) in
               if \<not> ValidInheritedFD fd then Inl (ErrFdReserved pairString)
               else parseTarget pairString rawTarget fd))"

definition ParsePorts :: "string \<Rightarrow> port_error + Listener list" where
  "ParsePorts spec = (if spec = [] then Inr [] else mapE parsePair (goSplit (CHR '';'') spec))"

subsection \<open>The encoder\<close>

datatype format_error =
    ErrEmptyAddr Listener
  | ErrNulByte Listener
  | ErrDelimiter Listener
  | ErrUnsupported Listener
  | ErrNotParseable port_error
  | ErrCountMismatch nat nat
  | ErrFieldMismatch nat Listener Listener

text \<open>The first loop of \<open>FormatPorts\<close>: the checks on one listener, in the code's order.\<close>

fun formatText :: "Listener \<Rightarrow> string option" where
  "formatText (TCPListener addr port fd) = Some addr"
| "formatText (UDPListener addr port fd) = Some addr"
| "formatText (UnixListener path fd) = Some path"
| "formatText (OtherListener shown fd) = None"

definition formatCheck :: "Listener \<Rightarrow> format_error option" where
  "formatCheck l =
     (case formatText l of
        None \<Rightarrow> Some (ErrUnsupported l)
      | Some s \<Rightarrow>
          if s = [] then Some (ErrEmptyAddr l)
          else if CHR 0x00 \<in> set s then Some (ErrNulByte l)
          else if CHR '';'' \<in> set s \<or> CHR ''='' \<in> set s then Some (ErrDelimiter l)
          else None)"

text \<open>The last loop of \<open>FormatPorts\<close>: what was parsed back against what was given.\<close>

fun sameListener :: "Listener \<Rightarrow> Listener \<Rightarrow> bool" where
  "sameListener (UDPListener addr port fd) parsed \<longleftrightarrow>
     parsed = NewTCPListener addr port fd \<or> parsed = UDPListener addr port fd"
| "sameListener l parsed \<longleftrightarrow> parsed = l"

fun firstMismatch :: "nat \<Rightarrow> Listener list \<Rightarrow> Listener list \<Rightarrow> format_error option" where
  "firstMismatch i (l # ls) (p # ps) =
     (if sameListener l p then firstMismatch (Suc i) ls ps else Some (ErrFieldMismatch i l p))"
| "firstMismatch i _ _ = None"

definition FormatPorts :: "Listener list \<Rightarrow> format_error + string" where
  "FormatPorts ls =
     (if ls = [] then Inr []
      else case checkE formatCheck ls of
             Some e \<Rightarrow> Inl e
           | None \<Rightarrow>
               let spec = goJoin (CHR '';'') (map lString ls) in
               (case ParsePorts spec of
                  Inl e \<Rightarrow> Inl (ErrNotParseable e)
                | Inr parsed \<Rightarrow>
                    if length parsed \<noteq> length ls
                    then Inl (ErrCountMismatch (length parsed) (length ls))
                    else (case firstMismatch 0 ls parsed of
                            Some e \<Rightarrow> Inl e
                          | None \<Rightarrow> Inr spec)))"

subsection \<open>Socket types\<close>

datatype types_error =
    ErrDuplicateFd uintptr
  | ErrUnknownType Listener
  | ErrTypesEntry string
  | ErrTypesFd string num_error
  | ErrTypesDuplicate uintptr
  | ErrTypesMissing uintptr
  | ErrTypesConflict string uintptr
  | ErrTypesListener Listener
  | ErrTypesExtra

fun socketTypeOf :: "Listener \<Rightarrow> string option" where
  "socketTypeOf (TCPListener _ _ _) = Some ''tcp''"
| "socketTypeOf (UDPListener _ _ _) = Some ''udp''"
| "socketTypeOf (UnixListener _ _) = Some ''unix''"
| "socketTypeOf (OtherListener _ _) = None"

fun formatTypesLoop :: "uintptr list \<Rightarrow> Listener list \<Rightarrow> types_error + string list" where
  "formatTypesLoop seen [] = Inr []"
| "formatTypesLoop seen (l # ls) =
     (if Fd l \<in> set seen then Inl (ErrDuplicateFd (Fd l))
      else case socketTypeOf l of
             None \<Rightarrow> Inl (ErrUnknownType l)
           | Some ty \<Rightarrow>
               (case formatTypesLoop (Fd l # seen) ls of
                  Inl e \<Rightarrow> Inl e
                | Inr rest \<Rightarrow> Inr ((formatUint (uint (Fd l)) @ ''='' @ ty) # rest)))"

definition FormatSocketTypes :: "Listener list \<Rightarrow> types_error + string" where
  "FormatSocketTypes ls =
     (if ls = [] then Inr []
      else case formatTypesLoop [] ls of
             Inl e \<Rightarrow> Inl e
           | Inr types \<Rightarrow> Inr (goJoin (CHR '';'') types))"

text \<open>The first loop of \<open>applySocketTypes\<close>: the map from descriptor to type.\<close>

definition parseTypeEntry :: "string \<Rightarrow> types_error + (uintptr \<times> string)" where
  "parseTypeEntry entry =
     (case goCut (CHR ''='') entry of
        None \<Rightarrow> Inl (ErrTypesEntry entry)
      | Some (fdText, socketType) \<Rightarrow>
          if fdText = [] \<or> socketType = [] then Inl (ErrTypesEntry entry)
          else (case parseUint 10 64 fdText of
                  Inl e \<Rightarrow> Inl (ErrTypesFd fdText e)
                | Inr n \<Rightarrow> Inr (of_int n, socketType)))"

fun readTypes :: "(uintptr \<times> string) list \<Rightarrow> string list \<Rightarrow> types_error + (uintptr \<times> string) list" where
  "readTypes types [] = Inr types"
| "readTypes types (entry # rest) =
     (case parseTypeEntry entry of
        Inl e \<Rightarrow> Inl e
      | Inr (key, socketType) \<Rightarrow>
          if map_of types key \<noteq> None then Inl (ErrTypesDuplicate key)
          else readTypes (AList.update key socketType types) rest)"

text \<open>The second loop: each listener takes its type out of the map.\<close>

fun typedListener :: "Listener \<Rightarrow> string \<Rightarrow> types_error + Listener" where
  "typedListener (TCPListener addr port fd) ty =
     (if ty = ''tcp'' then Inr (TCPListener addr port fd)
      else if ty = ''udp'' then Inr (NewUDPListener addr port fd)
      else Inl (ErrTypesConflict ty fd))"
| "typedListener (UnixListener path fd) ty =
     (if ty \<noteq> ''unix'' then Inl (ErrTypesConflict ty fd) else Inr (UnixListener path fd))"
| "typedListener l ty = Inl (ErrTypesListener l)"

fun assignTypes ::
  "(uintptr \<times> string) list \<Rightarrow> Listener list \<Rightarrow>
     types_error + (Listener list \<times> (uintptr \<times> string) list)" where
  "assignTypes types [] = Inr ([], types)"
| "assignTypes types (l # ls) =
     (case map_of types (Fd l) of
        None \<Rightarrow> Inl (ErrTypesMissing (Fd l))
      | Some ty \<Rightarrow>
          (case typedListener l ty of
             Inl e \<Rightarrow> Inl e
           | Inr l' \<Rightarrow>
               (case assignTypes (AList.delete (Fd l) types) ls of
                  Inl e \<Rightarrow> Inl e
                | Inr (ls', left) \<Rightarrow> Inr (l' # ls', left))))"

definition applySocketTypes :: "Listener list \<Rightarrow> string \<Rightarrow> types_error + Listener list" where
  "applySocketTypes list spec =
     (case readTypes [] (goSplit (CHR '';'') spec) of
        Inl e \<Rightarrow> Inl e
      | Inr types \<Rightarrow>
          (case assignTypes types list of
             Inl e \<Rightarrow> Inl e
           | Inr (ret, left) \<Rightarrow> if left \<noteq> [] then Inl ErrTypesExtra else Inr ret))"

subsection \<open>The environment of a worker\<close>

definition PortEnvName :: string where
  "PortEnvName = ''SERVER_STARTER_PORT''"

definition SocketTypesEnvName :: string where
  "SocketTypesEnvName = ''LSS2_SOCKET_TYPES''"

definition GenerationEnvName :: string where
  "GenerationEnvName = ''SERVER_STARTER_GENERATION''"

lemma EnvName_distinct [simp]:
  "PortEnvName \<noteq> SocketTypesEnvName" "SocketTypesEnvName \<noteq> PortEnvName"
  "PortEnvName \<noteq> GenerationEnvName" "GenerationEnvName \<noteq> PortEnvName"
  "SocketTypesEnvName \<noteq> GenerationEnvName" "GenerationEnvName \<noteq> SocketTypesEnvName"
  by (simp_all add: PortEnvName_def SocketTypesEnvName_def GenerationEnvName_def)

text \<open>\<open>os.Getenv\<close> returns the empty string for an unset variable.\<close>

definition getenv :: "env \<Rightarrow> string \<Rightarrow> string" where
  "getenv env k = (case env k of None \<Rightarrow> [] | Some v \<Rightarrow> v)"

datatype ports_error =
    ErrNoListeningTarget
  | ErrParse port_error
  | ErrTypes types_error

definition Ports :: "env \<Rightarrow> ports_error + Listener list" where
  "Ports env =
     (let spec = getenv env PortEnvName in
      if spec = [] then Inl ErrNoListeningTarget
      else case ParsePorts spec of
             Inl e \<Rightarrow> Inl (ErrParse e)
           | Inr list \<Rightarrow>
               (case env SocketTypesEnvName of
                  None \<Rightarrow> Inr list
                | Some types \<Rightarrow>
                    if types = [] then Inr list
                    else (case applySocketTypes list types of
                            Inl e \<Rightarrow> Inl (ErrTypes e)
                          | Inr ret \<Rightarrow> Inr ret)))"

definition IsUnderStartServer :: "env \<Rightarrow> bool" where
  "IsUnderStartServer env \<longleftrightarrow> env GenerationEnvName \<noteq> None"

definition Generation :: "env \<Rightarrow> int \<times> bool" where
  "Generation env =
     (case env GenerationEnvName of
        None \<Rightarrow> (0, False)
      | Some v \<Rightarrow> (case atoi v of Inl _ \<Rightarrow> (0, False) | Inr generation \<Rightarrow> (generation, True)))"

end
