(* ===== verification/PortCodec.thy ===== *)
theory PortCodec
  imports PortWire
begin

text \<open>
  Correctness of the wire format of \<open>PortWire\<close>: the regular expressions in closed form, the
  parser on every text the encoder emits, the exact domain of the encoder, and the round trip
  through the two environment variables.
\<close>

subsection \<open>Space sequences\<close>

lemma spaceSeqs_shape:
  "list_all (\<lambda>p. p \<noteq> [] \<and> \<not> isDigit (hd p) \<and> \<not> isDigit (last p) \<and> hd p \<noteq> CHR ''['' \<and>
     hd p \<noteq> CHR ''-'' \<and> hd p \<noteq> CHR ''.'' \<and> CHR '':'' \<notin> set p \<and> CHR ''/'' \<notin> set p) spaceSeqs"
  by code_simp

lemma spaceSeqs_facts:
  assumes "p \<in> set spaceSeqs"
  shows "p \<noteq> []" "\<not> isDigit (hd p)" "\<not> isDigit (last p)" "hd p \<noteq> CHR ''[''"
    "CHR '':'' \<notin> set p" "CHR ''/'' \<notin> set p" "hd p \<noteq> CHR ''-''" "hd p \<noteq> CHR ''.''"
  using spaceSeqs_shape assms by (simp_all add: list_all_iff)

lemma Nil_notin_spaceSeqs [simp]: "[] \<notin> set spaceSeqs" "[] \<notin> rev ` set spaceSeqs"
  using spaceSeqs_facts(1) by auto

lemma no_leading_space:
  "s \<noteq> [] \<Longrightarrow> isDigit (hd s) \<or> hd s = CHR ''['' \<or> hd s = CHR ''-'' \<Longrightarrow>
     cutAny spaceSeqs s = None"
  by (cases s) (auto intro!: cutAny_hd dest: spaceSeqs_facts(1,2,4,7))

lemma no_trailing_space:
  assumes "s \<noteq> []" and "isDigit (last s)"
  shows "cutAny (map rev spaceSeqs) (rev s) = None"
proof -
  obtain c cs where "rev s = c # cs" and "isDigit c"
    using assms by (cases s rule: rev_cases) auto
  then show ?thesis
    using spaceSeqs_facts(1,3) by (auto intro!: cutAny_hd simp: hd_rev)
qed

lemma spaceFree_digits: "0 \<le> n \<Longrightarrow> spaceFree (formatUint n)"
  by (simp add: spaceFree_def no_leading_space no_trailing_space hd_formatUint last_formatUint)

subsection \<open>The regular expressions in closed form\<close>

lemma reLooksLikePort_no_colon: "reLooksLikePort p \<Longrightarrow> CHR '':'' \<notin> set p"
  by (auto simp: reLooksLikePort_def list_all_iff)

lemma hostPortScan_iff:
  "hostPortScan pre s = Some (h, p) \<longleftrightarrow>
     (\<exists>m. h = pre @ m \<and> s = m @ CHR '':'' # p \<and> h \<noteq> [] \<and> CHR 0x0A \<notin> set m \<and> reLooksLikePort p)"
proof (induction s arbitrary: pre)
  case (Cons c cs)
  show ?case
  proof (cases "c = CHR '':'' \<and> pre \<noteq> [] \<and> reLooksLikePort cs")
    case True
    then have "CHR '':'' \<notin> set cs" by (simp add: reLooksLikePort_no_colon)
    then have "c # cs = m @ CHR '':'' # p \<longleftrightarrow> m = [] \<and> p = cs" for m p
      using True by (cases m) auto
    with True show ?thesis by auto
  next
    case no: False
    show ?thesis
    proof (cases "c = CHR 0x0A")
      case True
      then have "c # cs = m @ CHR '':'' # p \<longrightarrow> CHR 0x0A \<in> set m" for m p
        by (cases m) auto
      with True show ?thesis by auto
    next
      case False
      have "(\<exists>m. h = pre @ m \<and> c # cs = m @ CHR '':'' # p \<and> h \<noteq> [] \<and> CHR 0x0A \<notin> set m \<and> reLooksLikePort p) \<longleftrightarrow>
            (\<exists>m. h = (pre @ [c]) @ m \<and> cs = m @ CHR '':'' # p \<and> h \<noteq> [] \<and> CHR 0x0A \<notin> set m \<and> reLooksLikePort p)"
        (is "?L \<longleftrightarrow> ?R")
      proof
        assume ?L
        then obtain m where m: "h = pre @ m" "c # cs = m @ CHR '':'' # p" "h \<noteq> []"
          "CHR 0x0A \<notin> set m" "reLooksLikePort p" by blast
        with no obtain m' where "m = c # m'" by (cases m) auto
        with m show ?R by auto
      next
        assume ?R
        then obtain m where "h = (pre @ [c]) @ m" "cs = m @ CHR '':'' # p" "CHR 0x0A \<notin> set m"
          "reLooksLikePort p" by blast
        with False show ?L by (intro exI [of _ "c # m"]) auto
      qed
      moreover have "hostPortScan pre (c # cs) = hostPortScan (pre @ [c]) cs"
        using no False by auto
      ultimately show ?thesis using Cons.IH [of "pre @ [c]"] by simp
    qed
  qed
qed simp

lemma reLooksLikeHostPort_iff:
  "reLooksLikeHostPort s = Some (h, p) \<longleftrightarrow>
     s = h @ CHR '':'' # p \<and> h \<noteq> [] \<and> CHR 0x0A \<notin> set h \<and> reLooksLikePort p"
  by (auto simp: reLooksLikeHostPort_def hostPortScan_iff)

lemma reLooksLikeHostPort_None_if_no_colon:
  "CHR '':'' \<notin> set s \<Longrightarrow> reLooksLikeHostPort s = None"
  by (cases "reLooksLikeHostPort s") (auto simp: reLooksLikeHostPort_iff)

subsection \<open>Unmarked targets\<close>

text \<open>A target is unmarked when neither UDP marker of \<open>Server::Starter\<close> applies to it.\<close>

definition unmarked :: "string \<Rightarrow> bool" where
  "unmarked s \<longleftrightarrow> \<not> snd (stripTrailingUDPMarker s) \<and> \<not> snd (stripLeadingUDPMarker s)"

lemma classifyPortTarget_unmarked:
  "unmarked s \<Longrightarrow> classifyPortTarget s =
     (False, s, looksLikeTCPGrammar s \<or> reLooksLikeHostPort s \<noteq> None)"
  by (auto simp: unmarked_def classifyPortTarget_def classifyUDPMarker_def split: prod.splits)

lemma classifyPortTarget_unmatched:
  assumes "classifyPortTarget s = (isUdp, tgt, False)"
  shows "tgt = s" "reLooksLikeHostPort s = None" "\<not> looksLikeTCPGrammar s"
proof -
  have none: "List.find (\<lambda>c. looksLikeTCPGrammar (target c)) (classifyUDPMarker s) = None"
    using assms by (auto simp: classifyPortTarget_def split: option.splits)
  with assms show "tgt = s" "reLooksLikeHostPort s = None"
    by (cases "reLooksLikeHostPort s"; simp add: classifyPortTarget_def)+
  have "\<lparr>udp = False, target = s\<rparr> \<in> set (classifyUDPMarker s)"
    by (simp add: classifyUDPMarker_def)
  with none show "\<not> looksLikeTCPGrammar s" by (force simp: find_None_iff)
qed

lemma itoa_hd: "hd (itoa i) = CHR ''-'' \<or> isDigit (hd (itoa i))"
  by (simp add: itoa_def hd_formatUint)

lemma itoa_not_Nil [simp]: "itoa i \<noteq> []"
  by (simp add: itoa_def)

lemma itoa_last: "isDigit (last (itoa i))"
  by (simp add: itoa_def last_formatUint)

lemma notin_itoa [simp]: "\<not> isDigit c \<Longrightarrow> c \<noteq> CHR ''-'' \<Longrightarrow> c \<notin> set (itoa i)"
  by (auto simp: itoa_def)

lemma itoa_no_u: "\<not> hasPrefix (itoa i) ''u''"
  using itoa_hd [of i] by (auto simp: hasPrefix_iff)

lemma unmarked_itoa: "unmarked (itoa i)"
proof -
  have "goCutLast (CHR '':'') (itoa i) = None" by (simp add: goCutLast_no_sep)
  moreover have "cutPrefix (itoa i) ''u'' = None"
    using itoa_no_u [of i] by (simp add: hasPrefix_def)
  ultimately show ?thesis
    by (simp add: unmarked_def stripTrailingUDPMarker_def stripLeadingUDPMarker_def)
qed

lemma unmarked_host_itoa: "unmarked (h @ CHR '':'' # itoa i)"
proof -
  have "goCutLast (CHR '':'') (h @ CHR '':'' # itoa i) = Some (h, itoa i)"
    by (simp add: goCutLast_append)
  moreover have "\<not> reLooksLikePort r" if "cutPrefix (h @ CHR '':'' # itoa i) ''u'' = Some r" for r
  proof -
    from that have "''u'' @ r = h @ CHR '':'' # itoa i" by (simp add: cutPrefix_Some)
    then have "CHR '':'' \<in> set r" by (cases h) auto
    then show ?thesis using reLooksLikePort_no_colon by blast
  qed
  ultimately show ?thesis
    using itoa_no_u [of i]
    by (auto simp: unmarked_def stripTrailingUDPMarker_def stripLeadingUDPMarker_def
        split: option.splits)
qed

subsection \<open>Well-formed listeners\<close>

definition wfAddr :: "string \<Rightarrow> bool" where
  "wfAddr addr \<longleftrightarrow>
     addr = wildcardIPv4 \<or>
     addr \<noteq> [] \<and> CHR ''/'' \<notin> set addr \<and> CHR 0x0A \<notin> set addr \<and>
     hd addr \<notin> {CHR ''['', CHR '']''} \<and> last addr \<notin> {CHR ''['', CHR '']''} \<and>
     (CHR '':'' \<in> set addr \<or> cutAny spaceSeqs addr = None)"

definition wireText :: "string \<Rightarrow> bool" where
  "wireText s \<longleftrightarrow> s \<noteq> [] \<and> CHR 0x00 \<notin> set s \<and> CHR '';'' \<notin> set s \<and> CHR ''='' \<notin> set s"

fun wfListener :: "Listener \<Rightarrow> bool" where
  "wfListener (TCPListener addr port fd) \<longleftrightarrow>
     wireText addr \<and> wfAddr addr \<and> ValidPort port \<and> ValidInheritedFD fd"
| "wfListener (UDPListener addr port fd) \<longleftrightarrow>
     wireText addr \<and> wfAddr addr \<and> ValidPort port \<and> ValidInheritedFD fd"
| "wfListener (UnixListener path fd) \<longleftrightarrow>
     wireText path \<and> canonicalUnixPath path = path \<and> ValidInheritedFD fd"
| "wfListener (OtherListener shown fd) \<longleftrightarrow> False"

text \<open>What the port format alone can say about a listener: a UDP endpoint reads as TCP.\<close>

fun asWire :: "Listener \<Rightarrow> Listener" where
  "asWire (UDPListener addr port fd) = TCPListener addr port fd"
| "asWire l = l"

definition netSpec :: "string \<Rightarrow> int \<Rightarrow> string" where
  "netSpec addr port =
     (if addr = wildcardIPv4 then itoa port else joinHostPort addr (itoa port))"

definition hostText :: "string \<Rightarrow> string" where
  "hostText addr = (if CHR '':'' \<in> set addr then ''['' @ addr @ '']'' else addr)"

lemma joinHostPort_hostText: "joinHostPort addr port = hostText addr @ CHR '':'' # port"
  by (simp add: joinHostPort_def hostText_def)

lemma lString_net:
  "lString (TCPListener addr port fd) = netSpec addr port @ CHR ''='' # formatUint (uint fd)"
  "lString (UDPListener addr port fd) = netSpec addr port @ CHR ''='' # formatUint (uint fd)"
  by (simp_all add: netSpec_def)

declare lString.simps(1,2) [simp del]

lemma wildcard_facts:
  "wireText wildcardIPv4" "CHR '':'' \<notin> set wildcardIPv4" "wildcardIPv4 \<noteq> []"
  by (simp_all add: wildcardIPv4_def wireText_def)

lemma formatCheck_None:
  "formatCheck l = None \<longleftrightarrow> (\<exists>s. formatText l = Some s \<and> wireText s)"
  by (auto simp: formatCheck_def wireText_def split: option.splits if_splits)

lemma wf_formatCheck: "wfListener l \<Longrightarrow> formatCheck l = None"
  by (cases l) (auto simp: formatCheck_None)

lemma trimSet_hostText:
  assumes "wfAddr addr" and "addr \<noteq> wildcardIPv4"
  shows "trimSet ''[]'' (hostText addr) = addr"
proof -
  have a: "addr \<noteq> []" "hd addr \<notin> {CHR ''['', CHR '']''}" "last addr \<notin> {CHR ''['', CHR '']''}"
    using assms by (auto simp: wfAddr_def)
  then have id: "trimSet ''[]'' addr = addr" by (intro trimSet_id) auto
  have "trimSet ''[]'' (''['' @ addr @ '']'') = trimSet ''[]'' addr"
    using a by (cases addr) (auto simp: trimSet_def)
  with id show ?thesis by (simp add: hostText_def)
qed

lemma spaceFree_netSpec:
  assumes "wfAddr addr" and "0 \<le> port"
  shows "spaceFree (netSpec addr port)"
proof (cases "addr = wildcardIPv4")
  case True
  with assms show ?thesis by (simp add: netSpec_def itoa_nonneg spaceFree_digits)
next
  case False
  let ?s = "hostText addr @ CHR '':'' # itoa port"
  have "cutAny spaceSeqs ?s = None"
  proof (cases "CHR '':'' \<in> set addr")
    case True
    then show ?thesis by (intro no_leading_space) (auto simp: hostText_def)
  next
    case colon: False
    with False assms have "cutAny spaceSeqs addr = None" by (simp add: wfAddr_def)
    with colon show ?thesis
      by (simp add: hostText_def cutAny_before spaceSeqs_facts(5))
  qed
  moreover have "cutAny (map rev spaceSeqs) (rev ?s) = None"
    using itoa_last [of port] by (intro no_trailing_space) auto
  ultimately show ?thesis
    using False by (simp add: netSpec_def joinHostPort_hostText spaceFree_def)
qed

lemma uint_parse [simp]:
  "parseUint 10 64 (trimSpace (formatUint (uint (fd :: uintptr)))) = Inr (uint fd)"
  using uint_bounded [of fd] by (simp add: trimSpace_id spaceFree_digits parseUint_formatUint)

lemma parsePort_itoa:
  "ValidPort port \<Longrightarrow> parsePort pair isUdp addr (itoa port) fd =
     Inr (if isUdp then UDPListener addr port fd else TCPListener addr port fd)"
  by (simp add: parsePort_def parseInt_itoa ValidPort_def)

lemma parsePair_net:
  assumes "wireText addr" "wfAddr addr" "ValidPort port" "ValidInheritedFD fd"
  shows "parsePair (netSpec addr port @ CHR ''='' # formatUint (uint fd)) =
           Inr (TCPListener addr port fd)"
proof -
  let ?s = "netSpec addr port"
  have port: "0 \<le> port" using assms(3) by (simp add: ValidPort_def)
  have eq: "CHR ''='' \<notin> set ?s" and sl: "CHR ''/'' \<notin> set ?s"
    using assms(1,2) by (auto simp: netSpec_def wireText_def wfAddr_def joinHostPort_def)
  have trim: "trimSpace ?s = ?s"
    using assms(2) port by (intro trimSpace_id spaceFree_netSpec)
  show ?thesis
  proof (cases "addr = wildcardIPv4")
    case True
    then have s: "?s = itoa port" by (simp add: netSpec_def)
    have "reLooksLikeHostPort (itoa port) = None"
      by (simp add: reLooksLikeHostPort_None_if_no_colon)
    moreover have "reLooksLikePort (itoa port)" using port by (simp add: itoa_nonneg)
    ultimately show ?thesis
      using True eq sl trim assms(3,4) unfolding s
      by (simp add: parsePair_def parseTarget_def goCut_append classifyPortTarget_unmarked unmarked_itoa
          parsePort_itoa)
  next
    case False
    then have s: "?s = hostText addr @ CHR '':'' # itoa port"
      by (simp add: netSpec_def joinHostPort_hostText)
    have "reLooksLikeHostPort ?s = Some (hostText addr, itoa port)"
      using assms(2) False port
      by (auto simp: s reLooksLikeHostPort_iff wfAddr_def hostText_def itoa_nonneg)
    moreover have "unmarked ?s" unfolding s by (rule unmarked_host_itoa)
    ultimately show ?thesis
      using False eq sl trim assms
      by (simp add: parsePair_def parseTarget_def goCut_append classifyPortTarget_unmarked parsePort_itoa
          trimSet_hostText)
  qed
qed

lemma parsePair_unix:
  assumes "wireText path" "canonicalUnixPath path = path" "ValidInheritedFD fd"
  shows "parsePair (path @ CHR ''='' # formatUint (uint fd)) = Inr (UnixListener path fd)"
proof (cases "CHR ''/'' \<in> set (trimSpace path)")
  case True
  with assms show ?thesis
    by (simp add: parsePair_def parseTarget_def goCut_append wireText_def NewUnixListener_def)
next
  case False
  obtain isUdp tgt matched where c: "classifyPortTarget (trimSpace path) = (isUdp, tgt, matched)"
    by (metis prod_cases3)
  with False assms(2) have "\<not> matched"
    by (auto simp: canonicalUnixPath_def split: if_splits)
  with c have "classifyPortTarget (trimSpace path) = (isUdp, tgt, False)" by simp
  note un = classifyPortTarget_unmatched [OF this]
  from un have "tgt = trimSpace path" "reLooksLikeHostPort tgt = None" by simp_all
  moreover from un have "\<not> reLooksLikePort tgt" by (simp add: looksLikeTCPGrammar_def)
  ultimately show ?thesis
    using assms False c
    by (simp add: parsePair_def parseTarget_def goCut_append wireText_def NewUnixListener_def)
qed

lemma parsePair_lString: "wfListener l \<Longrightarrow> parsePair (lString l) = Inr (asWire l)"
  by (cases l) (auto simp: lString_net parsePair_net parsePair_unix)

lemma lString_no_sep: "wfListener l \<Longrightarrow> CHR '';'' \<notin> set (lString l)"
  by (cases l) (auto simp: lString_net netSpec_def joinHostPort_def wireText_def)

interpretation ports: sep_codec "CHR '';''" lString parsePair asWire wfListener
  by unfold_locales (auto simp: lString_no_sep parsePair_lString)

subsection \<open>The encoder's exact domain\<close>

lemma sameListener_asWire: "wfListener l \<Longrightarrow> sameListener l (asWire l)"
  by (cases l) (auto simp: NewTCPListener_def wireText_def)

lemma firstMismatch_None:
  "length ps = length ls \<Longrightarrow> firstMismatch i ls ps = None \<longleftrightarrow> list_all2 sameListener ls ps"
  by (induction ls ps arbitrary: i rule: list_induct2') (auto split: if_splits)

lemma lString_not_Nil: "formatText l = Some s \<Longrightarrow> lString l \<noteq> []"
  by (cases l) (auto simp: lString_net)

lemma goJoin_not_Nil: "xs \<noteq> [] \<Longrightarrow> hd xs \<noteq> [] \<Longrightarrow> goJoin c xs \<noteq> []"
  by (cases xs; cases "tl xs") auto

lemma ParsePorts_encoded:
  assumes "\<forall>l \<in> set ls. wfListener l"
  shows "ParsePorts (goJoin (CHR '';'') (map lString ls)) = Inr (map asWire ls)"
proof (cases ls)
  case (Cons l ls')
  with assms have "lString l \<noteq> []"
    by (cases l) (auto simp: lString_net)
  with Cons have "goJoin (CHR '';'') (map lString ls) \<noteq> []"
    by (intro goJoin_not_Nil) auto
  with Cons assms show ?thesis
    using ports.decode_list [of ls] by (simp add: ParsePorts_def)
qed (simp add: ParsePorts_def)

lemma FormatPorts_wf:
  assumes "\<forall>l \<in> set ls. wfListener l"
  shows "FormatPorts ls = Inr (goJoin (CHR '';'') (map lString ls))"
proof -
  have "checkE formatCheck ls = None"
    using assms by (auto simp: checkE_None_iff wf_formatCheck)
  moreover have "firstMismatch 0 ls (map asWire ls) = None"
    using assms by (auto simp: firstMismatch_None list_all2_conv_all_nth sameListener_asWire)
  ultimately show ?thesis
    using ParsePorts_encoded [OF assms] by (simp add: FormatPorts_def)
qed

text \<open>The converse: a listener that survives the encoder's own check is well-formed.\<close>

lemma trimSpace_host_itoa:
  "trimSpace (h @ CHR '':'' # itoa i) = stripSeqs spaceSeqs h @ CHR '':'' # itoa i"
proof -
  let ?t = "stripSeqs spaceSeqs h @ CHR '':'' # itoa i"
  have "stripSeqs spaceSeqs (h @ CHR '':'' # itoa i) = ?t"
    using spaceSeqs_facts(5) by (rule stripSeqs_before)
  moreover have "cutAny (map rev spaceSeqs) (rev ?t) = None"
    using itoa_last [of i] by (intro no_trailing_space) auto
  ultimately show ?thesis by (simp only: trimSpace_def stripSeqs_id rev_rev_ident)
qed

lemma trimSpace_itoa: "trimSpace (itoa i) = itoa i"
  using itoa_hd [of i] itoa_last [of i]
  by (intro trimSpace_id) (auto simp: spaceFree_def intro!: no_leading_space no_trailing_space)

lemma trimSet_length: "length (trimSet cs s) \<le> length s"
  unfolding trimSet_def
  by (metis length_dropWhile_le length_rev order_trans)

lemma trimSet_ends:
  assumes "trimSet cs s \<noteq> []"
  shows "hd (trimSet cs s) \<notin> set cs" "last (trimSet cs s) \<notin> set cs"
proof -
  let ?P = "\<lambda>c. c \<in> set cs"
  let ?d = "dropWhile ?P s"
  have ne: "dropWhile ?P (rev ?d) \<noteq> []" using assms by (simp add: trimSet_def)
  then show "last (trimSet cs s) \<notin> set cs"
    using hd_dropWhile [of ?P "rev ?d"] by (simp add: trimSet_def last_rev)
  have "?d \<noteq> []" using ne by (cases "?d = []") simp_all
  then have "\<not> ?P (hd ?d)" by (rule hd_dropWhile)
  moreover obtain w where "rev ?d = w @ dropWhile ?P (rev ?d)"
    by (metis takeWhile_dropWhile_id)
  then have "?d = trimSet cs s @ rev w"
    unfolding trimSet_def by (metis rev_append rev_rev_ident)
  then have "hd ?d = hd (trimSet cs s)" using assms by (metis hd_append2)
  ultimately show "hd (trimSet cs s) \<notin> set cs" by simp
qed

lemma trimSet_subset: "set (trimSet cs s) \<subseteq> set s"
  by (auto simp: trimSet_def dest!: set_dropWhileD)

lemma parsePort_Inr:
  "parsePort pair isUdp addr portText fd = Inr l \<Longrightarrow>
     \<exists>port. parseInt 64 portText = Inr port \<and> ValidPort port \<and>
       l = (if isUdp then UDPListener addr port fd else TCPListener addr port fd)"
  by (auto simp: parsePort_def split: sum.splits if_splits)

lemma parsePair_spec:
  assumes "CHR ''='' \<notin> set s"
  shows "parsePair (s @ CHR ''='' # formatUint (uint fd)) =
     (if \<not> ValidInheritedFD fd then Inl (ErrFdReserved (s @ CHR ''='' # formatUint (uint fd)))
      else parseTarget (s @ CHR ''='' # formatUint (uint fd)) s fd)"
  using assms by (simp add: parsePair_def goCut_append)

text \<open>A host that survives trimming the text around it begins with no white space.\<close>

lemma trimmed_host:
  assumes "trimSet ''[]'' (stripSeqs spaceSeqs (hostText addr)) = addr" and "CHR '':'' \<notin> set addr"
  shows "cutAny spaceSeqs addr = None"
proof -
  let ?m = "stripSeqs spaceSeqs (hostText addr)"
  have eq: "hostText addr = addr" using assms(2) by (simp add: hostText_def)
  have "length addr \<le> length ?m" using trimSet_length [of "''[]''" ?m] by (simp add: assms(1))
  moreover obtain w where w: "addr = w @ stripSeqs spaceSeqs addr" using stripSeqs_suffix by blast
  then have "length addr = length w + length ?m" using eq by (metis length_append)
  ultimately have "?m = addr" using w eq by simp
  then show ?thesis using stripSeqs_done [of spaceSeqs "hostText addr"] by simp
qed

lemma parseTarget_net_wf:
  assumes res: "parseTarget pair (netSpec addr port) fd = Inr l"
    and l: "l = TCPListener addr port fd \<or> l = UDPListener addr port fd"
    and ne: "addr \<noteq> []"
  shows "wfAddr addr \<and> ValidPort port"
proof (cases "addr = wildcardIPv4")
  case True
  have "reLooksLikeHostPort (itoa port) = None"
    by (simp add: reLooksLikeHostPort_None_if_no_colon)
  with res True l have "\<exists>p. parsePort pair False wildcardIPv4 p fd = Inr l"
    by (auto simp: parseTarget_def netSpec_def trimSpace_itoa classifyPortTarget_unmarked
        unmarked_itoa NewUnixListener_def Let_def split: if_splits)
  with l True show ?thesis by (auto simp: wfAddr_def dest!: parsePort_Inr)
next
  case False
  let ?m = "stripSeqs spaceSeqs (hostText addr)"
  let ?t = "?m @ CHR '':'' # itoa port"
  have trim: "trimSpace (netSpec addr port) = ?t"
    using False by (simp add: netSpec_def joinHostPort_hostText trimSpace_host_itoa)
  have noport: "\<not> reLooksLikePort ?t" using reLooksLikePort_no_colon by fastforce
  from res l trim have sl: "CHR ''/'' \<notin> set ?t"
    by (auto simp: parseTarget_def NewUnixListener_def split: if_splits)
  with res l noport trim obtain h p where
      hp: "reLooksLikeHostPort ?t = Some (h, p)"
      and pp: "parsePort pair False (trimSet ''[]'' h) p fd = Inr l"
    by (cases "reLooksLikeHostPort ?t")
       (auto simp: parseTarget_def classifyPortTarget_unmarked unmarked_host_itoa
        NewUnixListener_def)
  from hp have h: "?t = h @ CHR '':'' # p" "h \<noteq> []" "CHR 0x0A \<notin> set h" "reLooksLikePort p"
    by (auto simp: reLooksLikeHostPort_iff)
  then have "CHR '':'' \<notin> set p" "CHR '':'' \<notin> set (itoa port)"
    by (simp_all add: reLooksLikePort_no_colon)
  with h(1) have hm: "h = ?m"
    using goCutLast_append [of "CHR '':''" p h] goCutLast_append [of "CHR '':''" "itoa port" ?m]
    by simp
  from pp l have addr: "trimSet ''[]'' ?m = addr" and valid: "ValidPort port"
    unfolding hm by (auto dest!: parsePort_Inr)
  have ends: "hd addr \<notin> {CHR ''['', CHR '']''}" "last addr \<notin> {CHR ''['', CHR '']''}"
    using trimSet_ends [of "''[]''" ?m] ne by (auto simp: addr)
  have chars: "CHR ''/'' \<notin> set addr" "CHR 0x0A \<notin> set addr"
    using trimSet_subset [of "''[]''" ?m] sl h(3) by (auto simp: addr hm)
  have "CHR '':'' \<in> set addr \<or> cutAny spaceSeqs addr = None" using trimmed_host [OF addr]
    by (cases "CHR '':'' \<in> set addr") simp_all
  with ends chars ne valid show ?thesis by (simp add: wfAddr_def)
qed

lemma canonicalUnixPath_prefixed: "canonicalUnixPath (''./'' @ path) = ''./'' @ path"
proof -
  have "stripSeqs spaceSeqs (CHR ''.'' # CHR ''/'' # path) = CHR ''.'' # CHR ''/'' # path"
    using spaceSeqs_facts(1,8) by (intro stripSeqs_id cutAny_hd) auto
  moreover have "stripSeqs (map rev spaceSeqs) (rev path @ CHR ''/'' # ''.'') =
      stripSeqs (map rev spaceSeqs) (rev path) @ CHR ''/'' # ''.''"
    using spaceSeqs_facts(6) by (intro stripSeqs_before) auto
  ultimately have "CHR ''/'' \<in> set (trimSpace (''./'' @ path))"
    by (simp add: trimSpace_def)
  then show ?thesis by (simp add: canonicalUnixPath_def)
qed

lemma canonicalUnixPath_cases:
  "canonicalUnixPath path = path \<or> canonicalUnixPath path = ''./'' @ path"
  by (auto simp: canonicalUnixPath_def Let_def split: prod.splits)

lemma canonicalUnixPath_idem: "canonicalUnixPath (canonicalUnixPath path) = canonicalUnixPath path"
  using canonicalUnixPath_cases [of path] canonicalUnixPath_prefixed [of path] by auto

lemma parseTarget_unix:
  "parseTarget pair raw fd = Inr (UnixListener path fd') \<Longrightarrow> path = canonicalUnixPath raw"
  by (auto simp: parseTarget_def NewUnixListener_def Let_def
      split: if_splits prod.splits option.splits dest!: parsePort_Inr)

lemma sameListener_cases:
  "sameListener l p \<Longrightarrow> p = l \<or>
     (\<exists>addr port fd. l = UDPListener addr port fd \<and> p = NewTCPListener addr port fd)"
  by (cases l) auto

lemma accepted_wf:
  assumes "formatCheck l = None" and "parsePair (lString l) = Inr p" and "sameListener l p"
  shows "wfListener l"
proof (cases l)
  case (TCPListener addr port fd)
  with assms(1) have "wireText addr" by (simp add: formatCheck_None)
  moreover from this have "CHR ''='' \<notin> set (netSpec addr port)"
    by (auto simp: wireText_def netSpec_def joinHostPort_def)
  ultimately show ?thesis
    using TCPListener assms(2,3) parseTarget_net_wf [of _ addr port fd p]
    by (auto simp: lString_net parsePair_spec wireText_def split: if_splits)
next
  case (UDPListener addr port fd)
  with assms(1) have "wireText addr" by (simp add: formatCheck_None)
  moreover from this have "CHR ''='' \<notin> set (netSpec addr port)"
    by (auto simp: wireText_def netSpec_def joinHostPort_def)
  ultimately show ?thesis
    using UDPListener assms(2,3) parseTarget_net_wf [of _ addr port fd p]
    by (auto simp: lString_net parsePair_spec wireText_def NewTCPListener_def split: if_splits)
next
  case (UnixListener path fd)
  with assms(1) have "wireText path" by (simp add: formatCheck_None)
  moreover from this have "CHR ''='' \<notin> set (canonicalUnixPath path)"
    using canonicalUnixPath_cases [of path] by (auto simp: wireText_def)
  ultimately show ?thesis
    using UnixListener assms(2,3)
    by (auto simp: parsePair_spec canonicalUnixPath_idem split: if_splits dest!: parseTarget_unix)
next
  case (OtherListener shown fd)
  with assms(1) show ?thesis by (simp add: formatCheck_None)
qed

lemma lString_no_sep_checked: "formatCheck l = None \<Longrightarrow> CHR '';'' \<notin> set (lString l)"
  using canonicalUnixPath_cases [of "Path l"]
  by (cases l) (auto simp: formatCheck_None lString_net netSpec_def joinHostPort_def wireText_def)

lemma FormatPorts_Inr_wf:
  assumes "FormatPorts ls = Inr spec"
  shows "\<forall>l \<in> set ls. wfListener l"
proof (cases "ls = []")
  case False
  let ?spec = "goJoin (CHR '';'') (map lString ls)"
  from assms False obtain parsed where
      chk: "checkE formatCheck ls = None" and parse: "ParsePorts ?spec = Inr parsed"
      and len: "length parsed = length ls" and same: "firstMismatch 0 ls parsed = None"
    by (auto simp: FormatPorts_def Let_def split: option.splits sum.splits if_splits)
  from chk have c: "\<forall>l \<in> set ls. formatCheck l = None" by (simp add: checkE_None_iff)
  then have "goSplit (CHR '';'') ?spec = map lString ls"
    using False by (intro goSplit_goJoin) (auto simp: lString_no_sep_checked)
  moreover have "?spec \<noteq> []"
  proof (rule goJoin_not_Nil)
    from False c have "formatCheck (hd ls) = None" by simp
    then show "hd (map lString ls) \<noteq> []"
      using False by (auto simp: hd_map formatCheck_None dest: lString_not_Nil)
  qed (use False in simp)
  ultimately have "list_all2 (\<lambda>l p. parsePair (lString l) = Inr p) ls parsed"
    using parse by (simp add: ParsePorts_def mapE_Inr_iff list.rel_map)
  moreover have "list_all2 sameListener ls parsed"
    using same len by (simp add: firstMismatch_None)
  ultimately have both: "list_all2 (\<lambda>l p. parsePair (lString l) = Inr p \<and> sameListener l p) ls parsed"
    by (simp add: list_all2_conv_all_nth)
  show ?thesis
  proof
    fix l
    assume l: "l \<in> set ls"
    with both obtain p where "parsePair (lString l) = Inr p" "sameListener l p"
      by (auto simp: list_all2_conv_all_nth in_set_conv_nth)
    with c l show "wfListener l" by (auto intro: accepted_wf)
  qed
qed simp

subsection \<open>Socket types\<close>

definition typeEntry :: "Listener \<Rightarrow> string" where
  "typeEntry l = formatUint (uint (Fd l)) @ CHR ''='' # the (socketTypeOf l)"

definition typePair :: "Listener \<Rightarrow> uintptr \<times> string" where
  "typePair l = (Fd l, the (socketTypeOf l))"

lemma socketTypeOf_text:
  "socketTypeOf l = Some ty \<Longrightarrow> ty \<noteq> [] \<and> CHR '';'' \<notin> set ty"
  by (cases l) auto

lemma uint_parse_plain [simp]:
  "parseUint 10 64 (formatUint (uint (fd :: uintptr))) = Inr (uint fd)"
  using uint_bounded [of fd] by (simp add: parseUint_formatUint)

interpretation types: sep_codec "CHR '';''" typeEntry parseTypeEntry typePair
  "\<lambda>l. socketTypeOf l \<noteq> None"
proof
  fix l :: Listener
  assume "socketTypeOf l \<noteq> None"
  then obtain ty where ty: "socketTypeOf l = Some ty" by blast
  note t = socketTypeOf_text [OF ty]
  from ty t show "CHR '';'' \<notin> set (typeEntry l)" by (simp add: typeEntry_def)
  from ty t show "parseTypeEntry (typeEntry l) = Inr (typePair l)"
    by (simp add: typeEntry_def typePair_def parseTypeEntry_def goCut_append)
qed

lemma formatTypesLoop_ok:
  assumes "distinct (map Fd ls)" and "set seen \<inter> Fd ` set ls = {}"
    and "\<forall>l \<in> set ls. socketTypeOf l \<noteq> None"
  shows "formatTypesLoop seen ls = Inr (map typeEntry ls)"
  using assms
proof (induction ls arbitrary: seen)
  case (Cons l ls)
  then have "formatTypesLoop (Fd l # seen) ls = Inr (map typeEntry ls)" by auto
  with Cons.prems show ?case by (auto simp: typeEntry_def)
qed simp

lemma readTypes_ok:
  assumes "mapE parseTypeEntry es = Inr kvs" and "distinct (map fst (types @ kvs))"
  shows "readTypes types es = Inr (types @ kvs)"
  using assms
proof (induction es arbitrary: types kvs)
  case (Cons e es)
  then obtain k v kvs' where e: "parseTypeEntry e = Inr (k, v)"
      and es: "mapE parseTypeEntry es = Inr kvs'" and kvs: "kvs = (k, v) # kvs'"
    by (auto split: sum.splits)
  from Cons.prems kvs have fresh: "k \<notin> fst ` set types" by auto
  have "readTypes (types @ [(k, v)]) es = Inr ((types @ [(k, v)]) @ kvs')"
    using Cons.prems(2) kvs by (intro Cons.IH [OF es]) simp
  with e fresh kvs show ?case by (simp add: update_fresh map_of_eq_None_iff)
qed simp

lemma typedListener_asWire:
  "wfListener l \<Longrightarrow> typedListener (asWire l) (the (socketTypeOf l)) = Inr l"
  by (cases l) (auto simp: NewUDPListener_def wireText_def)

lemma Fd_asWire [simp]: "Fd (asWire l) = Fd l"
  by (cases l) auto

lemma wf_socketType: "wfListener l \<Longrightarrow> socketTypeOf l \<noteq> None"
  by (cases l) auto

lemma delete_absent: "k \<notin> fst ` set m \<Longrightarrow> AList.delete k m = m"
  by (induction m) auto

lemma assignTypes_ok:
  assumes "distinct (map Fd ls)" and "\<forall>l \<in> set ls. wfListener l"
  shows "assignTypes (map typePair ls) (map asWire ls) = Inr (ls, [])"
  using assms
proof (induction ls)
  case (Cons l ls)
  have "AList.delete (Fd l) (map typePair (l # ls)) = map typePair ls"
    using Cons.prems(1) by (auto simp: typePair_def intro!: delete_absent)
  moreover have "map_of (map typePair (l # ls)) (Fd l) = Some (the (socketTypeOf l))"
    by (simp add: typePair_def)
  ultimately show ?case
    using Cons typedListener_asWire [of l] by simp
qed simp

lemma FormatSocketTypes_ok:
  assumes "ls \<noteq> []" "distinct (map Fd ls)" "\<forall>l \<in> set ls. wfListener l"
  shows "FormatSocketTypes ls = Inr (goJoin (CHR '';'') (map typeEntry ls))"
  using assms wf_socketType by (simp add: FormatSocketTypes_def formatTypesLoop_ok)

lemma applySocketTypes_ok:
  assumes "ls \<noteq> []" "distinct (map Fd ls)" "\<forall>l \<in> set ls. wfListener l"
  shows "applySocketTypes (map asWire ls) (goJoin (CHR '';'') (map typeEntry ls)) = Inr ls"
proof -
  have "mapE parseTypeEntry (goSplit (CHR '';'') (goJoin (CHR '';'') (map typeEntry ls))) =
      Inr (map typePair ls)"
    using assms wf_socketType by (intro types.decode_list) auto
  moreover have "distinct (map fst (map typePair ls))"
    using assms(2) by (simp add: comp_def typePair_def)
  ultimately have "readTypes [] (goSplit (CHR '';'') (goJoin (CHR '';'') (map typeEntry ls))) =
      Inr (map typePair ls)"
    using readTypes_ok [of _ "map typePair ls" "[]"] by simp
  with assms show ?thesis by (simp add: applySocketTypes_def assignTypes_ok)
qed

lemma Ports_encoded:
  assumes "ls \<noteq> []" and "distinct (map Fd ls)" and "\<forall>l \<in> set ls. wfListener l"
    and "FormatPorts ls = Inr portSpec" and "FormatSocketTypes ls = Inr socketTypes"
    and "env PortEnvName = Some portSpec" and "env SocketTypesEnvName = Some socketTypes"
  shows "Ports env = Inr ls"
proof -
  let ?p = "goJoin (CHR '';'') (map lString ls)"
  let ?t = "goJoin (CHR '';'') (map typeEntry ls)"
  have p: "portSpec = ?p" using assms(4) FormatPorts_wf [OF assms(3)] by simp
  have t: "socketTypes = ?t" using assms(5) FormatSocketTypes_ok [OF assms(1-3)] by simp
  have "?p \<noteq> []"
    using assms(1,3) by (intro goJoin_not_Nil) (cases ls; cases "hd ls"; auto simp: lString_net)+
  moreover have "?t \<noteq> []"
    using assms(1) by (intro goJoin_not_Nil) (auto simp: hd_map typeEntry_def)
  ultimately show ?thesis
    using assms(6,7) ParsePorts_encoded [OF assms(3)] applySocketTypes_ok [OF assms(1-3)]
    by (simp add: Ports_def getenv_def p t)
qed

subsection \<open>Properties\<close>

text \<open>
  C16: \<open>FormatPorts\<close> accepts exactly the lists of well-formed listeners: the built-in types
  with a non-empty address or path free of NUL, \<open>;\<close> and \<open>=\<close>, a port from 0 to 65535, a
  descriptor from 3, an address that the host grammar can carry, and a path that is canonical.
  What it returns is the listeners' text joined by \<open>;\<close>.
\<close>

theorem FormatPorts_exact:
  "FormatPorts ls = Inr spec \<longleftrightarrow>
     (\<forall>l \<in> set ls. wfListener l) \<and> spec = goJoin (CHR '';'') (map lString ls)"
  using FormatPorts_Inr_wf [of ls spec] FormatPorts_wf [of ls] by auto

theorem FormatPorts_exact_witness:
  "FormatPorts [TCPListener ''db'' 5432 3] = Inr ''db:5432=3'' \<and>
   (\<forall>spec. FormatPorts [TCPListener ''db;'' 5432 3] \<noteq> Inr spec)"
proof -
  have "goJoin (CHR '';'') (map lString [TCPListener ''db'' 5432 3]) = ''db:5432=3''" by code_simp
  moreover have "wfListener (TCPListener ''db'' 5432 3)" by code_simp
  moreover have "\<not> wfListener (TCPListener ''db;'' 5432 3)" by code_simp
  ultimately show ?thesis
    using FormatPorts_exact [of "[TCPListener ''db'' 5432 3]"]
      FormatPorts_exact [of "[TCPListener ''db;'' 5432 3]"] by auto
qed

text \<open>
  C15: the hand-over from supervisor to worker. Well-formed listeners with distinct descriptors
  are always encoded, and a worker that finds the two encoded values in its environment gets
  from \<open>Ports\<close> exactly the listeners that were encoded, UDP endpoints included.
\<close>

theorem handoff_roundtrip:
  assumes "ls \<noteq> []" and "distinct (map Fd ls)" and "\<forall>l \<in> set ls. wfListener l"
  shows "\<exists>portSpec socketTypes.
      FormatPorts ls = Inr portSpec \<and> FormatSocketTypes ls = Inr socketTypes \<and>
      (\<forall>env. env PortEnvName = Some portSpec \<longrightarrow> env SocketTypesEnvName = Some socketTypes \<longrightarrow>
         Ports env = Inr ls)"
proof -
  have "FormatPorts ls = Inr (goJoin (CHR '';'') (map lString ls))"
    using assms(3) by (rule FormatPorts_wf)
  moreover have "FormatSocketTypes ls = Inr (goJoin (CHR '';'') (map typeEntry ls))"
    using assms by (rule FormatSocketTypes_ok)
  ultimately show ?thesis using Ports_encoded [OF assms] by blast
qed

theorem handoff_roundtrip_witness:
  "\<exists>portSpec socketTypes.
     FormatPorts [TCPListener ''0.0.0.0'' 8080 3, UDPListener ''::1'' 53 5, UnixListener ''./8080'' 4]
       = Inr portSpec \<and>
     Ports [PortEnvName \<mapsto> portSpec, SocketTypesEnvName \<mapsto> socketTypes] =
       Inr [TCPListener ''0.0.0.0'' 8080 3, UDPListener ''::1'' 53 5, UnixListener ''./8080'' 4]"
proof -
  let ?ls = "[TCPListener ''0.0.0.0'' 8080 3, UDPListener ''::1'' 53 5, UnixListener ''./8080'' 4]"
  have "canonicalUnixPath ''./8080'' = ''./8080''"
    using canonicalUnixPath_prefixed [of "''8080''"] by simp
  then have wf: "\<forall>l \<in> set ?ls. wfListener l"
    by (simp add: wireText_def wfAddr_def wildcardIPv4_def ValidPort_def ValidInheritedFD_def)
  have "?ls \<noteq> []" and "distinct (map Fd ?ls)" by simp_all
  from handoff_roundtrip [OF this wf] obtain p ty where "FormatPorts ?ls = Inr p"
      and "\<forall>env. env PortEnvName = Some p \<longrightarrow> env SocketTypesEnvName = Some ty \<longrightarrow> Ports env = Inr ?ls"
    by blast
  then have "FormatPorts ?ls = Inr p \<and> Ports [PortEnvName \<mapsto> p, SocketTypesEnvName \<mapsto> ty] = Inr ?ls"
    by simp
  then show ?thesis by blast
qed

fun validParsed :: "Listener \<Rightarrow> bool" where
  "validParsed (TCPListener addr port fd) \<longleftrightarrow>
     ValidPort port \<and> fd \<ge> 3 \<and> CHR '';'' \<notin> set addr \<and> CHR ''='' \<notin> set addr"
| "validParsed (UDPListener addr port fd) \<longleftrightarrow>
     ValidPort port \<and> fd \<ge> 3 \<and> CHR '';'' \<notin> set addr \<and> CHR ''='' \<notin> set addr"
| "validParsed (UnixListener path fd) \<longleftrightarrow>
     fd \<ge> 3 \<and> CHR '';'' \<notin> set path \<and> CHR ''='' \<notin> set path"
| "validParsed (OtherListener shown fd) \<longleftrightarrow> False"

lemma classifyPortTarget_subset:
  assumes "classifyPortTarget s = (isUdp, tgt, m)"
  shows "set tgt \<subseteq> set s"
proof -
  have trail: "set (fst (stripTrailingUDPMarker s)) \<subseteq> set s"
    by (auto simp: stripTrailingUDPMarker_def trimPrefix_def hasPrefix_def goCutLast_Some
        cutPrefix_Some split: option.splits)
  have lead: "set (fst (stripLeadingUDPMarker s)) \<subseteq> set s"
    by (auto simp: stripLeadingUDPMarker_def cutPrefix_Some split: option.splits)
  have "set (target c) \<subseteq> set s" if "c \<in> set (classifyUDPMarker s)" for c
    using that trail lead by (auto simp: classifyUDPMarker_def case_prod_beta split: if_splits)
  then show ?thesis
    using assms
    by (auto simp: classifyPortTarget_def find_Some_iff split: option.splits if_splits)
       (metis nth_mem subsetD)+
qed

lemma parseTarget_valid:
  assumes res: "parseTarget pair raw fd = Inr l" and fd: "ValidInheritedFD fd"
    and raw: "CHR '';'' \<notin> set raw" "CHR ''='' \<notin> set raw"
  shows "validParsed l"
proof -
  obtain isUdp tgt m where c: "classifyPortTarget (trimSpace raw) = (isUdp, tgt, m)"
    by (metis prod_cases3)
  have sub: "set tgt \<subseteq> set raw"
    using classifyPortTarget_subset [OF c] set_trimSpace [of raw] by simp
  consider (unix) "l = NewUnixListener raw fd"
    | (net) addr p where "parsePort pair isUdp addr p fd = Inr l" "set addr \<subseteq> set raw \<or> addr = wildcardIPv4"
  proof (cases "CHR ''/'' \<in> set (trimSpace raw)")
    case True
    with res show ?thesis by (intro unix) (simp add: parseTarget_def)
  next
    case False
    show ?thesis
    proof (cases "reLooksLikeHostPort tgt")
      case None
      with False c res show ?thesis
        by (cases "reLooksLikePort tgt") (auto simp: parseTarget_def intro: unix net)
    next
      case (Some hp)
      then obtain h p where hp: "reLooksLikeHostPort tgt = Some (h, p)" by (cases hp) auto
      then have "set (trimSet ''[]'' h) \<subseteq> set raw"
        using trimSet_subset [of "''[]''" h] sub by (auto simp: reLooksLikeHostPort_iff)
      with False c res hp show ?thesis by (intro net) (auto simp: parseTarget_def)
    qed
  qed
  then show ?thesis
  proof cases
    case unix
    then show ?thesis
      using canonicalUnixPath_cases [of raw] fd raw
      by (auto simp: NewUnixListener_def ValidInheritedFD_def)
  next
    case net
    then show ?thesis
      using fd raw wildcard_facts(1)
      by (auto simp: ValidInheritedFD_def wireText_def dest!: parsePort_Inr)
  qed
qed

lemma parsePair_valid:
  assumes "parsePair s = Inr l" and "CHR '';'' \<notin> set s"
  shows "validParsed l"
proof -
  from assms(1) obtain raw rawFd n where cut: "goCut (CHR ''='') s = Some (raw, rawFd)"
      and fd: "ValidInheritedFD (of_int n)" and l: "parseTarget s raw (of_int n) = Inr l"
    by (auto simp: parsePair_def Let_def split: option.splits sum.splits if_splits)
  from cut assms(2) have "CHR '';'' \<notin> set raw" "CHR ''='' \<notin> set raw"
    by (auto simp: goCut_Some)
  with l fd show ?thesis by (rule parseTarget_valid)
qed

lemma ParsePorts_validParsed:
  assumes "ParsePorts spec = Inr ls"
  shows "(\<forall>l \<in> set ls. validParsed l) \<and>
     length ls = (if spec = [] then 0 else Suc (count_list spec (CHR '';'')))"
proof (cases "spec = []")
  case True
  with assms show ?thesis by (simp add: ParsePorts_def)
next
  case False
  with assms have m: "mapE parsePair (goSplit (CHR '';'') spec) = Inr ls"
    by (simp add: ParsePorts_def)
  have "validParsed l" if "l \<in> set ls" for l
  proof -
    from m have "list_all2 (\<lambda>s l. parsePair s = Inr l) (goSplit (CHR '';'') spec) ls"
      by (simp add: mapE_Inr_iff)
    with that obtain s where "s \<in> set (goSplit (CHR '';'') spec)" "parsePair s = Inr l"
      by (blast dest: list_all2_preimage)
    then show ?thesis using goSplit_parts_no_sep by (blast intro: parsePair_valid)
  qed
  with False mapE_Inr_length [OF m] show ?thesis by (simp add: goSplit_length)
qed

text \<open>
  C31: whatever text \<open>ParsePorts\<close> accepts, it returns one listener per \<open>;\<close>-separated entry, in
  order, each of a built-in type, with an inherited descriptor from 3, a port from 0 to 65535,
  and an address or path free of the two delimiters.
\<close>

theorem ParsePorts_valid:
  assumes "ParsePorts spec = Inr ls"
  shows "(\<forall>l \<in> set ls. validParsed l) \<and>
     length ls = (if spec = [] then 0 else Suc (count_list spec (CHR '';'')))"
  using assms by (rule ParsePorts_validParsed)

theorem ParsePorts_valid_witness:
  "ParsePorts ''u53=4'' = Inr [UDPListener ''0.0.0.0'' 53 4] \<and> validParsed (UDPListener ''0.0.0.0'' 53 4)"
proof -
  have h: "ParsePorts ''u53=4'' = Inr [UDPListener ''0.0.0.0'' 53 4]" by code_simp
  with ParsePorts_valid [OF h] show ?thesis by simp
qed

definition retyped :: "Listener \<Rightarrow> Listener \<Rightarrow> bool" where
  "retyped l r \<longleftrightarrow> r = l \<or> (\<exists>a p f. l = TCPListener a p f \<and> r = NewUDPListener a p f)"

lemma typedListener_retyped: "typedListener l ty = Inr r \<Longrightarrow> retyped l r \<and> socketTypeOf r = Some ty"
  by (cases l) (auto simp: retyped_def NewUDPListener_def split: if_splits)

lemma assignTypes_sound:
  assumes "assignTypes types ls = Inr (rs, left)" and "distinct_keys types"
  shows "list_all2 retyped ls rs \<and> distinct (map Fd ls) \<and> fst ` set left = fst ` set types - Fd ` set ls \<and>
     Fd ` set ls \<subseteq> fst ` set types \<and> (\<forall>r \<in> set rs. map_of types (Fd r) = socketTypeOf r)"
  using assms
proof (induction ls arbitrary: types rs)
  case (Cons l ls)
  then obtain ty r rs' where ty: "map_of types (Fd l) = Some ty" and r: "typedListener l ty = Inr r"
      and rec: "assignTypes (AList.delete (Fd l) types) ls = Inr (rs', left)" and rs: "rs = r # rs'"
    by (auto split: option.splits sum.splits prod.splits)
  have fdr: "Fd r = Fd l" using typedListener_retyped [OF r] by (auto simp: retyped_def NewUDPListener_def)
  have IH: "list_all2 retyped ls rs'" "distinct (map Fd ls)"
      "fst ` set left = fst ` set types - {Fd l} - Fd ` set ls"
      "Fd ` set ls \<subseteq> fst ` set types - {Fd l}"
      "\<And>r. r \<in> set rs' \<Longrightarrow> map_of (AList.delete (Fd l) types) (Fd r) = socketTypeOf r"
    using Cons.IH [OF rec] Cons.prems(2) by (simp_all add: keys_delete)
  have "map_of types (Fd r') = socketTypeOf r'" if "r' \<in> set rs'" for r'
  proof -
    from that IH(1) obtain l' where "l' \<in> set ls" "retyped l' r'"
      by (blast dest: list_all2_preimage)
    then have "Fd r' \<in> Fd ` set ls" by (force simp: retyped_def NewUDPListener_def)
    with IH(4) have "Fd r' \<noteq> Fd l" by blast
    with IH(5) [OF that] show ?thesis by (simp add: delete_conv)
  qed
  moreover have "Fd l \<in> fst ` set types" using ty by (force dest: map_of_SomeD)
  moreover have "fst ` set left = fst ` set types - Fd ` set (l # ls)"
    using IH(3) by (simp add: Diff_insert2 [symmetric] insert_commute)
  moreover have "distinct (map Fd (l # ls))" using IH(2,4) by auto
  ultimately show ?case
    using IH(1,4) typedListener_retyped [OF r] ty rs fdr by auto
qed simp

lemma readTypes_distinct: "readTypes types es = Inr kvs \<Longrightarrow> distinct_keys types \<Longrightarrow> distinct_keys kvs"
  by (induction types es rule: readTypes.induct) (auto split: sum.splits prod.splits if_splits)

text \<open>
  \<open>applySocketTypes\<close> never loses, adds or reorders an endpoint. When it accepts, every
  listener is kept or a TCP reading is turned into the UDP endpoint on the same address, port
  and descriptor, the descriptors are distinct, and each listener got the type listed for it.
\<close>

theorem applySocketTypes_sound:
  assumes "applySocketTypes ls spec = Inr rs"
  shows "list_all2 retyped ls rs \<and> distinct (map Fd ls) \<and>
     (\<exists>types. readTypes [] (goSplit (CHR '';'') spec) = Inr types \<and> fst ` set types = Fd ` set ls \<and>
        (\<forall>r \<in> set rs. map_of types (Fd r) = socketTypeOf r))"
proof -
  from assms obtain types where r: "readTypes [] (goSplit (CHR '';'') spec) = Inr types"
      and a: "assignTypes types ls = Inr (rs, [])"
    by (auto simp: applySocketTypes_def split: sum.splits prod.splits if_splits)
  have "distinct_keys types" using r by (rule readTypes_distinct) simp
  from assignTypes_sound [OF a this] r show ?thesis by auto
qed

theorem applySocketTypes_sound_witness:
  "applySocketTypes [TCPListener ''db'' 53 4] ''4=udp'' = Inr [UDPListener ''db'' 53 4] \<and>
   retyped (TCPListener ''db'' 53 4) (UDPListener ''db'' 53 4)"
proof -
  have h: "applySocketTypes [TCPListener ''db'' 53 4] ''4=udp'' = Inr [UDPListener ''db'' 53 4]"
    by code_simp
  with applySocketTypes_sound [OF h] show ?thesis by simp
qed

end
