(* ===== verification/Signals.thy ===== *)
theory Signals
  imports PortCodec
begin

text \<open>
  Signal names (\<open>internal/supervisor/signals.go\<close>, \<open>signals_unix.go\<close>, \<open>signals_windows.go\<close>): the
  table of names, the name of a signal, and the signal of a name as the command line gives it.
\<close>

datatype Signal =
    SIGABRT | SIGALRM | SIGBUS | SIGFPE | SIGHUP | SIGILL | SIGINT | SIGKILL | SIGPIPE | SIGQUIT
  | SIGSEGV | SIGTERM | SIGTRAP | SIGCHLD | SIGCONT | SIGIO | SIGPROF | SIGSTOP | SIGSYS | SIGTSTP
  | SIGTTIN | SIGTTOU | SIGURG | SIGUSR1 | SIGUSR2 | SIGVTALRM | SIGWINCH | SIGXCPU | SIGXFSZ
  | OtherSignal int

definition makeNiceSigNamesCommon :: "(Signal \<times> string) list" where
  "makeNiceSigNamesCommon =
    [(SIGABRT, ''ABRT''), (SIGALRM, ''ALRM''), (SIGBUS, ''BUS''), (SIGFPE, ''FPE''), (SIGHUP, ''HUP''),
     (SIGILL, ''ILL''), (SIGINT, ''INT''), (SIGKILL, ''KILL''), (SIGPIPE, ''PIPE''), (SIGQUIT, ''QUIT''),
     (SIGSEGV, ''SEGV''), (SIGTERM, ''TERM''), (SIGTRAP, ''TRAP'')]"

text \<open>The flag tells the Windows build, whose table has no further names.\<close>

definition addPlatformDependentNiceSigNames_windows :: "(Signal \<times> string) list \<Rightarrow> (Signal \<times> string) list" where
  [simp]: "addPlatformDependentNiceSigNames_windows v = v"

definition addPlatformDependentNiceSigNames :: "bool \<Rightarrow> (Signal \<times> string) list \<Rightarrow> (Signal \<times> string) list" where
  "addPlatformDependentNiceSigNames windows v =
    (if windows then addPlatformDependentNiceSigNames_windows v
     else v @
      [(SIGCHLD, ''CHLD''), (SIGCONT, ''CONT''), (SIGIO, ''IO''), (SIGPROF, ''PROF''), (SIGSTOP, ''STOP''),
       (SIGSYS, ''SYS''), (SIGTSTP, ''TSTP''), (SIGTTIN, ''TTIN''), (SIGTTOU, ''TTOU''), (SIGURG, ''URG''),
       (SIGUSR1, ''USR1''), (SIGUSR2, ''USR2''), (SIGVTALRM, ''VTALRM''), (SIGWINCH, ''WINCH''),
       (SIGXCPU, ''XCPU''), (SIGXFSZ, ''XFSZ'')])"

definition niceSigNames :: "bool \<Rightarrow> (Signal \<times> string) list" where
  "niceSigNames windows = addPlatformDependentNiceSigNames windows makeNiceSigNamesCommon"

definition niceNameToSigs :: "bool \<Rightarrow> (string \<times> Signal) list" where
  "niceNameToSigs windows =
     (let m = map (\<lambda>(sig, name). (name, sig)) (niceSigNames windows)
      in case map_of m ''XFSZ'' of Some sig \<Rightarrow> AList.update ''GXFSZ'' sig m | None \<Rightarrow> m)"

text \<open>\<open>None\<close> is a signal value that is not a \<open>syscall.Signal\<close>, such as nil.\<close>

definition signame :: "bool \<Rightarrow> Signal option \<Rightarrow> string" where
  "signame windows s =
     (case s of
        Some ss \<Rightarrow> (case map_of (niceSigNames windows) ss of Some n \<Rightarrow> n | None \<Rightarrow> [])
      | None \<Rightarrow> ''UNKNOWN'')"

text \<open>
  \<open>strings.ToUpper\<close> as far as a table of ASCII names can tell: two code points outside ASCII
  have an ASCII upper case (U+0131 gives I, U+017F gives S); every other byte above 127 stays
  outside ASCII and is kept.
\<close>

definition upperChar :: "char \<Rightarrow> char" where
  "upperChar c = (if 97 \<le> (of_char c :: int) \<and> (of_char c :: int) \<le> 122 then char_of (of_char c - 32 :: int) else c)"

fun toUpper :: "string \<Rightarrow> string" where
  "toUpper [] = []"
| "toUpper (c # cs) =
     (case cutPrefix (c # cs) [CHR 0xC4, CHR 0xB1] of
        Some r \<Rightarrow> CHR ''I'' # toUpper (drop 1 cs)
      | None \<Rightarrow>
          (case cutPrefix (c # cs) [CHR 0xC5, CHR 0xBF] of
             Some r \<Rightarrow> CHR ''S'' # toUpper (drop 1 cs)
           | None \<Rightarrow> upperChar c # toUpper cs))"

datatype signal_error = ErrSignalName string

definition SigFromName :: "bool \<Rightarrow> string \<Rightarrow> signal_error + Signal" where
  "SigFromName windows n =
     (if n = [] then Inr SIGTERM
      else (case map_of (niceNameToSigs windows) (trimPrefix (toUpper n) ''SIG'') of
              Some sig \<Rightarrow> Inr sig
            | None \<Rightarrow> Inl (ErrSignalName n)))"

subsection \<open>Names and signals\<close>

definition lowerChar :: "char \<Rightarrow> char" where
  "lowerChar c = (if 65 \<le> (of_char c :: int) \<and> (of_char c :: int) \<le> 90 then char_of (of_char c + 32 :: int) else c)"

lemma names_recognised:
  "list_all (\<lambda>(s, n). SigFromName w n = Inr s \<and> SigFromName w (''SIG'' @ n) = Inr s \<and>
      SigFromName w (map lowerChar (''SIG'' @ n)) = Inr s) (niceSigNames w)"
  by (cases w) (simp only:, code_simp)+

lemma niceNameToSigs_values:
  "list_all (\<lambda>(n, s). map_of (niceSigNames w) s \<noteq> None) (niceNameToSigs w)"
  by (cases w) (simp only:, code_simp)+

text \<open>
  Signal names. Every name of the table denotes its signal, with or without the prefix
  \<open>SIG\<close> and in either case; the empty name denotes SIGTERM; and every name that is accepted
  denotes a signal of the table, whose canonical name is accepted for the same signal.
\<close>

theorem SigFromName_correct:
  "SigFromName w [] = Inr SIGTERM \<and>
   list_all (\<lambda>(s, n). SigFromName w n = Inr s \<and> SigFromName w (''SIG'' @ n) = Inr s \<and>
      SigFromName w (map lowerChar (''SIG'' @ n)) = Inr s \<and> signame w (Some s) = n) (niceSigNames w) \<and>
   (SigFromName w n = Inr s \<longrightarrow> SigFromName w (signame w (Some s)) = Inr s)"
proof (intro conjI impI)
  show "SigFromName w [] = Inr SIGTERM" by (simp add: SigFromName_def)
  have d: "distinct (map fst (niceSigNames w))" by (cases w) (simp only:, code_simp)+
  show "list_all (\<lambda>(s, n). SigFromName w n = Inr s \<and> SigFromName w (''SIG'' @ n) = Inr s \<and>
      SigFromName w (map lowerChar (''SIG'' @ n)) = Inr s \<and> signame w (Some s) = n) (niceSigNames w)"
    using names_recognised [of w] d
    by (auto simp: list_all_iff signame_def split: option.splits dest: map_of_SomeD)
  assume r: "SigFromName w n = Inr s"
  show "SigFromName w (signame w (Some s)) = Inr s"
  proof (cases "n = []")
    case True
    with r have "s = SIGTERM" by (simp add: SigFromName_def)
    then show ?thesis by (cases w) (simp only:, code_simp)+
  next
    case False
    with r obtain k where "map_of (niceNameToSigs w) k = Some s"
      by (auto simp: SigFromName_def split: option.splits)
    then have "(k, s) \<in> set (niceNameToSigs w)" by (rule map_of_SomeD)
    with niceNameToSigs_values [of w] obtain name where "map_of (niceSigNames w) s = Some name"
      by (auto simp: list_all_iff)
    then show ?thesis
      using names_recognised [of w] by (auto simp: list_all_iff signame_def dest!: map_of_SomeD)
  qed
qed

theorem SigFromName_correct_witness:
  "SigFromName False ''sigusr1'' = Inr SIGUSR1 \<and> signame False (Some SIGUSR1) = ''USR1'' \<and>
   SigFromName False ''USR1'' = Inr SIGUSR1"
proof -
  have h: "SigFromName False ''sigusr1'' = Inr SIGUSR1" and n: "signame False (Some SIGUSR1) = ''USR1''"
    by code_simp+
  from SigFromName_correct [of False "''sigusr1''" SIGUSR1] h n show ?thesis by simp
qed

end
