(* ===== verification/PortSpec.thy ===== *)
theory PortSpec
  imports PortCodec
begin

text \<open>
  The supervisor's side of the ports (\<open>internal/supervisor/portspec.go\<close> and
  \<open>socket_path.go\<close>): parsing a \<open>--port\<close> target with its optional descriptor, assigning the
  descriptor numbers a worker inherits, checking the wire format before anything is bound, and
  the fail-closed check of a Unix socket path.
\<close>

subsection \<open>Listeners and targets\<close>

text \<open>
  The supervisor's \<open>listener\<close>: the bound stream or packet socket (a handle) and the bind target.
\<close>

record listener =
  l_listener :: "nat option"
  l_packet :: "nat option"
  l_network :: string
  l_host :: string
  l_port :: int
  l_path :: string

record portTarget =
  t_host :: string
  t_port :: int
  t_network :: string
  t_spec :: string
  t_fd :: int

definition unixNetwork :: string where
  "unixNetwork = ''unix''"

definition udp4Network :: string where
  "udp4Network = ''udp4''"

definition maxInheritedListenerFD :: int where
  "maxInheritedListenerFD = 1024"

definition maxSparseListenerFDSlots :: int where
  "maxSparseListenerFDSlots = 256"

definition starterListener :: "listener \<Rightarrow> int \<Rightarrow> Listener" where
  "starterListener l fd =
     (if l_network l = unixNetwork then NewUnixListener (l_path l) (of_int fd)
      else if hasPrefix (l_network l) ''udp'' then NewUDPListener (l_host l) (l_port l) (of_int fd)
      else NewTCPListener (l_host l) (l_port l) (of_int fd))"

subsection \<open>Descriptor numbers\<close>

datatype fd_error = FdConflictsStd int | FdExceedsMax int

definition validateExplicitListenerFD :: "int \<Rightarrow> fd_error option" where
  "validateExplicitListenerFD fd =
     (if fd < 0 \<or> \<not> ValidInheritedFD (of_int fd) then Some (FdConflictsStd fd)
      else if fd > maxInheritedListenerFD then Some (FdExceedsMax fd)
      else None)"

datatype assign_error =
    ErrExplicitFd fd_error
  | ErrFdTwice int
  | ErrSparse int

text \<open>
  The first loop of \<open>assignListenerDescriptors\<close>: explicit requests are entered, automatic ones
  (-1) leave 0 in their slot. The result holds the descriptors, the used numbers and \<open>maxFD\<close>.
\<close>

fun assignExplicit :: "int list \<Rightarrow> int \<Rightarrow> int list \<Rightarrow> assign_error + (int list \<times> int list \<times> int)" where
  "assignExplicit used maxFD [] = Inr ([], used, maxFD)"
| "assignExplicit used maxFD (fd # rest) =
     (if fd = -1 then
        (case assignExplicit used maxFD rest of
           Inl e \<Rightarrow> Inl e
         | Inr (ds, u, m) \<Rightarrow> Inr (0 # ds, u, m))
      else
        (case validateExplicitListenerFD fd of
           Some e \<Rightarrow> Inl (ErrExplicitFd e)
         | None \<Rightarrow>
             if fd \<in> set used then Inl (ErrFdTwice fd)
             else (case assignExplicit (fd # used) (if fd > maxFD then fd else maxFD) rest of
                     Inl e \<Rightarrow> Inl e
                   | Inr (ds, u, m) \<Rightarrow> Inr (fd # ds, u, m))))"

text \<open>The inner loop: the first number from \<open>nextFD\<close> upwards that is not used.\<close>

function nextFree :: "int list \<Rightarrow> int \<Rightarrow> int" where
  "nextFree used nextFD = (if nextFD \<in> set used then nextFree used (nextFD + 1) else nextFD)"
  by pat_completeness auto
termination
proof (relation "measure (\<lambda>(used, n). card {x \<in> set used. n \<le> x})")
  fix used :: "int list" and n :: int
  assume "n \<in> set used"
  then have "n \<in> {x \<in> set used. n \<le> x}" and "n \<notin> {x \<in> set used. n + 1 \<le> x}" by simp_all
  moreover have "{x \<in> set used. n + 1 \<le> x} \<subseteq> {x \<in> set used. n \<le> x}" by auto
  ultimately have "{x \<in> set used. n + 1 \<le> x} \<subset> {x \<in> set used. n \<le> x}" by blast
  then have "card {x \<in> set used. n + 1 \<le> x} < card {x \<in> set used. n \<le> x}"
    by (rule psubset_card_mono [rotated]) simp
  then show "((used, n + 1), used, n) \<in> measure (\<lambda>(used, n). card {x \<in> set used. n \<le> x})"
    by simp
qed simp

declare nextFree.simps [simp del]

text \<open>The second loop: every slot still 0 takes the next free number.\<close>

fun assignAutomatic :: "int list \<Rightarrow> int \<Rightarrow> int list \<Rightarrow> int list" where
  "assignAutomatic used nextFD [] = []"
| "assignAutomatic used nextFD (d # ds) =
     (if d \<noteq> 0 then d # assignAutomatic used nextFD ds
      else let n = nextFree used nextFD
           in n # assignAutomatic (n # used) (n + 1) ds)"

definition assignListenerDescriptors :: "int list \<Rightarrow> assign_error + int list" where
  "assignListenerDescriptors requested =
     (case assignExplicit [] 2 requested of
        Inl e \<Rightarrow> Inl e
      | Inr (descriptors, used, maxFD) \<Rightarrow>
          let padding = maxFD - 2 - int (length requested) in
          if padding > maxSparseListenerFDSlots then Inl (ErrSparse padding)
          else Inr (assignAutomatic used 3 descriptors))"

subsection \<open>Parsing a target\<close>

datatype delim_error =
    DelimAddr string addr_error
  | DelimPort string num_error
  | DelimPortRange string
  | DelimFormat format_error

definition delimHostPort :: "string \<Rightarrow> delim_error + (string \<times> string)" where
  "delimHostPort tgt =
     (if hasPrefix tgt ''['' then
        (case splitHostPort tgt of
           Inl e \<Rightarrow> Inl (DelimAddr tgt e)
         | Inr hp \<Rightarrow> Inr hp)
      else (case goCutLast (CHR '':'') tgt of
              Some hp \<Rightarrow> Inr hp
            | None \<Rightarrow> Inr ([], tgt)))"

definition validatePortTargetDelimiter :: "string \<Rightarrow> delim_error option" where
  "validatePortTargetDelimiter tgt =
     (if CHR '';'' \<notin> set tgt then None
      else case delimHostPort tgt of
             Inl e \<Rightarrow> Some e
           | Inr (host, portText0) \<Rightarrow>
               let isUdp = hasPrefix portText0 ''u''; portText = trimPrefix portText0 ''u'' in
               (case atoi portText of
                  Inl e \<Rightarrow> Some (DelimPort tgt e)
                | Inr port \<Rightarrow>
                    if \<not> ValidPort port then Some (DelimPortRange tgt)
                    else (case FormatPorts [if isUdp then NewUDPListener host port 0
                                            else NewTCPListener host port 0] of
                            Inl e \<Rightarrow> Some (DelimFormat e)
                          | Inr _ \<Rightarrow> None)))"

datatype spec_error =
    ErrSpecFd string
  | ErrSpecFdRange string fd_error
  | ErrSpecDelimiter delim_error
  | ErrSpecPort string

text \<open>The optional \<open>=fd\<close> suffix: the descriptor (or -1) and the remaining target.\<close>

definition splitTargetFD :: "string \<Rightarrow> spec_error + (int \<times> string)" where
  "splitTargetFD raw =
     (let tgt = trimSpace raw in
      case goCutLast (CHR ''='') tgt of
        None \<Rightarrow> Inr (-1, tgt)
      | Some (front, after) \<Rightarrow>
          (case atoi (trimSpace after) of
             Inl e \<Rightarrow> Inl (ErrSpecFd raw)
           | Inr value \<Rightarrow>
               if value < 0 then Inl (ErrSpecFd raw)
               else (case validateExplicitListenerFD value of
                       Some e \<Rightarrow> Inl (ErrSpecFdRange raw e)
                     | None \<Rightarrow> Inr (value, trimSpace front))))"

text \<open>The bind target of the one listener parsed back from the text.\<close>

definition portTargetOf :: "string \<Rightarrow> int \<Rightarrow> Listener \<Rightarrow> string \<Rightarrow> int \<Rightarrow> string \<Rightarrow> spec_error + portTarget" where
  "portTargetOf raw fd l host0 port network0 =
     (if \<not> ValidPort port then Inl (ErrSpecPort raw)
      else
        let host = (if host0 = ''0.0.0.0'' then [] else host0);
            network = (if CHR '':'' \<in> set host
                       then (if hasPrefix network0 ''udp'' then ''udp6'' else ''tcp6'')
                       else network0)
        in Inr \<lparr>t_host = host, t_port = port, t_network = network,
                t_spec = trimSuffix (lString l) ''=3'', t_fd = fd\<rparr>)"

definition parsePortTarget :: "string \<Rightarrow> spec_error + portTarget" where
  "parsePortTarget raw =
     (case splitTargetFD raw of
        Inl e \<Rightarrow> Inl e
      | Inr (fd, tgt) \<Rightarrow>
          (case validatePortTargetDelimiter tgt of
             Some e \<Rightarrow> Inl (ErrSpecDelimiter e)
           | None \<Rightarrow>
               (case ParsePorts (tgt @ ''=3'') of
                  Inr [TCPListener addr port f] \<Rightarrow>
                    portTargetOf raw fd (TCPListener addr port f) addr port ''tcp4''
                | Inr [UDPListener addr port f] \<Rightarrow>
                    portTargetOf raw fd (UDPListener addr port f) addr port udp4Network
                | _ \<Rightarrow> Inl (ErrSpecPort raw))))"

subsection \<open>Wire format of the whole configuration\<close>

definition targetListener :: "portTarget \<Rightarrow> listener" where
  "targetListener t = \<lparr>l_listener = None, l_packet = None, l_network = t_network t,
     l_host = t_host t, l_port = t_port t, l_path = []\<rparr>"

definition pathListener :: "string \<Rightarrow> listener" where
  "pathListener path = \<lparr>l_listener = None, l_packet = None, l_network = unixNetwork,
     l_host = [], l_port = 0, l_path = path\<rparr>"

definition wireListeners :: "portTarget list \<Rightarrow> string list \<Rightarrow> int list \<Rightarrow> Listener list" where
  "wireListeners targets paths descriptors =
     map (\<lambda>(t, d). starterListener (targetListener t) d) (zip targets descriptors)
     @ map (\<lambda>(p, d). starterListener (pathListener p) d)
         (filter (\<lambda>(p, d). p \<noteq> []) (zip paths (drop (length targets) descriptors)))"

definition validateListenerWireFormat ::
  "portTarget list \<Rightarrow> string list \<Rightarrow> int list \<Rightarrow> format_error option" where
  "validateListenerWireFormat targets paths descriptors =
     (let listeners = wireListeners targets paths descriptors in
      if listeners = [] then None
      else (case FormatPorts listeners of Inl e \<Rightarrow> Some e | Inr _ \<Rightarrow> None))"

subsection \<open>Unix socket paths\<close>

definition canonicalUnixSocketPath :: "bool \<Rightarrow> string \<Rightarrow> string" where
  "canonicalUnixSocketPath linux path =
     (if linux \<and> hasPrefix path [CHR 0x00] then ''@'' @ trimPrefix path [CHR 0x00] else path)"

datatype lstat_result = LstatExists | LstatNotExist | LstatError string

datatype path_error = ErrInspectPath string string | ErrPathExists string

definition validateUnixSocketPathAvailable ::
  "bool \<Rightarrow> (string \<Rightarrow> lstat_result) \<Rightarrow> string \<Rightarrow> path_error option" where
  "validateUnixSocketPathAvailable linux lstat path =
     (if path = [] \<or> linux \<and> (hasPrefix path ''@'' \<or> hasPrefix path [CHR 0x00]) then None
      else (case lstat path of
              LstatNotExist \<Rightarrow> None
            | LstatError e \<Rightarrow> Some (ErrInspectPath path e)
            | LstatExists \<Rightarrow> Some (ErrPathExists path)))"

subsection \<open>Assignment of descriptors\<close>

lemma validateExplicit_None: "validateExplicitListenerFD fd = None \<longleftrightarrow> 3 \<le> fd \<and> fd \<le> 1024"
proof (cases "0 \<le> fd \<and> fd \<le> 1024")
  case True
  then have "uint (of_int fd :: uintptr) = fd" by (simp add: uint_word_of_int)
  then have "ValidInheritedFD (of_int fd) \<longleftrightarrow> 3 \<le> fd"
    by (simp add: ValidInheritedFD_def word_le_def)
  with True show ?thesis by (simp add: validateExplicitListenerFD_def maxInheritedListenerFD_def)
qed (auto simp: validateExplicitListenerFD_def maxInheritedListenerFD_def)

abbreviation explicits :: "int list \<Rightarrow> int list" where
  "explicits requested \<equiv> filter (\<lambda>fd. fd \<noteq> -1) requested"

lemma assignExplicit_Inr:
  "assignExplicit used maxFD req = Inr (ds, u, m) \<longleftrightarrow>
     (\<forall>fd \<in> set (explicits req). 3 \<le> fd \<and> fd \<le> 1024) \<and> distinct (explicits req) \<and>
     set (explicits req) \<inter> set used = {} \<and> ds = map (\<lambda>fd. if fd = -1 then 0 else fd) req \<and>
     u = rev (explicits req) @ used \<and> m = fold max (explicits req) maxFD"
proof (induction req arbitrary: used maxFD ds)
  case (Cons fd req)
  show ?case
  proof (cases "fd = -1")
    case True
    then have "assignExplicit used maxFD (fd # req) = Inr (ds, u, m) \<longleftrightarrow>
        (\<exists>ds'. assignExplicit used maxFD req = Inr (ds', u, m) \<and> ds = 0 # ds')"
      by (auto split: sum.splits)
    with True show ?thesis by (auto simp: Cons.IH)
  next
    case False
    have mx: "(if fd > maxFD then fd else maxFD) = max fd maxFD" by simp
    show ?thesis
    proof (cases "validateExplicitListenerFD fd = None \<and> fd \<notin> set used")
      case True
      have "assignExplicit used maxFD (fd # req) = Inr (ds, u, m) \<longleftrightarrow>
          (\<exists>ds'. assignExplicit (fd # used) (max fd maxFD) req = Inr (ds', u, m) \<and> ds = fd # ds')"
        using True False unfolding assignExplicit.simps mx
        by (auto split: sum.splits)
      with True False show ?thesis by (auto simp: Cons.IH validateExplicit_None)
    next
      case no: False
      then show ?thesis
        using False by (auto simp: validateExplicit_None split: option.splits)
    qed
  qed
qed auto

lemma nextFree_ge: "n \<le> nextFree used n"
proof (induction used n rule: nextFree.induct)
  case (1 used n)
  then show ?case by (cases "n \<in> set used") (simp_all add: nextFree.simps [of used n])
qed

lemma nextFree_fresh: "nextFree used n \<notin> set used"
proof (induction used n rule: nextFree.induct)
  case (1 used n)
  then show ?case by (cases "n \<in> set used") (simp_all add: nextFree.simps [of used n])
qed

lemma nextFree_least: "n \<le> x \<Longrightarrow> x < nextFree used n \<Longrightarrow> x \<in> set used"
proof (induction used n rule: nextFree.induct)
  case (1 used n)
  then show ?case
    by (cases "n \<in> set used"; cases "x = n") (simp_all add: nextFree.simps [of used n])
qed

lemma length_assignAutomatic [simp]: "length (assignAutomatic used n ds) = length ds"
  by (induction used n ds rule: assignAutomatic.induct) (auto simp: Let_def)

lemma assignAutomatic_kept:
  "i < length ds \<Longrightarrow> ds ! i \<noteq> 0 \<Longrightarrow> assignAutomatic used n ds ! i = ds ! i"
proof (induction used n ds arbitrary: i rule: assignAutomatic.induct)
  case (2 used n d ds)
  then show ?case by (cases i) (auto simp: Let_def)
qed simp

lemma assignAutomatic_new:
  assumes "i < length ds" and "ds ! i = 0"
  shows "assignAutomatic used n ds ! i \<notin> set used \<and> n \<le> assignAutomatic used n ds ! i"
  using assms
proof (induction used n ds arbitrary: i rule: assignAutomatic.induct)
  case (2 used n d ds)
  show ?case
  proof (cases i)
    case 0
    with 2 show ?thesis by (simp add: Let_def nextFree_fresh nextFree_ge)
  next
    case (Suc j)
    with 2 show ?thesis
      using nextFree_ge [of n used] by (cases "d = 0") (fastforce simp: Let_def)+
  qed
qed simp

lemma assignAutomatic_least:
  assumes "i < length ds" and "ds ! i = 0" and "n \<le> x" and "x < assignAutomatic used n ds ! i"
  shows "x \<in> set used \<union> set (take i (assignAutomatic used n ds))"
  using assms
proof (induction used n ds arbitrary: i rule: assignAutomatic.induct)
  case (2 used n d ds)
  show ?case
  proof (cases i)
    case 0
    with 2 show ?thesis by (auto simp: Let_def dest: nextFree_least)
  next
    case (Suc j)
    show ?thesis
    proof (cases "d = 0")
      case False
      with 2 Suc show ?thesis by (auto simp: Let_def)
    next
      case True
      let ?n = "nextFree used n"
      consider "x < ?n" | "x = ?n" | "?n + 1 \<le> x" by linarith
      then show ?thesis
      proof cases
        case 1
        with 2 have "x \<in> set used" by (auto dest: nextFree_least)
        then show ?thesis by simp
      next
        case 2
        with True Suc show ?thesis by (simp add: Let_def)
      next
        case 3
        with 2 Suc True show ?thesis by (auto simp: Let_def)
      qed
    qed
  qed
qed simp

lemma assignAutomatic_distinct:
  assumes "distinct (filter (\<lambda>d. d \<noteq> 0) ds)" and "set (filter (\<lambda>d. d \<noteq> 0) ds) \<subseteq> set used"
  shows "distinct (assignAutomatic used n ds)"
  using assms
proof (induction used n ds rule: assignAutomatic.induct)
  case (2 used n d ds)
  show ?case
  proof (cases "d = 0")
    case True
    let ?n = "nextFree used n"
    let ?r = "assignAutomatic (?n # used) (?n + 1) ds"
    have "distinct ?r" using 2 True by (auto simp: subset_insertI2)
    moreover have "?n \<notin> set ?r"
    proof
      assume "?n \<in> set ?r"
      then obtain i where i: "i < length ds" "?r ! i = ?n" by (auto simp: in_set_conv_nth)
      then have "ds ! i \<noteq> 0" using assignAutomatic_new [of i ds "?n # used" "?n + 1"] by auto
      with i have "?n = ds ! i" "?n \<in> {x \<in> set ds. x \<noteq> 0}"
        using assignAutomatic_kept [of i ds "?n # used" "?n + 1"] nth_mem [OF i(1)] by auto
      with 2(4) True have "?n \<in> set used" by auto
      then show False using nextFree_fresh [of used n] by simp
    qed
    ultimately show ?thesis using True by (simp add: Let_def)
  next
    case False
    have "d \<notin> set (assignAutomatic used n ds)"
    proof
      assume "d \<in> set (assignAutomatic used n ds)"
      then obtain i where i: "i < length ds" "assignAutomatic used n ds ! i = d"
        by (auto simp: in_set_conv_nth)
      with False 2(4) assignAutomatic_new [of i ds used n] have "ds ! i \<noteq> 0" by auto
      with i assignAutomatic_kept [of i ds used n] have "d \<in> set ds" by (auto simp: in_set_conv_nth)
      with False 2(3) show False by simp
    qed
    with 2 False show ?thesis by auto
  qed
qed simp

lemma fold_max_le: "fold max xs (a::int) \<le> b \<longleftrightarrow> a \<le> b \<and> (\<forall>x \<in> set xs. x \<le> b)"
  by (induction xs arbitrary: a) auto

abbreviation slotOf :: "int \<Rightarrow> int" where
  "slotOf fd \<equiv> if fd = -1 then 0 else fd"

definition admissible :: "int list \<Rightarrow> bool" where
  "admissible requested \<longleftrightarrow>
     (\<forall>fd \<in> set (explicits requested). 3 \<le> fd \<and> fd \<le> 1024 \<and> fd \<le> int (length requested) + 258) \<and>
     distinct (explicits requested)"

lemma assign_Inr:
  "assignListenerDescriptors requested = Inr ds \<longleftrightarrow>
     admissible requested \<and>
     ds = assignAutomatic (rev (explicits requested)) 3 (map slotOf requested)"
proof -
  have pad: "fold max (explicits requested) 2 - 2 - int (length requested) \<le> 256 \<longleftrightarrow>
      (\<forall>fd \<in> set (explicits requested). fd \<le> int (length requested) + 258)"
    using fold_max_le [of "explicits requested" 2 "int (length requested) + 258"] by linarith
  show ?thesis
  proof (cases "assignExplicit [] 2 requested")
    case (Inl e)
    then have "\<not> admissible requested"
      using assignExplicit_Inr [of "[]" 2 requested "map slotOf requested"
          "rev (explicits requested) @ []" "fold max (explicits requested) 2"]
      by (auto simp: admissible_def)
    with Inl show ?thesis by (simp add: assignListenerDescriptors_def)
  next
    case (Inr r)
    obtain d u m where r: "r = (d, u, m)" by (cases r)
    with Inr assignExplicit_Inr [of "[]" 2 requested d u m]
    have *: "\<forall>fd \<in> set (explicits requested). 3 \<le> fd \<and> fd \<le> 1024" "distinct (explicits requested)"
        "d = map slotOf requested" "u = rev (explicits requested)"
        "m = fold max (explicits requested) 2"
      by simp_all
    have "admissible requested \<longleftrightarrow> m - 2 - int (length requested) \<le> 256"
      using * pad by (auto simp: admissible_def)
    with Inr r * show ?thesis
      by (auto simp: assignListenerDescriptors_def Let_def maxSparseListenerFDSlots_def)
  qed
qed

lemma slot_explicits:
  "\<forall>fd \<in> set (explicits req). 3 \<le> fd \<Longrightarrow> filter (\<lambda>d. d \<noteq> 0) (map slotOf req) = explicits req"
  by (induction req) auto

lemma assign_slots:
  assumes ok: "admissible req" and ds: "ds = assignAutomatic (rev (explicits req)) 3 (map slotOf req)"
    and i: "i < length req"
  shows "if req ! i = -1
    then 3 \<le> ds ! i \<and> (\<forall>x. 3 \<le> x \<longrightarrow> x < ds ! i \<longrightarrow> x \<in> set (explicits req) \<union> set (take i ds))
    else ds ! i = req ! i \<and> 3 \<le> ds ! i"
proof (cases "req ! i = -1")
  case True
  then show ?thesis
    using i assignAutomatic_new [of i "map slotOf req" "rev (explicits req)" 3]
      assignAutomatic_least [of i "map slotOf req" 3 _ "rev (explicits req)"]
    unfolding ds by auto
next
  case False
  then have "req ! i \<in> set (explicits req)" using i by simp
  then have "3 \<le> req ! i" using ok unfolding admissible_def by blast
  with False show ?thesis
    using i assignAutomatic_kept [of i "map slotOf req" "rev (explicits req)" 3] unfolding ds by auto
qed

lemma assign_distinct:
  assumes "admissible req"
  shows "distinct (assignAutomatic (rev (explicits req)) 3 (map slotOf req))"
proof (rule assignAutomatic_distinct)
  have e: "filter (\<lambda>d. d \<noteq> 0) (map slotOf req) = explicits req"
    using assms by (intro slot_explicits) (auto simp: admissible_def)
  show "distinct (filter (\<lambda>d. d \<noteq> 0) (map slotOf req))"
    unfolding e using assms by (simp only: admissible_def)
  show "set (filter (\<lambda>d. d \<noteq> 0) (map slotOf req)) \<subseteq> set (rev (explicits req))"
    unfolding e by simp
qed

lemma dense_bound:
  fixes d :: int
  assumes "d \<in> set ds" and "distinct ds" and "{3..<d} \<subseteq> set ds"
  shows "d \<le> int (length ds) + 2"
proof -
  have "card {3..<d} \<le> card (set ds - {d})" using assms(3) by (intro card_mono) auto
  then have "nat (d - 3) \<le> length ds - 1"
    using assms(1,2) by (simp add: card_Diff_singleton distinct_card)
  moreover have "0 < length ds" using assms(1) by (auto dest: length_pos_if_in_set)
  ultimately show ?thesis by linarith
qed

lemma assign_bound:
  assumes ok: "admissible req" and ds: "ds = assignAutomatic (rev (explicits req)) 3 (map slotOf req)"
    and d: "d \<in> set ds"
  shows "3 \<le> d \<and> d \<le> int (length req) + 258"
proof -
  have len: "length ds = length req" by (simp add: ds)
  from d obtain i where i: "i < length req" "ds ! i = d" by (auto simp: in_set_conv_nth len)
  have sub: "set (explicits req) \<subseteq> set ds"
  proof
    fix x assume "x \<in> set (explicits req)"
    then obtain j where "j < length req" "req ! j = x" "x \<noteq> -1" by (auto simp: in_set_conv_nth)
    with assign_slots [OF ok ds, of j] len show "x \<in> set ds" by (auto simp: in_set_conv_nth)
  qed
  show ?thesis
  proof (cases "req ! i = -1")
    case True
    with assign_slots [OF ok ds i(1)] i have "3 \<le> d"
      and "{3..<d} \<subseteq> set (explicits req) \<union> set (take i ds)" by auto
    with sub have "3 \<le> d" and "{3..<d} \<subseteq> set ds" using set_take_subset [of i ds] by blast+
    with dense_bound [OF d] assign_distinct [OF ok] len show ?thesis by (simp add: ds)
  next
    case False
    with i have "req ! i \<in> set (explicits req)" by simp
    with ok have "req ! i \<le> int (length req) + 258" unfolding admissible_def by blast
    with False assign_slots [OF ok ds i(1)] i show ?thesis by auto
  qed
qed

text \<open>
  C27: descriptor assignment succeeds exactly on the admissible requests: the explicit
  descriptors are pairwise distinct, lie between 3 and 1024, and leave at most 256 unused slots
  in a worker's descriptor table. Otherwise the request is refused.
\<close>

theorem assignListenerDescriptors_exact:
  "isOk (assignListenerDescriptors requested) \<longleftrightarrow> admissible requested"
  using assign_Inr [of requested] by (auto simp: isOk_iff)

text \<open>
  The numbers handed out. Every listener gets one descriptor, all distinct and between 3 and
  258 above the number of listeners; an explicit request is honoured as given; an automatic one
  takes the least number that is neither requested explicitly nor given to an earlier listener.
\<close>

theorem assignListenerDescriptors_sound:
  assumes "assignListenerDescriptors requested = Inr ds"
  shows "length ds = length requested \<and> distinct ds \<and>
    (\<forall>d \<in> set ds. 3 \<le> d \<and> d \<le> int (length requested) + 258) \<and>
    (\<forall>i < length requested.
       if requested ! i = -1
       then \<forall>x. 3 \<le> x \<longrightarrow> x < ds ! i \<longrightarrow> x \<in> set (explicits requested) \<union> set (take i ds)
       else ds ! i = requested ! i)"
proof -
  from assms have ok: "admissible requested"
    and ds: "ds = assignAutomatic (rev (explicits requested)) 3 (map slotOf requested)"
    by (simp_all add: assign_Inr)
  have "length ds = length requested" "distinct ds"
    using assign_distinct [OF ok] by (simp_all add: ds)
  moreover have "\<forall>d \<in> set ds. 3 \<le> d \<and> d \<le> int (length requested) + 258"
    using assign_bound [OF ok ds] by blast
  moreover have "\<forall>i < length requested.
       if requested ! i = -1
       then \<forall>x. 3 \<le> x \<longrightarrow> x < ds ! i \<longrightarrow> x \<in> set (explicits requested) \<union> set (take i ds)
       else ds ! i = requested ! i"
    using assign_slots [OF ok ds] by presburger
  ultimately show ?thesis by blast
qed

theorem assignListenerDescriptors_sound_witness:
  "assignListenerDescriptors [-1, 3, -1, 9] = Inr [4, 3, 5, 9] \<and> distinct [4, 3, 5, 9 :: int]"
proof -
  have h: "assignListenerDescriptors [-1, 3, -1, 9] = Inr [4, 3, 5, 9]" by code_simp
  with assignListenerDescriptors_sound [OF h] show ?thesis by blast
qed

subsection \<open>Parsing a target: correctness\<close>

lemma parseUintLoop_digits: "parseUintLoop 10 mx n s = Inr m \<Longrightarrow> c \<in> set s \<Longrightarrow> isDigit c"
proof (induction s arbitrary: n)
  case (Cons x s)
  then obtain d where d: "digitVal x = Some d" "d < 10" and r: "parseUintLoop 10 mx (n * 10 + d) s = Inr m"
    by (auto split: option.splits if_splits)
  from d have "isDigit x" by (auto simp: digitVal_def isDigit_def Let_def split: if_splits)
  with Cons.IH [OF r] Cons.prems(2) show ?case by auto
qed simp

lemma atoi_chars: "atoi s = Inr i \<Longrightarrow> c \<in> set s \<Longrightarrow> isDigit c \<or> c = CHR ''+'' \<or> c = CHR ''-''"
  by (auto simp: atoi_def parseInt_def parseSigned_def parseUint_def
      simp del: parseUintLoop.simps split: list.splits if_splits sum.splits
      dest: parseUintLoop_digits)

lemma splitHostPort_chars:
  assumes "splitHostPort s = Inr (h, p)" and "c \<in> set s" and "c \<notin> {CHR ''['', CHR '']'', CHR '':''}"
  shows "c \<in> set h \<or> c \<in> set p"
proof -
  obtain front where cut: "s = front @ CHR '':'' # p" "CHR '':'' \<notin> set p"
    using assms(1) by (auto simp: splitHostPort_def goCutLast_Some split: option.splits if_splits)
  show ?thesis
  proof (cases "hd s = CHR ''[''")
    case True
    from assms(1) cut True obtain after where
      a: "goCut (CHR '']'') (tl s) = Some (h, after)" "length h + 2 = length front"
      by (auto simp: splitHostPort_def goCutLast_append split: option.splits if_splits)
    then have "tl s = h @ CHR '']'' # after" by (simp add: goCut_Some)
    moreover obtain x xs where "front = x # xs" using a(2) by (cases front) auto
    ultimately have "xs @ CHR '':'' # p = (h @ [CHR '']'']) @ after"
      and "length xs = length (h @ [CHR '']''])"
      using cut a(2) by auto
    then have "xs = h @ [CHR '']'']" by (rule append_eq_append_conv [THEN iffD1, THEN conjunct1, OF disjI1, rotated])
    with \<open>front = x # xs\<close> cut True assms(2,3) show ?thesis by auto
  next
    case False
    with assms(1) cut have "front = h"
      by (auto simp: splitHostPort_def goCutLast_append split: if_splits)
    with cut assms(2,3) show ?thesis by auto
  qed
qed

lemma delimHostPort_chars:
  assumes "delimHostPort s = Inr (h, p)" and "CHR '';'' \<in> set s"
  shows "CHR '';'' \<in> set h \<or> CHR '';'' \<in> set p"
proof (cases "hasPrefix s ''[''")
  case True
  with assms(1) have "splitHostPort s = Inr (h, p)"
    by (auto simp: delimHostPort_def split: sum.splits)
  then show ?thesis using assms(2) by (rule splitHostPort_chars) simp
next
  case False
  with assms show ?thesis
    by (auto simp: delimHostPort_def goCutLast_Some split: option.splits)
qed

lemma validatePortTargetDelimiter_iff:
  "validatePortTargetDelimiter s = None \<longleftrightarrow> CHR '';'' \<notin> set s"
proof (cases "CHR '';'' \<in> set s")
  case semi: True
  have "validatePortTargetDelimiter s \<noteq> None"
  proof
    assume "validatePortTargetDelimiter s = None"
    with semi obtain h p q port spec where hp: "delimHostPort s = Inr (h, p)"
        and q: "q = trimPrefix p ''u''" "atoi q = Inr port"
        and f: "FormatPorts [if hasPrefix p ''u'' then NewUDPListener h port 0
                             else NewTCPListener h port 0] = Inr spec"
      by (auto simp: validatePortTargetDelimiter_def Let_def split: sum.splits if_splits)
    have "CHR '';'' \<notin> set q" using atoi_chars [OF q(2), of "CHR '';''"] by auto
    then have "CHR '';'' \<notin> set p"
      by (auto simp: q(1) trimPrefix_def cutPrefix_Some split: option.splits)
    with delimHostPort_chars [OF hp semi] have "CHR '';'' \<in> set h" by simp
    with FormatPorts_Inr_wf [OF f] show False
      by (auto simp: NewUDPListener_def NewTCPListener_def wireText_def split: if_splits)
  qed
  with semi show ?thesis by simp
qed (simp add: validatePortTargetDelimiter_def)

lemma eq_notin_spaceSeqs: "p \<in> set spaceSeqs \<Longrightarrow> CHR ''='' \<notin> set p"
proof -
  have "list_all (\<lambda>p. CHR ''='' \<notin> set p) spaceSeqs" by code_simp
  then show "p \<in> set spaceSeqs \<Longrightarrow> CHR ''='' \<notin> set p" by (simp add: list_all_iff)
qed

lemma splitTargetFD_net:
  assumes "wfAddr addr" and "ValidPort port" and "3 \<le> n" and "n \<le> 1024"
  shows "splitTargetFD (netSpec addr port @ CHR ''='' # formatUint n) = Inr (n, netSpec addr port)"
proof -
  let ?s = "netSpec addr port"
  let ?t = "?s @ CHR ''='' # formatUint n"
  have sp: "spaceFree ?s" using assms(1,2) by (intro spaceFree_netSpec) (auto simp: ValidPort_def)
  then have "cutAny spaceSeqs ?t = None"
    by (simp add: spaceFree_def cutAny_before eq_notin_spaceSeqs)
  moreover have "cutAny (map rev spaceSeqs) (rev ?t) = None"
    using last_formatUint [of n] assms(3) by (intro no_trailing_space) auto
  ultimately have t: "trimSpace ?t = ?t" by (intro trimSpace_id) (simp add: spaceFree_def)
  have "goCutLast (CHR ''='') ?t = Some (?s, formatUint n)"
    using assms(3) by (simp add: goCutLast_append)
  moreover have "atoi (trimSpace (formatUint n)) = Inr n"
    using assms(3,4) by (simp add: atoi_def trimSpace_id spaceFree_digits parseInt_formatUint)
  moreover have "validateExplicitListenerFD n = None" using assms(3,4) by (simp add: validateExplicit_None)
  ultimately show ?thesis
    using assms(3) sp by (simp add: splitTargetFD_def t trimSpace_id)
qed

lemma ParsePorts_net:
  assumes "wireText addr" "wfAddr addr" "ValidPort port"
  shows "ParsePorts (netSpec addr port @ ''=3'') = Inr [TCPListener addr port 3]"
proof -
  have wf: "wfListener (TCPListener addr port 3)" using assms by (simp add: ValidInheritedFD_def)
  have three: "formatUint 3 = ''3''" by code_simp
  have "ParsePorts (goJoin (CHR '';'') (map lString [TCPListener addr port 3])) =
      Inr (map asWire [TCPListener addr port 3])"
    using wf by (intro ParsePorts_encoded) simp
  then show ?thesis by (simp add: lString_net three)
qed

text \<open>
  A TCP endpoint printed in the wire format is a valid \<open>--port\<close> argument that denotes it:
  parsing the text gives the explicit descriptor and a bind target whose wire representation is
  the endpoint again, and the target is bound on an IPv6 network exactly for an IPv6 literal.
\<close>

theorem parsePortTarget_roundtrip:
  assumes "wfListener (TCPListener addr port fd)" and "fd \<le> 1024"
  shows "\<exists>t. parsePortTarget (lString (TCPListener addr port fd)) = Inr t \<and> t_fd t = uint fd \<and>
    starterListener (targetListener t) (t_fd t) = TCPListener addr port fd \<and>
    t_network t = (if CHR '':'' \<in> set addr then ''tcp6'' else ''tcp4'')"
proof -
  have a: "wireText addr" "wfAddr addr" "ValidPort port" and fd: "3 \<le> uint fd" "uint fd \<le> 1024"
    using assms by (simp_all add: ValidInheritedFD_def word_le_def)
  have "validatePortTargetDelimiter (netSpec addr port) = None"
    using a(1) by (auto simp: netSpec_def joinHostPort_def wireText_def validatePortTargetDelimiter_iff)
  then have "parsePortTarget (lString (TCPListener addr port fd)) =
      portTargetOf (lString (TCPListener addr port fd)) (uint fd) (TCPListener addr port 3) addr port ''tcp4''"
    using splitTargetFD_net [OF a(2,3) fd] ParsePorts_net [OF a]
    by (simp add: parsePortTarget_def lString_net)
  moreover have "hasPrefix ''tcp4'' ''udp'' = False" "hasPrefix ''tcp6'' ''udp'' = False" by code_simp+
  moreover have "\<not> CHR '':'' \<in> set wildcardIPv4" by code_simp
  ultimately show ?thesis
    using a by (auto simp: portTargetOf_def targetListener_def starterListener_def unixNetwork_def
        NewTCPListener_def Let_def wildcardIPv4_def wireText_def)
qed

theorem parsePortTarget_roundtrip_witness:
  "\<exists>t. parsePortTarget (lString (TCPListener ''::1'' 443 7)) = Inr t \<and>
     starterListener (targetListener t) (t_fd t) = TCPListener ''::1'' 443 7"
proof -
  have "wfListener (TCPListener ''::1'' 443 7)"
    by (simp add: wireText_def wfAddr_def wildcardIPv4_def ValidPort_def ValidInheritedFD_def)
  from parsePortTarget_roundtrip [OF this] show ?thesis by auto
qed

text \<open>
  Whatever \<open>--port\<close> argument the parser accepts, the target is safe to bind: the port is in
  range, the descriptor is automatic or lies between 3 and 1024, the host has no delimiter, and
  the network is one of the four supported ones, IPv6 exactly for a host with a colon.
\<close>

theorem parsePortTarget_sound:
  assumes "parsePortTarget raw = Inr t"
  shows "ValidPort (t_port t) \<and> (t_fd t = -1 \<or> 3 \<le> t_fd t \<and> t_fd t \<le> 1024) \<and>
    CHR '';'' \<notin> set (t_host t) \<and> CHR ''='' \<notin> set (t_host t) \<and> t_host t \<noteq> ''0.0.0.0'' \<and>
    t_network t \<in> (if CHR '':'' \<in> set (t_host t) then {''tcp6'', ''udp6''} else {''tcp4'', ''udp4''})"
proof -
  from assms obtain fd tgt where s: "splitTargetFD raw = Inr (fd, tgt)"
    by (auto simp: parsePortTarget_def split: sum.splits)
  then have fd: "fd = -1 \<or> 3 \<le> fd \<and> fd \<le> 1024"
    by (auto simp: splitTargetFD_def Let_def validateExplicit_None
        split: option.splits sum.splits if_splits)
  from assms s obtain l addr port where p: "ParsePorts (tgt @ ''=3'') = Inr [l]"
      and l: "l = TCPListener addr port (Fd l) \<and> portTargetOf raw fd l addr port ''tcp4'' = Inr t \<or>
              l = UDPListener addr port (Fd l) \<and> portTargetOf raw fd l addr port udp4Network = Inr t"
    by (auto simp: parsePortTarget_def split: option.splits sum.splits list.splits Listener.splits)
  from ParsePorts_validParsed [OF p] have "validParsed l" by simp
  then have v: "ValidPort port" "CHR '';'' \<notin> set addr" "CHR ''='' \<notin> set addr"
    using l by (metis validParsed.simps)+
  have "hasPrefix ''tcp4'' ''udp'' = False" "hasPrefix udp4Network ''udp'' = True" by code_simp+
  with l v fd show ?thesis
    by (auto simp: portTargetOf_def Let_def udp4Network_def split: if_splits)
qed

theorem parsePortTarget_sound_witness:
  "\<exists>t. parsePortTarget '' u53'' = Inr t \<and> ValidPort (t_port t) \<and> t_network t \<in> {''tcp4'', ''udp4''}"
proof -
  have h: "parsePortTarget '' u53'' = Inr \<lparr>t_host = [], t_port = 53, t_network = ''udp4'',
      t_spec = ''53'', t_fd = -1\<rparr>" by code_simp
  from h parsePortTarget_sound [OF h] show ?thesis by simp
qed

text \<open>
  The check of a Unix socket path is fail-closed: it lets a bind proceed only when the
  path is empty or abstract, or the file system says positively that nothing is there; an
  unreadable path is refused like an existing one.
\<close>

theorem validateUnixSocketPathAvailable_iff:
  "validateUnixSocketPathAvailable linux lstat path = None \<longleftrightarrow>
     path = [] \<or> linux \<and> (hd path = CHR ''@'' \<or> hd path = CHR 0x00) \<or> lstat path = LstatNotExist"
  by (cases path) (auto simp: validateUnixSocketPathAvailable_def hasPrefix_def split: lstat_result.splits)

end
