(* ===== verification/Starter.thy ===== *)
theory Starter
  imports Signals PortSpec
begin

text \<open>
  The validated configuration of a supervisor (\<open>internal/supervisor/starter.go\<close>): the
  configuration interface as a record of the values its methods return, the resolution of the
  command on Unix and on Windows, and the constructor with its defaults.
\<close>

text \<open>Durations are 64-bit counts of nanoseconds; a writer is a handle, \<open>None\<close> a nil interface.\<close>

type_synonym duration = int

abbreviation second :: duration where
  "second \<equiv> 1000000000"

datatype starter_error =
    ErrNilConfig
  | ErrSignalOnHUP string
  | ErrSignalOnTERM string
  | ErrNoCommand
  | ErrCommand string

record Config =
  c_Args :: "string list"
  c_Command :: string
  c_Dir :: string
  c_Interval :: duration
  c_PidFile :: string
  c_Ports :: "string list"
  c_Paths :: "string list"
  c_SignalOnHUP :: "string + Signal option"
  c_SignalOnTERM :: "string + Signal option"
  c_StatusFile :: string
  c_Envdir :: string
  c_EnableAutoRestart :: bool
  c_AutoRestartInterval :: duration
  c_KillOldDelay :: duration
  c_Stdout :: "nat option"
  c_Stderr :: "nat option"

record Starter =
  interval :: duration
  signalOnHUP :: Signal
  signalOnTERM :: Signal
  shutdownGracePeriod :: duration
  statusFile :: string
  pidFile :: string
  dir :: string
  ports :: "string list"
  paths :: "string list"
  command :: string
  commandPath :: string
  args :: "string list"
  envdir :: string
  enableAutoRestart :: bool
  autoRestartInterval :: duration
  killOldDelay :: duration
  stdout :: nat
  stderr :: nat

text \<open>
  The path functions of the standard library that the resolution calls, which differ between the
  systems: \<open>os.IsPathSeparator\<close> and \<open>os.PathSeparator\<close>, \<open>filepath.IsAbs\<close>, \<open>VolumeName\<close>, \<open>Join\<close> and
  \<open>Abs\<close>, and \<open>strings.EqualFold\<close>, which only volume names are compared with. \<open>unixPaths\<close> are those
  of Unix, where there are no volume names.
\<close>

record pathLib =
  pt_isSeparator :: "char \<Rightarrow> bool"
  pt_separator :: char
  pt_isAbs :: "string \<Rightarrow> bool"
  pt_volumeName :: "string \<Rightarrow> string"
  pt_equalFold :: "string \<Rightarrow> string \<Rightarrow> bool"
  pt_join :: "string \<Rightarrow> string \<Rightarrow> string"
  pt_abs :: "string \<Rightarrow> string + string"

definition unixPaths :: "string + string \<Rightarrow> pathLib" where
  "unixPaths getwd =
     \<lparr>pt_isSeparator = isPathSeparator, pt_separator = CHR ''/'', pt_isAbs = isAbsPath,
      pt_volumeName = volumeName, pt_equalFold = (=), pt_join = filepathJoin, pt_abs = filepathAbs getwd\<rparr>"

definition hasPathSeparator :: "pathLib \<Rightarrow> string \<Rightarrow> bool" where
  "hasPathSeparator pt path \<longleftrightarrow> list_ex (pt_isSeparator pt) path"

definition commandForValidation :: "pathLib \<Rightarrow> string \<Rightarrow> string \<Rightarrow> string" where
  "commandForValidation pt cmd d =
     (if cmd = [] \<or> d = [] \<or> pt_isAbs pt cmd then cmd
      else if pt_isSeparator pt (hd cmd) then
        (if pt_volumeName pt d = [] then cmd else pt_volumeName pt d @ cmd)
      else if pt_volumeName pt cmd \<noteq> [] then
        (if \<not> pt_equalFold pt (pt_volumeName pt cmd) (pt_volumeName pt d) then cmd
         else pt_join pt d (drop (length (pt_volumeName pt cmd)) cmd))
      else if \<not> hasPathSeparator pt cmd then cmd
      else d @ [pt_separator pt] @ cmd)"

text \<open>\<open>windows\<close> is the test of \<open>runtime.GOOS\<close>; \<open>lookPath\<close> stands for \<open>exec.LookPath\<close>.\<close>

definition resolveCommandPath ::
  "bool \<Rightarrow> (string \<Rightarrow> string + string) \<Rightarrow> pathLib \<Rightarrow> string \<Rightarrow> string \<Rightarrow> string + string" where
  "resolveCommandPath windows lookPath pt cmd d =
     (case (if windows \<and> d \<noteq> [] then pt_abs pt d else Inr d) of
        Inl e \<Rightarrow> Inl e
      | Inr validationDir \<Rightarrow>
          let validationCommand = commandForValidation pt cmd validationDir in
          (case lookPath validationCommand of
             Inl e \<Rightarrow> Inl e
           | Inr found \<Rightarrow>
               let pinCommandPath =
                     (if windows then pt_volumeName pt cmd \<noteq> [] \<or> hasPathSeparator pt cmd
                      else validationCommand \<noteq> cmd \<and>
                           (pt_volumeName pt cmd \<noteq> [] \<or> pt_isSeparator pt (hd cmd))) in
               if \<not> pinCommandPath then Inr [] else pt_abs pt found))"

definition defaultShutdownGracePeriod :: duration where
  "defaultShutdownGracePeriod = 5 * second"

definition osStdout :: nat where "osStdout = 1"

definition osStderr :: nat where "osStderr = 2"

definition NewStarter ::
  "bool \<Rightarrow> (string \<Rightarrow> string + string) \<Rightarrow> pathLib \<Rightarrow> Config option \<Rightarrow> starter_error + Starter" where
  "NewStarter windows lookPath pt cfg =
     (case cfg of None \<Rightarrow> Inl ErrNilConfig | Some c \<Rightarrow>
      case c_SignalOnHUP c of Inl e \<Rightarrow> Inl (ErrSignalOnHUP e) | Inr hup \<Rightarrow>
      case c_SignalOnTERM c of Inl e \<Rightarrow> Inl (ErrSignalOnTERM e) | Inr term \<Rightarrow>
      if c_Command c = [] then Inl ErrNoCommand
      else (case resolveCommandPath windows lookPath pt (c_Command c) (c_Dir c) of
              Inl e \<Rightarrow> Inl (ErrCommand e)
            | Inr path \<Rightarrow>
                Inr \<lparr>interval = c_Interval c,
                     signalOnHUP = (case hup of Some s \<Rightarrow> s | None \<Rightarrow> SIGTERM),
                     signalOnTERM = (case term of Some s \<Rightarrow> s | None \<Rightarrow> SIGTERM),
                     shutdownGracePeriod = defaultShutdownGracePeriod,
                     statusFile = c_StatusFile c, pidFile = c_PidFile c, dir = c_Dir c,
                     ports = c_Ports c, paths = c_Paths c, command = c_Command c,
                     commandPath = path, args = c_Args c, envdir = c_Envdir c,
                     enableAutoRestart = c_EnableAutoRestart c,
                     autoRestartInterval = c_AutoRestartInterval c, killOldDelay = c_KillOldDelay c,
                     stdout = (case c_Stdout c of Some w \<Rightarrow> w | None \<Rightarrow> osStdout),
                     stderr = (case c_Stderr c of Some w \<Rightarrow> w | None \<Rightarrow> osStderr)\<rparr>))"

subsection \<open>The constructor\<close>

lemma commandForValidation_unix:
  "commandForValidation (unixPaths getwd) cmd d =
     (if d \<noteq> [] \<and> \<not> isAbsPath cmd \<and> CHR ''/'' \<in> set cmd then d @ ''/'' @ cmd else cmd)"
  by (cases cmd) (auto simp: commandForValidation_def unixPaths_def volumeName_def isPathSeparator_def
      isAbsPath_def hasPrefix_def hasPathSeparator_def list_ex_iff)

lemma resolveCommandPath_unix:
  "resolveCommandPath False lookPath (unixPaths getwd) cmd d =
     (case lookPath (commandForValidation (unixPaths getwd) cmd d) of Inl e \<Rightarrow> Inl e | Inr _ \<Rightarrow> Inr [])"
proof -
  have "\<not> (commandForValidation (unixPaths getwd) cmd d \<noteq> cmd \<and> (volumeName cmd \<noteq> [] \<or> isPathSeparator (hd cmd)))"
    by (cases cmd) (auto simp: commandForValidation_unix volumeName_def isPathSeparator_def isAbsPath_def hasPrefix_def)
  then show ?thesis by (auto simp: resolveCommandPath_def Let_def unixPaths_def split: sum.splits)
qed

text \<open>
  On Windows a command with a volume name or a separator is pinned to the absolute path at which
  it was found, so that a later change of the working directory cannot redirect it; a bare name
  is looked up again at every start. Neither depends on what the path functions compute.
\<close>

lemma resolveCommandPath_windows:
  "resolveCommandPath True lookPath pt cmd d = Inr path \<longleftrightarrow>
     (\<exists>base found. (if d = [] then base = [] else pt_abs pt d = Inr base) \<and>
        lookPath (commandForValidation pt cmd base) = Inr found \<and>
        (if pt_volumeName pt cmd = [] \<and> \<not> hasPathSeparator pt cmd then path = [] else pt_abs pt found = Inr path))"
  by (auto simp: resolveCommandPath_def Let_def split: sum.splits if_splits)

text \<open>
  The constructor accepts a configuration exactly when both signals are valid, a command is
  given and the command can be looked up at the place the worker will be started from: a
  relative command with a slash below the configured directory, any other command as it is. The
  looked-up path is never pinned on Unix, missing signals default to SIGTERM, and a shutdown
  waits five seconds.
\<close>

theorem NewStarter_correct:
  "(isOk (NewStarter False lookPath (unixPaths getwd) (Some c)) \<longleftrightarrow>
      isOk (c_SignalOnHUP c) \<and> isOk (c_SignalOnTERM c) \<and> c_Command c \<noteq> [] \<and>
      isOk (lookPath (if c_Dir c \<noteq> [] \<and> \<not> isAbsPath (c_Command c) \<and> CHR ''/'' \<in> set (c_Command c)
                      then c_Dir c @ ''/'' @ c_Command c else c_Command c))) \<and>
   (\<forall>s. NewStarter False lookPath (unixPaths getwd) (Some c) = Inr s \<longrightarrow>
      commandPath s = [] \<and> shutdownGracePeriod s = 5 * second \<and>
      signalOnHUP s = (case c_SignalOnHUP c of Inr (Some x) \<Rightarrow> x | _ \<Rightarrow> SIGTERM) \<and>
      signalOnTERM s = (case c_SignalOnTERM c of Inr (Some x) \<Rightarrow> x | _ \<Rightarrow> SIGTERM))"
  unfolding commandForValidation_unix [of getwd, symmetric]
  by (auto simp: NewStarter_def resolveCommandPath_unix defaultShutdownGracePeriod_def
      split: sum.splits option.splits)

definition sampleConfig :: Config where
  "sampleConfig = \<lparr>c_Args = [''-v''], c_Command = ''bin/app'', c_Dir = ''/srv'', c_Interval = second,
     c_PidFile = [], c_Ports = [''8080''], c_Paths = [], c_SignalOnHUP = Inr (Some SIGUSR1),
     c_SignalOnTERM = Inr None, c_StatusFile = [], c_Envdir = [], c_EnableAutoRestart = False,
     c_AutoRestartInterval = 0, c_KillOldDelay = 0, c_Stdout = None, c_Stderr = None\<rparr>"

definition lookBelowSrv :: "string \<Rightarrow> string + string" where
  "lookBelowSrv p = (if p = ''/srv/bin/app'' then Inr p else Inl ''not found'')"

theorem NewStarter_correct_witness:
  "\<exists>s. NewStarter False lookBelowSrv (unixPaths (Inr ''/'')) (Some sampleConfig) = Inr s \<and>
     signalOnHUP s = SIGUSR1 \<and> signalOnTERM s = SIGTERM \<and> commandPath s = []"
proof -
  let ?n = "NewStarter False lookBelowSrv (unixPaths (Inr ''/'')) (Some sampleConfig)"
  have "isOk ?n"
    by (subst NewStarter_correct [THEN conjunct1])
       (simp add: sampleConfig_def lookBelowSrv_def isAbsPath_def hasPrefix_def)
  then obtain s where "?n = Inr s" by (auto simp: isOk_iff)
  with NewStarter_correct [of lookBelowSrv "Inr ''/''" sampleConfig] show ?thesis
    by (auto simp: sampleConfig_def)
qed

end
