(* ===== verification/EnvDir.thy ===== *)
theory EnvDir
  imports PortCodec "HOL-Library.Multiset"
begin

text \<open>
  The environment of a worker: loading the envdir (\<open>internal/supervisor/env.go\<close> with
  \<open>env_open_unix.go\<close>) and building the variables of a spawned process (\<open>buildWorkerEnv\<close> of
  \<open>internal/supervisor/worker.go\<close>). Shown: the bounds and the fail-closed behaviour of the
  loader, the precedence of the three sources of a variable, and that a worker reads back the
  listeners and the generation it was started with.
\<close>

subsection \<open>The envdir\<close>

definition maxEnvValueBytes :: int where
  "maxEnvValueBytes = 128 * 1024"

text \<open>\<open>io.LimitReader\<close>: at most \<open>n\<close> bytes.\<close>

fun limitRead :: "int \<Rightarrow> string \<Rightarrow> string" where
  "limitRead n [] = []"
| "limitRead n (c # cs) = (if n \<le> 0 then [] else c # limitRead (n - 1) cs)"

text \<open>
  What the operating system answers about one directory entry: the type bits of \<open>ReadDir\<close>, the
  results of open, stat and close, the bytes the file holds and the error reading them may give.
\<close>

record envEntry =
  e_name :: string
  e_irregular :: bool
  e_openErr :: "string option"
  e_statErr :: "string option"
  e_statRegular :: bool
  e_data :: string
  e_readErr :: "string option"
  e_closeErr :: "string option"

datatype env_error =
    ErrReadEnvdir string string
  | ErrOpenEntry string string
  | ErrNotRegularEntry string
  | ErrReadEntry string string
  | ErrCloseEntry string string

definition openEnvFile :: "envEntry \<Rightarrow> env_error option" where
  "openEnvFile e =
     (case e_openErr e of
        Some err \<Rightarrow> Some (ErrOpenEntry (e_name e) err)
      | None \<Rightarrow>
          if e_statErr e \<noteq> None \<or> \<not> e_statRegular e then
            (case e_statErr e of
               Some err \<Rightarrow> Some (ErrOpenEntry (e_name e) err)
             | None \<Rightarrow> Some (ErrNotRegularEntry (e_name e)))
          else None)"

definition readEnvValue :: "envEntry \<Rightarrow> string + string option" where
  "readEnvValue e =
     (case e_readErr e of
        Some err \<Rightarrow> Inl err
      | None \<Rightarrow>
          let data = limitRead (maxEnvValueBytes + 1) (e_data e) in
          if data = [] then Inr None
          else (case goCut (CHR 0x0A) data of
                  Some (line, _) \<Rightarrow> Inr (Some line)
                | None \<Rightarrow>
                    if int (length data) > maxEnvValueBytes then Inr None else Inr (Some data)))"

definition skippedEntry :: "envEntry \<Rightarrow> bool" where
  "skippedEntry e \<longleftrightarrow> hasPrefix (e_name e) ''.'' \<or> e_irregular e"

text \<open>One round of the loop of \<open>reloadEnv\<close> for an entry that is not skipped.\<close>

definition loadEntry :: "envEntry \<Rightarrow> env_error + string option" where
  "loadEntry e =
     (case openEnvFile e of
        Some err \<Rightarrow> Inl err
      | None \<Rightarrow>
          (case readEnvValue e of
             Inl err \<Rightarrow> Inl (ErrReadEntry (e_name e) err)
           | Inr value \<Rightarrow>
               (case e_closeErr e of
                  Some err \<Rightarrow> Inl (ErrCloseEntry (e_name e) err)
                | None \<Rightarrow> Inr value)))"

fun loadEntries :: "(string \<times> string) list \<Rightarrow> envEntry list \<Rightarrow> env_error + (string \<times> string) list" where
  "loadEntries m [] = Inr m"
| "loadEntries m (e # es) =
     (if skippedEntry e then loadEntries m es
      else (case loadEntry e of
              Inl err \<Rightarrow> Inl err
            | Inr None \<Rightarrow> loadEntries m es
            | Inr (Some value) \<Rightarrow> loadEntries (AList.update (e_name e) value m) es))"

text \<open>\<open>readDir\<close> stands for \<open>os.ReadDir\<close> and the files behind the entries it lists.\<close>

definition reloadEnv :: "(string \<Rightarrow> string + envEntry list) \<Rightarrow> string \<Rightarrow> env_error + (string \<times> string) list" where
  "reloadEnv readDir dn =
     (if dn = [] then Inr []
      else (case readDir dn of
              Inl err \<Rightarrow> Inl (ErrReadEnvdir dn err)
            | Inr entries \<Rightarrow> loadEntries [] entries))"

subsection \<open>The environment of a worker\<close>

definition daemonReadyFDEnv :: string where
  "daemonReadyFDEnv = ''SERVER_STARTER_DAEMON_READY_FD''"

definition mergeEnviron :: "string list \<Rightarrow> (string \<times> string) list" where
  "mergeEnviron environ =
     fold (\<lambda>kv m. case goCut (CHR ''='') kv of
                     Some (k, v) \<Rightarrow> if k = daemonReadyFDEnv then m else AList.update k v m
                   | None \<Rightarrow> m) environ []"

definition mapsCopy :: "(string \<times> string) list \<Rightarrow> (string \<times> string) list \<Rightarrow> (string \<times> string) list" where
  "mapsCopy dst src = fold (\<lambda>(k, v) m. AList.update k v m) src dst"

text \<open>The order of the entries is the iteration order of the merged map, here a fixed one.\<close>

definition buildWorkerEnv ::
  "string list \<Rightarrow> (string \<times> string) list \<Rightarrow> string \<Rightarrow> string \<Rightarrow> int \<Rightarrow> string list" where
  "buildWorkerEnv environ overlay portSpec socketTypes generation =
     (let merged = AList.update GenerationEnvName (itoa generation)
                     (AList.update SocketTypesEnvName socketTypes
                       (AList.update PortEnvName portSpec
                         (mapsCopy (mergeEnviron environ) overlay)))
      in map (\<lambda>(k, v). k @ ''='' @ v) merged)"

text \<open>How a Go process reads its environment block: the first entry of a name counts.\<close>

fun lookupEnviron :: "string list \<Rightarrow> env" where
  "lookupEnviron [] k = None"
| "lookupEnviron (kv # kvs) k =
     (case goCut (CHR ''='') kv of
        Some (k', v) \<Rightarrow> if k' = k then Some v else lookupEnviron kvs k
      | None \<Rightarrow> lookupEnviron kvs k)"

subsection \<open>The envdir loader\<close>

lemma limitRead_take: "0 \<le> n \<Longrightarrow> limitRead n s = take (nat n) s"
  by (induction n s rule: limitRead.induct) (auto simp: take_Cons' nat_diff_distrib)

lemma limitRead_length: "0 \<le> n \<Longrightarrow> int (length (limitRead n s)) \<le> n"
  by (induction n s rule: limitRead.induct) auto

definition loadedValue :: "string \<Rightarrow> string \<Rightarrow> bool" where
  "loadedValue data v \<longleftrightarrow>
     CHR 0x0A \<notin> set v \<and> int (length v) \<le> maxEnvValueBytes \<and> data \<noteq> [] \<and>
     (data = v \<or> (\<exists>rest. data = v @ CHR 0x0A # rest))"

lemma goCut_take:
  assumes "goCut c (take n s) = Some (a, b)"
  shows "\<exists>rest. s = a @ c # rest" and "length a < n" and "c \<notin> set a"
proof -
  from assms have t: "take n s = a @ c # b" and c: "c \<notin> set a" by (simp_all add: goCut_Some)
  have "s = a @ c # (b @ drop n s)"
    using t append_take_drop_id [of n s] by simp
  then show "\<exists>rest. s = a @ c # rest" by blast
  have "length (take n s) \<le> n" by simp
  with t show "length a < n" by simp
  show "c \<notin> set a" by (rule c)
qed

lemma readEnvValue_loaded:
  assumes "readEnvValue e = Inr (Some v)"
  shows "loadedValue (e_data e) v"
proof -
  let ?d = "limitRead (maxEnvValueBytes + 1) (e_data e)"
  have d: "?d = take (nat (maxEnvValueBytes + 1)) (e_data e)"
    by (simp add: limitRead_take maxEnvValueBytes_def)
  from assms have ne: "?d \<noteq> []" by (auto simp: readEnvValue_def Let_def split: option.splits if_splits)
  then have data: "e_data e \<noteq> []" by auto
  show ?thesis
  proof (cases "goCut (CHR 0x0A) ?d")
    case None
    with assms ne have v: "v = ?d" and len: "int (length ?d) \<le> maxEnvValueBytes"
      by (auto simp: readEnvValue_def Let_def split: option.splits if_splits)
    then have "length (e_data e) \<le> nat maxEnvValueBytes"
      unfolding d by (simp add: maxEnvValueBytes_def)
    then have "?d = e_data e" unfolding d by (simp add: maxEnvValueBytes_def)
    with None v len data show ?thesis by (simp add: loadedValue_def goCut_no_sep)
  next
    case (Some ab)
    with assms ne obtain b where "goCut (CHR 0x0A) ?d = Some (v, b)"
      by (cases ab) (auto simp: readEnvValue_def Let_def split: option.splits if_splits)
    from goCut_take [OF this [unfolded d]] data show ?thesis
      by (auto simp: loadedValue_def maxEnvValueBytes_def)
  qed
qed

lemma readEnvValue_complete:
  assumes "e_readErr e = None" and "loadedValue (e_data e) v"
  shows "readEnvValue e = Inr (Some v)"
proof -
  let ?n = "nat (maxEnvValueBytes + 1)"
  have d: "limitRead (maxEnvValueBytes + 1) (e_data e) = take ?n (e_data e)"
    by (simp add: limitRead_take maxEnvValueBytes_def)
  from assms(2) have v: "CHR 0x0A \<notin> set v" "length v < ?n" "int (length v) \<le> maxEnvValueBytes" "e_data e \<noteq> []"
    by (auto simp: loadedValue_def maxEnvValueBytes_def)
  from assms(2) consider "e_data e = v" | rest where "e_data e = v @ CHR 0x0A # rest"
    by (auto simp: loadedValue_def)
  then show ?thesis
  proof cases
    case 1
    with v have "take ?n (e_data e) = v" and "goCut (CHR 0x0A) v = None" by (simp_all add: goCut_no_sep)
    with 1 v assms(1) d show ?thesis by (simp add: readEnvValue_def Let_def)
  next
    case 2
    with v have "take ?n (e_data e) = v @ CHR 0x0A # take (?n - length v - 1) rest" by (simp add: take_Cons')
    with v assms(1) d show ?thesis by (simp add: readEnvValue_def Let_def goCut_append)
  qed
qed

lemma readEnvValue_exact: "e_readErr e = None \<Longrightarrow> readEnvValue e = Inr (Some v) \<longleftrightarrow> loadedValue (e_data e) v"
  using readEnvValue_loaded readEnvValue_complete by blast

lemma readEnvValue_isOk: "isOk (readEnvValue e) \<longleftrightarrow> e_readErr e = None"
  by (simp add: readEnvValue_def Let_def split: option.splits)

lemma loadEntry_isOk: "isOk (loadEntry e) \<longleftrightarrow>
    openEnvFile e = None \<and> e_readErr e = None \<and> e_closeErr e = None"
  by (auto simp: loadEntry_def readEnvValue_isOk [symmetric] split: option.splits sum.splits)

lemma loadEntry_stores: "loadEntry e = Inr (Some v) \<longleftrightarrow>
    openEnvFile e = None \<and> e_readErr e = None \<and> e_closeErr e = None \<and> loadedValue (e_data e) v"
proof -
  have "loadEntry e = Inr (Some v) \<longleftrightarrow> openEnvFile e = None \<and> readEnvValue e = Inr (Some v) \<and> e_closeErr e = None"
    by (auto simp: loadEntry_def split: option.splits sum.splits)
  moreover have "readEnvValue e = Inr (Some v) \<Longrightarrow> e_readErr e = None"
    using readEnvValue_isOk [of e] by simp
  ultimately show ?thesis using readEnvValue_exact by blast
qed

lemma loadEntries_isOk: "isOk (loadEntries m es) \<longleftrightarrow> (\<forall>e \<in> set es. skippedEntry e \<or> isOk (loadEntry e))"
  by (induction m es rule: loadEntries.induct) (auto split: sum.splits option.splits)

lemma loadEntries_distinct: "loadEntries m es = Inr r \<Longrightarrow> distinct_keys m \<Longrightarrow> distinct_keys r"
  by (induction m es rule: loadEntries.induct)
     (auto split: if_splits sum.splits option.splits)

lemma update_new_key: "k \<notin> fst ` set m \<Longrightarrow> AList.update k v m = m @ [(k, v)]"
  by (induction m) auto

lemma loadEntries_set:
  assumes "loadEntries m es = Inr r" and "distinct (map e_name es)"
    and "\<forall>e \<in> set es. e_name e \<notin> fst ` set m"
  shows "(k, v) \<in> set r \<longleftrightarrow> (k, v) \<in> set m \<or>
    (\<exists>e \<in> set es. e_name e = k \<and> \<not> skippedEntry e \<and> loadEntry e = Inr (Some v))"
  using assms
proof (induction m es rule: loadEntries.induct)
  case (2 m e es)
  consider "skippedEntry e" | err where "\<not> skippedEntry e" "loadEntry e = Inl err"
    | "\<not> skippedEntry e" "loadEntry e = Inr None"
    | w where "\<not> skippedEntry e" "loadEntry e = Inr (Some w)"
    by (metis not_None_eq sumE)
  then show ?case
  proof cases
    case (4 w)
    let ?m = "m @ [(e_name e, w)]"
    from 2(6) have u: "AList.update (e_name e) w m = ?m" by (simp add: update_new_key)
    with 2(4) 4 have "loadEntries ?m es = Inr r" by simp
    moreover have "\<forall>e' \<in> set es. e_name e' \<notin> fst ` set ?m" using 2(5,6) by (auto simp: image_iff)
    ultimately have "(k, v) \<in> set r \<longleftrightarrow> (k, v) \<in> set ?m \<or>
        (\<exists>e \<in> set es. e_name e = k \<and> \<not> skippedEntry e \<and> loadEntry e = Inr (Some v))"
      using 2(3) [OF 4(1,2) refl] 2(5) u by simp
    then show ?thesis using 4 by auto
  qed (use 2 in auto)
qed simp

text \<open>
  C28: loading the envdir, exactly. The load succeeds if and only if every entry that is
  neither hidden nor of a special type could be opened as a regular file, read and closed: one
  failing entry fails the whole load, so a worker never starts on part of an environment. The
  loaded map then has a variable \<open>k\<close> with value \<open>v\<close> if and only if the directory has such an
  entry of the name \<open>k\<close> whose first line is \<open>v\<close>; a file that is empty, or whose first line is
  longer than 128 KiB, gives no variable, and a last line without a newline counts as a line.
\<close>

theorem reloadEnv_exact:
  assumes "dn \<noteq> []" and "readDir dn = Inr es" and "distinct (map e_name es)"
  shows "(isOk (reloadEnv readDir dn) \<longleftrightarrow>
      (\<forall>e \<in> set es. skippedEntry e \<or> openEnvFile e = None \<and> e_readErr e = None \<and> e_closeErr e = None)) \<and>
    (\<forall>m. reloadEnv readDir dn = Inr m \<longrightarrow> distinct_keys m \<and>
      (\<forall>k v. (k, v) \<in> set m \<longleftrightarrow>
         (\<exists>e \<in> set es. e_name e = k \<and> \<not> skippedEntry e \<and> loadedValue (e_data e) v)))"
proof -
  have l: "reloadEnv readDir dn = loadEntries [] es" using assms(1,2) by (simp add: reloadEnv_def)
  have "(k, v) \<in> set m \<longleftrightarrow> (\<exists>e \<in> set es. e_name e = k \<and> \<not> skippedEntry e \<and> loadedValue (e_data e) v)"
    if "loadEntries [] es = Inr m" for m k v
  proof -
    from that loadEntries_isOk [of "[]" es]
    have "\<forall>e \<in> set es. skippedEntry e \<or> openEnvFile e = None \<and> e_readErr e = None \<and> e_closeErr e = None"
      by (simp add: loadEntry_isOk)
    with loadEntries_set [OF that assms(3)] show ?thesis by (auto simp: loadEntry_stores)
  qed
  moreover have "distinct_keys m" if "loadEntries [] es = Inr m" for m
    using loadEntries_distinct [OF that] by simp
  ultimately show ?thesis unfolding l loadEntries_isOk loadEntry_isOk by blast
qed

definition plainEntry :: "string \<Rightarrow> string \<Rightarrow> envEntry" where
  "plainEntry name data = \<lparr>e_name = name, e_irregular = False, e_openErr = None, e_statErr = None,
     e_statRegular = True, e_data = data, e_readErr = None, e_closeErr = None\<rparr>"

theorem reloadEnv_exact_witness:
  "\<exists>m. reloadEnv (\<lambda>_. Inr [plainEntry ''HOST'' (''db'' @ [CHR 0x0A] @ ''x''), plainEntry ''.skip'' ''y'']) ''env'' = Inr m \<and>
     (''HOST'', ''db'') \<in> set m \<and> distinct_keys m \<and> \<not> isOk (reloadEnv
       (\<lambda>_. Inr [plainEntry ''HOST'' ''db'', (plainEntry ''PORT'' ''1'') \<lparr>e_openErr := Some ''denied''\<rparr>]) ''env'')"
proof -
  let ?rd = "\<lambda>_::string. Inr [plainEntry ''HOST'' (''db'' @ [CHR 0x0A] @ ''x''), plainEntry ''.skip'' ''y''] :: string + envEntry list"
  let ?bad = "\<lambda>_::string. Inr [plainEntry ''HOST'' ''db'', (plainEntry ''PORT'' ''1'') \<lparr>e_openErr := Some ''denied''\<rparr>] :: string + envEntry list"
  have h: "reloadEnv ?rd ''env'' = Inr [(''HOST'', ''db'')]" by code_simp
  have "loadedValue (''db'' @ [CHR 0x0A] @ ''x'') ''db''" by (simp add: loadedValue_def maxEnvValueBytes_def)
  then have "distinct_keys [(''HOST'', ''db'')] \<and> (''HOST'', ''db'') \<in> set [(''HOST'', ''db'')]"
    using reloadEnv_exact [of "''env''" ?rd, OF _ refl] h by (simp add: plainEntry_def)
  moreover have "\<not> isOk (reloadEnv ?bad ''env'')"
    using reloadEnv_exact [of "''env''" ?bad, OF _ refl]
    by (simp add: plainEntry_def skippedEntry_def openEnvFile_def hasPrefix_def)
  ultimately show ?thesis using h by blast
qed

subsection \<open>The worker's environment block\<close>

lemma map_of_mapsCopy: "distinct_keys src \<Longrightarrow> map_of (mapsCopy dst src) k =
    (case map_of src k of Some v \<Rightarrow> Some v | None \<Rightarrow> map_of dst k)"
  unfolding mapsCopy_def
proof (induction src arbitrary: dst)
  case (Cons kv src)
  obtain a b where kv: "kv = (a, b)" by (cases kv)
  with Cons.prems have "map_of src a = None" by (simp add: map_of_eq_None_iff)
  with Cons kv show ?case by (auto simp: update_conv' split: option.splits)
qed simp

lemma keys_mapsCopy: "fst ` set (mapsCopy dst src) = fst ` set src \<union> fst ` set dst"
  unfolding mapsCopy_def
proof (induction src arbitrary: dst)
  case (Cons kv src)
  obtain a b where "kv = (a, b)" by (cases kv)
  with Cons [of "AList.update a b dst"] show ?case by (simp add: keys_update)
qed simp

lemma distinct_mapsCopy: "distinct_keys dst \<Longrightarrow> distinct_keys (mapsCopy dst src)"
  unfolding mapsCopy_def by (induction src arbitrary: dst) auto

lemma fold_environ_invariant:
  assumes "P m0" and "\<And>k v m. P m \<Longrightarrow> CHR ''='' \<notin> set k \<Longrightarrow> k \<noteq> daemonReadyFDEnv \<Longrightarrow> P (AList.update k v m)"
  shows "P (fold (\<lambda>kv m. case goCut (CHR ''='') kv of
       Some (k, v) \<Rightarrow> if k = daemonReadyFDEnv then m else AList.update k v m | None \<Rightarrow> m) environ m0)"
  using assms
  by (induction environ arbitrary: m0) (auto simp: goCut_Some split: option.splits)

lemma mergeEnviron_distinct: "distinct_keys (mergeEnviron environ)"
  unfolding mergeEnviron_def by (rule fold_environ_invariant) simp_all

lemma mergeEnviron_keys:
  "\<forall>k \<in> fst ` set (mergeEnviron environ). CHR ''='' \<notin> set k \<and> k \<noteq> daemonReadyFDEnv"
  unfolding mergeEnviron_def
  by (rule fold_environ_invariant
      [where P = "\<lambda>m. \<forall>k \<in> fst ` set m. CHR ''='' \<notin> set k \<and> k \<noteq> daemonReadyFDEnv"])
     (simp_all add: keys_update)

abbreviation entryText :: "string \<times> string \<Rightarrow> string" where
  "entryText \<equiv> \<lambda>(k, v). k @ ''='' @ v"

lemma lookupEnviron_member:
  assumes "distinct (map fst m)" and "\<forall>(k, v) \<in> set m. CHR ''='' \<notin> set k"
  shows "lookupEnviron (map entryText m) k = map_of m k"
  using assms by (induction m) (auto simp: goCut_append)

lemma mset_map_preimage: "mset xs = image_mset f M \<Longrightarrow> \<exists>ys. xs = map f ys \<and> mset ys = M"
proof (induction xs arbitrary: M)
  case (Cons x xs)
  then have "image_mset f M = add_mset x (mset xs)" by simp
  then obtain M' a where m: "M = add_mset a M'" "f a = x" "image_mset f M' = mset xs"
    by (metis msed_map_invR)
  with Cons.IH [of M'] obtain ys where "xs = map f ys" "mset ys = M'" by auto
  with m show ?case by (intro exI [of _ "a # ys"]) simp
qed simp

lemma lookupEnviron_perm:
  assumes "mset kvs = mset (map entryText m)" and d: "distinct_keys m"
    and "\<forall>k \<in> fst ` set m. CHR ''='' \<notin> set k"
  shows "lookupEnviron kvs = map_of m"
proof -
  from assms(1) have "mset kvs = image_mset entryText (mset m)" by simp
  from mset_map_preimage [OF this] obtain m' where kvs: "kvs = map entryText m'" and p: "mset m' = mset m" by blast
  from p have s: "set m' = set m" by (rule mset_eq_setD)
  from p d have d': "distinct_keys m'"
    unfolding distinct_keys_def by (metis mset_eq_imp_distinct_iff mset_map)
  have "lookupEnviron kvs k = map_of m' k" for k
    unfolding kvs using d' assms(3) s by (intro lookupEnviron_member) (auto simp: distinct_keys_def)
  moreover have "map_of m' = map_of m"
    using s d d' by (simp add: map_of_inject_set distinct_keys_def)
  ultimately show ?thesis by (intro ext) simp
qed

lemma protocol_no_eq:
  "CHR ''='' \<notin> set PortEnvName" "CHR ''='' \<notin> set SocketTypesEnvName" "CHR ''='' \<notin> set GenerationEnvName"
  by (simp_all add: PortEnvName_def SocketTypesEnvName_def GenerationEnvName_def)

lemma workerEnv_lookup:
  assumes "distinct_keys overlay" and "\<forall>k \<in> fst ` set overlay. CHR ''='' \<notin> set k"
    and "mset kvs = mset (buildWorkerEnv environ overlay portSpec socketTypes generation)"
  shows "lookupEnviron kvs = (\<lambda>k.
    if k = GenerationEnvName then Some (itoa generation)
    else if k = SocketTypesEnvName then Some socketTypes
    else if k = PortEnvName then Some portSpec
    else case map_of overlay k of Some v \<Rightarrow> Some v | None \<Rightarrow> map_of (mergeEnviron environ) k)"
proof -
  let ?m = "AList.update GenerationEnvName (itoa generation) (AList.update SocketTypesEnvName socketTypes
      (AList.update PortEnvName portSpec (mapsCopy (mergeEnviron environ) overlay)))"
  have "distinct_keys ?m" using mergeEnviron_distinct by (simp add: distinct_mapsCopy)
  moreover have "\<forall>k \<in> fst ` set ?m. CHR ''='' \<notin> set k"
    using assms(2) mergeEnviron_keys protocol_no_eq by (auto simp: keys_update keys_mapsCopy)
  ultimately have "lookupEnviron kvs = map_of ?m"
    using assms(3) unfolding buildWorkerEnv_def Let_def by (intro lookupEnviron_perm)
  then show ?thesis
    using assms(1) by (auto simp: fun_eq_iff update_conv' map_of_mapsCopy)
qed

text \<open>
  The environment of a worker. Whatever order the merged map is flattened in, the worker
  sees the three protocol variables as the supervisor computed them, then the envdir, then the
  supervisor's own environment, and never the descriptor of the daemon's readiness pipe unless
  the envdir sets it. The envdir's names must be free of \<open>=\<close>.
\<close>

theorem worker_environment:
  assumes "distinct_keys overlay" and "\<forall>k \<in> fst ` set overlay. CHR ''='' \<notin> set k"
    and "mset kvs = mset (buildWorkerEnv environ overlay portSpec socketTypes generation)"
  shows "lookupEnviron kvs PortEnvName = Some portSpec \<and>
    lookupEnviron kvs SocketTypesEnvName = Some socketTypes \<and>
    lookupEnviron kvs GenerationEnvName = Some (itoa generation) \<and>
    (\<forall>k. k \<notin> {PortEnvName, SocketTypesEnvName, GenerationEnvName} \<longrightarrow>
       lookupEnviron kvs k = (case map_of overlay k of Some v \<Rightarrow> Some v
                              | None \<Rightarrow> map_of (mergeEnviron environ) k)) \<and>
    (daemonReadyFDEnv \<notin> fst ` set overlay \<longrightarrow> lookupEnviron kvs daemonReadyFDEnv = None)"
proof -
  have "map_of (mergeEnviron environ) daemonReadyFDEnv = None"
    using mergeEnviron_keys [of environ] by (auto simp: map_of_eq_None_iff)
  moreover have "daemonReadyFDEnv \<notin> {PortEnvName, SocketTypesEnvName, GenerationEnvName}"
    by (simp add: daemonReadyFDEnv_def PortEnvName_def SocketTypesEnvName_def GenerationEnvName_def)
  ultimately show ?thesis
    unfolding workerEnv_lookup [OF assms]
    by (auto simp: map_of_eq_None_iff split: option.splits) (force dest: map_of_SomeD)
qed

theorem worker_environment_witness:
  "lookupEnviron (rev (buildWorkerEnv [''A=1'', ''B=2'', ''SERVER_STARTER_DAEMON_READY_FD=3'']
      [(''B'', ''9''), (''SERVER_STARTER_PORT'', ''x'')] ''80=3'' ''3=tcp'' 7)) PortEnvName = Some ''80=3'' \<and>
   lookupEnviron (rev (buildWorkerEnv [''A=1'', ''B=2'', ''SERVER_STARTER_DAEMON_READY_FD=3'']
      [(''B'', ''9''), (''SERVER_STARTER_PORT'', ''x'')] ''80=3'' ''3=tcp'' 7)) daemonReadyFDEnv = None"
proof -
  let ?o = "[(''B'', ''9''), (''SERVER_STARTER_PORT'', ''x'')]"
  have "distinct_keys ?o" and "\<forall>k \<in> fst ` set ?o. CHR ''='' \<notin> set k"
    and "daemonReadyFDEnv \<notin> fst ` set ?o" by (simp_all add: daemonReadyFDEnv_def)
  from worker_environment [OF this(1,2) mset_rev] this(3) show ?thesis by blast
qed

lemma worker_handoff:
  assumes "ls \<noteq> []" and "distinct (map Fd ls)" and "\<forall>l \<in> set ls. wfListener l"
    and "FormatPorts ls = Inr portSpec" and "FormatSocketTypes ls = Inr socketTypes"
    and "distinct_keys overlay" and "\<forall>k \<in> fst ` set overlay. CHR ''='' \<notin> set k"
    and "0 \<le> generation" and "generation < 2 ^ 63"
    and "mset kvs = mset (buildWorkerEnv environ overlay portSpec socketTypes generation)"
  shows "Ports (lookupEnviron kvs) = Inr ls \<and> IsUnderStartServer (lookupEnviron kvs) \<and>
    Generation (lookupEnviron kvs) = (generation, True)"
proof -
  note env = workerEnv_lookup [OF assms(6,7,10)]
  have "Ports (lookupEnviron kvs) = Inr ls"
    using assms(4,5) env by (intro Ports_encoded [OF assms(1-3)]) simp_all
  moreover have "atoi (itoa generation) = Inr generation"
    using assms(8,9) by (simp add: atoi_def parseInt_itoa)
  ultimately show ?thesis by (simp add: env IsUnderStartServer_def Generation_def)
qed

text \<open>
  The whole hand-over. A worker started with listeners that are well formed and have
  distinct descriptors finds in its environment, in whatever order it was flattened, exactly
  those listeners, the fact that it runs under the supervisor, and its generation number.
\<close>

theorem worker_reads_back:
  assumes "ls \<noteq> []" and "distinct (map Fd ls)" and "\<forall>l \<in> set ls. wfListener l"
    and "FormatPorts ls = Inr portSpec" and "FormatSocketTypes ls = Inr socketTypes"
    and "distinct_keys overlay" and "\<forall>k \<in> fst ` set overlay. CHR ''='' \<notin> set k"
    and "0 \<le> generation" and "generation < 2 ^ 63"
    and "mset kvs = mset (buildWorkerEnv environ overlay portSpec socketTypes generation)"
  shows "Ports (lookupEnviron kvs) = Inr ls \<and> IsUnderStartServer (lookupEnviron kvs) \<and>
    Generation (lookupEnviron kvs) = (generation, True)"
  using assms by (rule worker_handoff)

theorem worker_reads_back_witness:
  "\<exists>p t. FormatPorts [TCPListener ''db'' 80 3] = Inr p \<and> FormatSocketTypes [TCPListener ''db'' 80 3] = Inr t \<and>
     Ports (lookupEnviron (buildWorkerEnv [''A=1''] [(''B'', ''2'')] p t 5)) = Inr [TCPListener ''db'' 80 3] \<and>
     Generation (lookupEnviron (buildWorkerEnv [''A=1''] [(''B'', ''2'')] p t 5)) = (5, True)"
proof -
  let ?ls = "[TCPListener ''db'' 80 3]"
  have wf: "\<forall>l \<in> set ?ls. wfListener l" and d: "distinct (map Fd ?ls)" "?ls \<noteq> []"
    by (simp, code_simp) simp_all
  have p: "FormatPorts ?ls = Inr ''db:80=3''" and t: "FormatSocketTypes ?ls = Inr ''3=tcp''" by code_simp+
  show ?thesis
    using worker_reads_back [OF d(2,1) wf p t, of "[(''B'', ''2'')]" 5 _ "[''A=1'']"] p t by simp
qed

text \<open>
  A name with \<open>=\<close> in the envdir breaks the claim that every variable appears once: a file
  named \<open>SERVER_STARTER_PORT=x\<close> adds a second entry for the protocol variable, and which of the
  two counts depends on the order in which the map is flattened.
\<close>

lemma envdir_name_with_eq_shadows:
  "lookupEnviron (rev (buildWorkerEnv [] [(''SERVER_STARTER_GENERATION=0'', ''z'')] [] [] 7)) GenerationEnvName = Some ''7'' \<and>
   lookupEnviron (buildWorkerEnv [] [(''SERVER_STARTER_GENERATION=0'', ''z'')] [] [] 7) GenerationEnvName = Some ''0=z''"
  by code_simp

end
