(* ===== verification/Worker.thy ===== *)
theory Worker
  imports Starter EnvDir
begin

text \<open>
  Starting a worker (\<open>internal/supervisor/worker.go\<close> with \<open>worker_unix.go\<close>,
  \<open>worker_windows.go\<close> and \<open>worker_error_*.go\<close>): which launch errors end the supervisor, the
  descriptors a worker inherits, and the start loop with its retries, probes and early exits.
\<close>

subsection \<open>Launch errors\<close>

text \<open>
  The errors the policies name. A launch error is known by the ones \<open>errors.Is\<close> finds in it and
  by the operation of its \<open>os.PathError\<close>, if it is one.
\<close>

datatype osErr =
    ExecErrNotFound | ExecErrDot | OsErrNotExist | OsErrPermission | EINVAL | ENOEXEC | ENOTDIR | ELOOP
  | ENAMETOOLONG | E2BIG | EISDIR | ELIBBAD | EIO | EBADEXEC | EBADARCH | ESHLIBVERS | EBADMACHO
  | ERROR_BAD_EXE_FORMAT | ERROR_DIRECTORY | ERROR_INVALID_PARAMETER | ERROR_FILENAME_EXCED_RANGE
  | ERROR_EXE_MACHINE_TYPE_MISMATCH | ERROR_ELEVATION_REQUIRED | OtherErr string

record launchErr =
  le_is :: "osErr list"
  le_op :: "string option"

record workerStartErrorPolicy =
  terminalErrors :: "osErr list"
  inspect :: "(string \<Rightarrow> string \<Rightarrow> launchErr \<Rightarrow> bool) option"

definition isTerminal :: "workerStartErrorPolicy \<Rightarrow> string \<Rightarrow> string \<Rightarrow> launchErr \<Rightarrow> bool" where
  "isTerminal p cmd d err \<longleftrightarrow>
     list_ex (\<lambda>t. t \<in> set (le_is err)) (terminalErrors p) \<or>
     (case inspect p of None \<Rightarrow> False | Some f \<Rightarrow> f cmd d err)"

definition commonWorkerStartErrorPolicy :: workerStartErrorPolicy where
  "commonWorkerStartErrorPolicy =
     \<lparr>terminalErrors = [ExecErrNotFound, ExecErrDot, OsErrNotExist, OsErrPermission, EINVAL, ENOEXEC,
        ENOTDIR, ELOOP, ENAMETOOLONG, E2BIG],
      inspect = None\<rparr>"

text \<open>
  Inspecting an executable on Linux. \<open>elfOpen\<close> stands for \<open>elf.Open\<close>: the program headers with
  the bytes of a segment, if they can be read; \<open>openInterp\<close> for \<open>os.Open\<close> and \<open>elf.NewFile\<close> on the
  interpreter: the errors its reads gave and the error of the parser.
\<close>

datatype elfErr = ElfEOF | ElfUnexpectedEOF | ElfFormatError | ElfOtherErr

record elfProg =
  p_isInterp :: bool
  p_data :: "string option"

record elfProbe =
  p_reads :: "elfErr option list"
  p_newFile :: "elfErr option"

definition elfReadFailed :: "elfErr option list \<Rightarrow> bool" where
  "elfReadFailed reads =
     list_ex (\<lambda>r. case r of None \<Rightarrow> False | Some e \<Rightarrow> e \<noteq> ElfEOF \<and> e \<noteq> ElfUnexpectedEOF) reads"

definition malformedELF :: "elfProbe \<Rightarrow> bool" where
  "malformedELF p =
     (case p_newFile p of
        None \<Rightarrow> False
      | Some e \<Rightarrow> \<not> elfReadFailed (p_reads p) \<and> e \<in> {ElfEOF, ElfUnexpectedEOF, ElfFormatError})"

definition workerELFInterpreter :: "(string \<Rightarrow> elfProg list option) \<Rightarrow> string \<Rightarrow> string \<Rightarrow> string option" where
  "workerELFInterpreter elfOpen cmd d =
     (let path = (if \<not> isAbsPath cmd \<and> d \<noteq> [] then filepathJoin d cmd else cmd) in
      case elfOpen path of
        None \<Rightarrow> None
      | Some progs \<Rightarrow>
          (case List.find p_isInterp progs of
             None \<Rightarrow> None
           | Some prog \<Rightarrow>
               (case p_data prog of
                  None \<Rightarrow> None
                | Some data \<Rightarrow>
                    (case goCut (CHR 0x00) data of
                       None \<Rightarrow> None
                     | Some (name, _) \<Rightarrow> if name = [] then None else Some name))))"

definition terminalLinuxEIOWorkerStartError ::
  "(string \<Rightarrow> elfProg list option) \<Rightarrow> (string \<Rightarrow> elfProbe option) \<Rightarrow>
     string \<Rightarrow> string \<Rightarrow> launchErr \<Rightarrow> bool" where
  "terminalLinuxEIOWorkerStartError elfOpen openInterp cmd d err =
     (if le_op err \<noteq> Some ''fork/exec'' \<or> EIO \<notin> set (le_is err) then False
      else (case workerELFInterpreter elfOpen cmd d of
              None \<Rightarrow> False
            | Some interpreter \<Rightarrow>
                (case openInterp (if isAbsPath interpreter then interpreter else filepathJoin d interpreter) of
                   None \<Rightarrow> False
                 | Some probe \<Rightarrow> malformedELF probe)))"

datatype platform = Linux | Darwin | OtherUnix | Windows

definition darwinWorkerStartErrorPolicy :: workerStartErrorPolicy where
  "darwinWorkerStartErrorPolicy = \<lparr>terminalErrors = [EBADEXEC, EBADARCH, ESHLIBVERS, EBADMACHO], inspect = None\<rparr>"

definition otherUnixWorkerStartErrorPolicy :: workerStartErrorPolicy where
  "otherUnixWorkerStartErrorPolicy = \<lparr>terminalErrors = [], inspect = None\<rparr>"

definition windowsWorkerStartErrorPolicy :: workerStartErrorPolicy where
  "windowsWorkerStartErrorPolicy =
     \<lparr>terminalErrors = [ERROR_BAD_EXE_FORMAT, ERROR_DIRECTORY, ERROR_INVALID_PARAMETER,
        ERROR_FILENAME_EXCED_RANGE, ERROR_EXE_MACHINE_TYPE_MISMATCH, ERROR_ELEVATION_REQUIRED],
      inspect = None\<rparr>"

definition platformWorkerStartErrorPolicy ::
  "(string \<Rightarrow> elfProg list option) \<Rightarrow> (string \<Rightarrow> elfProbe option) \<Rightarrow> platform \<Rightarrow> workerStartErrorPolicy" where
  "platformWorkerStartErrorPolicy elfOpen openInterp pl =
     (case pl of
        Linux \<Rightarrow> \<lparr>terminalErrors = [EISDIR, ELIBBAD],
                  inspect = Some (terminalLinuxEIOWorkerStartError elfOpen openInterp)\<rparr>
      | Darwin \<Rightarrow> darwinWorkerStartErrorPolicy
      | OtherUnix \<Rightarrow> otherUnixWorkerStartErrorPolicy
      | Windows \<Rightarrow> windowsWorkerStartErrorPolicy)"

definition terminalWorkerStartError ::
  "workerStartErrorPolicy \<Rightarrow> string \<Rightarrow> string \<Rightarrow> launchErr \<Rightarrow> bool" where
  "terminalWorkerStartError platformPolicy cmd d err \<longleftrightarrow>
     isTerminal commonWorkerStartErrorPolicy cmd d err \<or> isTerminal platformPolicy cmd d err"

subsection \<open>Waiting\<close>

definition minimumCheckedStartupInterval :: duration where
  "minimumCheckedStartupInterval = second"

definition minimumWorkerStartRetryDelay :: duration where
  "minimumWorkerStartRetryDelay = 100000000"

definition workerStartRetryDelay :: "duration \<Rightarrow> duration" where
  "workerStartRetryDelay i = (if i < minimumWorkerStartRetryDelay then minimumWorkerStartRetryDelay else i)"

text \<open>
  The context as the time, on the clock of one wait, at which it is cancelled, if ever. A timer
  and a cancellation at the same time leave the choice of \<open>select\<close> open; \<open>preferTimer\<close> is it.
\<close>

record waitCtx =
  cancelAt :: "duration option"
  preferTimer :: bool

definition timerWins :: "waitCtx \<Rightarrow> duration \<Rightarrow> bool" where
  "timerWins ctx d =
     (case cancelAt ctx of None \<Rightarrow> True | Some c \<Rightarrow> if c = d then preferTimer ctx else d < c)"

text \<open>\<open>True\<close> means that the probe's wait ended undisturbed, \<open>False\<close> that the context ended it.\<close>

definition waitForProbe :: "bool \<Rightarrow> waitCtx \<Rightarrow> duration \<Rightarrow> bool" where
  "waitForProbe checked ctx i =
     (if (case cancelAt ctx of Some c \<Rightarrow> c \<le> 0 | None \<Rightarrow> False) then False
      else timerWins ctx (if checked \<and> i < minimumCheckedStartupInterval
                          then minimumCheckedStartupInterval else i))"

definition waitForWorkerStartRetry :: "waitCtx \<Rightarrow> duration \<Rightarrow> bool" where
  "waitForWorkerStartRetry ctx i = timerWins ctx (workerStartRetryDelay i)"

subsection \<open>Exit states\<close>

definition failureStatus :: int where "failureStatus = 255"

definition successStatus :: int where "successStatus = 0"

text \<open>The wait status of a process state, \<open>None\<close> where the platform does not provide one.\<close>

definition grabExitStatus :: "int option \<Rightarrow> int" where
  "grabExitStatus st = (case st of Some s \<Rightarrow> s | None \<Rightarrow> failureStatus)"

text \<open>What the goroutine that waits for a worker reports: an exit state, an error, or success.\<close>

datatype waitResult = ExitErr pid "int option" | WaitErr | WaitOk

definition reportedState :: "pid \<Rightarrow> waitResult \<Rightarrow> pid \<times> int option" where
  "reportedState pid r =
     (case r of
        ExitErr p st \<Rightarrow> (p, st)
      | WaitErr \<Rightarrow> (pid, Some failureStatus)
      | WaitOk \<Rightarrow> (pid, Some successStatus))"

text \<open>
  \<open>findWorker\<close>: on Unix a positive result of \<open>wait4\<close> means the worker is gone and gives its
  status, and \<open>os.FindProcess\<close> never fails; on Windows only \<open>os.FindProcess\<close> decides.
\<close>

record probeAnswer =
  wait4 :: "int \<times> int"
  findProcessOk :: bool

definition findWorker_unix :: "pid \<Rightarrow> probeAnswer \<Rightarrow> pid option \<times> int \<times> bool" where
  "findWorker_unix pid a =
     (case wait4 a of
        (waitpid, wstatus) \<Rightarrow> if waitpid > 0 then (None, wstatus, True) else (Some pid, 0, False))"

definition findWorker_windows :: "pid \<Rightarrow> probeAnswer \<Rightarrow> pid option \<times> int \<times> bool" where
  "findWorker_windows pid a = (if findProcessOk a then (Some pid, 0, False) else (None, 0, False))"

definition findWorker :: "platform \<Rightarrow> pid \<Rightarrow> probeAnswer \<Rightarrow> pid option \<times> int \<times> bool" where
  "findWorker pl pid a = (if pl = Windows then findWorker_windows pid a else findWorker_unix pid a)"

lemmas findWorker_defs = findWorker_def findWorker_unix_def findWorker_windows_def

definition reportFailedStart :: "int \<Rightarrow> bool \<Rightarrow> int option option \<Rightarrow> int \<times> bool" where
  "reportFailedStart reapedStatus reapedOK ps =
     (if reapedOK then (reapedStatus, True)
      else (case ps of
              Some st \<Rightarrow> (grabExitStatus st, True)
            | None \<Rightarrow> (successStatus, False)))"

subsection \<open>The descriptors of a worker\<close>

text \<open>
  The files of one start: the null device opened for a slot, or the duplicate of a listener.
  The log records every open and close.
\<close>

datatype workerFile = NullFile nat | ListenerFile nat

datatype fileOp = FOpen workerFile | FClose workerFile

datatype start_error =
    StartCtx
  | StartPadding string
  | StartDuplicate string
  | StartFormat format_error
  | StartTypes types_error
  | StartTerminal launchErr
  | StartEarlyExit pid "int option"

definition closeWorkerFiles :: "workerFile option list \<Rightarrow> fileOp list" where
  "closeWorkerFiles files = map (\<lambda>f. FClose (the f)) (filter (\<lambda>f. f \<noteq> None) files)"

definition maxDescriptor :: "int list \<Rightarrow> int" where
  "maxDescriptor descriptors = fold (\<lambda>fd m. if fd > m then fd else m) descriptors 2"

text \<open>The padding loop from a slot upwards; the files opened so far are those below it.\<close>

fun openPadding :: "(nat \<Rightarrow> string option) \<Rightarrow> nat \<Rightarrow> nat \<Rightarrow> fileOp list \<times> (start_error + workerFile option list)" where
  "openPadding nullErr slot 0 = ([], Inr (map (\<lambda>i. Some (NullFile i)) [0..<slot]))"
| "openPadding nullErr slot (Suc n) =
     (case nullErr slot of
        Some e \<Rightarrow> (closeWorkerFiles (map (\<lambda>i. Some (NullFile i)) [0..<slot]), Inl (StartPadding e))
      | None \<Rightarrow>
          (case openPadding nullErr (Suc slot) n of
             (ops, r) \<Rightarrow> (FOpen (NullFile slot) # ops, r)))"

text \<open>The duplication loop: the null device of a listener's slot gives way to the listener.\<close>

fun placeListeners ::
  "(nat \<Rightarrow> string option) \<Rightarrow> nat \<Rightarrow> listener list \<Rightarrow> int list \<Rightarrow> workerFile option list \<Rightarrow>
     fileOp list \<times> (start_error + workerFile option list)" where
  "placeListeners dupErr i [] descriptors files = ([], Inr files)"
| "placeListeners dupErr i (l # ls) descriptors files =
     (case (if l_listener l = None \<and> l_packet l = None then Some ''unknown listener type'' else dupErr i) of
        Some e \<Rightarrow> (closeWorkerFiles files, Inl (StartDuplicate e))
      | None \<Rightarrow>
          let slot = nat (descriptors ! i - 3) in
          (case placeListeners dupErr (Suc i) ls descriptors (files[slot := Some (ListenerFile i)]) of
             (ops, r) \<Rightarrow> (FOpen (ListenerFile i) # closeWorkerFiles [files ! slot] @ ops, r)))"

definition portListOf :: "listener list \<Rightarrow> int list \<Rightarrow> Listener list" where
  "portListOf ls descriptors = map (\<lambda>(l, d). starterListener l d) (zip ls descriptors)"

text \<open>The two protocol values, or the error that ends the start.\<close>

definition formatPortList :: "Listener list \<Rightarrow> start_error + (string \<times> string)" where
  "formatPortList portList =
     (if portList = [] then Inr ([], [])
      else (case FormatPorts portList of
              Inl e \<Rightarrow> Inl (StartFormat e)
            | Inr portSpec \<Rightarrow>
                (case FormatSocketTypes portList of
                   Inl e \<Rightarrow> Inl (StartTypes e)
                 | Inr socketTypes \<Rightarrow> Inr (portSpec, socketTypes))))"

subsection \<open>The start loop\<close>

text \<open>What the operating system and the context answer during one round.\<close>

record attempt =
  a_ctxErr :: bool
  a_nullErr :: "nat \<Rightarrow> string option"
  a_dupErr :: "nat \<Rightarrow> string option"
  a_environ :: "string list"
  a_start :: "launchErr + pid"
  a_retryCtx :: waitCtx
  a_probeCtx :: waitCtx
  a_probe :: probeAnswer
  a_waited :: "int option option"
  a_ctxErrEnd :: bool

text \<open>What a worker is started with: the command, the extra files and the environment.\<close>

record spawn =
  sp_path :: string
  sp_args :: "string list"
  sp_dir :: string
  sp_files :: "workerFile option list"
  sp_env :: "string list"
  sp_generation :: int

datatype outcome = Returned "start_error + pid" | Again

record round =
  r_outcome :: outcome
  r_generation :: int
  r_files :: "fileOp list"
  r_spawn :: "spawn option"

definition setupFiles ::
  "attempt \<Rightarrow> listener list \<Rightarrow> int list \<Rightarrow> fileOp list \<times> (start_error + workerFile option list)" where
  "setupFiles a ls descriptors =
     (case openPadding (a_nullErr a) 0 (nat (maxDescriptor descriptors - 2)) of
        (ops, Inl e) \<Rightarrow> (ops, Inl e)
      | (ops, Inr files) \<Rightarrow>
          (case placeListeners (a_dupErr a) 0 ls descriptors files of
             (ops', r) \<Rightarrow> (ops @ ops', r)))"

text \<open>What follows \<open>cmd.Start\<close>: retry, probe, early exit.\<close>

definition afterStart :: "Starter \<Rightarrow> platform \<Rightarrow> workerStartErrorPolicy \<Rightarrow> bool \<Rightarrow> string \<Rightarrow> attempt \<Rightarrow> outcome" where
  "afterStart s pl policy checked path a =
     (case a_start a of
        Inl err \<Rightarrow>
          if terminalWorkerStartError policy path (dir s) err then Returned (Inl (StartTerminal err))
          else if \<not> waitForWorkerStartRetry (a_retryCtx a) (interval s) then Returned (Inl StartCtx)
          else Again
      | Inr pid \<Rightarrow>
          (let (p, reapedStatus, reapedOK) =
                 (if \<not> waitForProbe checked (a_probeCtx a) (interval s) then (Some pid, 0, False)
                  else findWorker pl pid (a_probe a))
           in case p of
                Some q \<Rightarrow> Returned (Inr q)
              | None \<Rightarrow>
                  (case reportFailedStart reapedStatus reapedOK (a_waited a) of
                     (status, statusOK) \<Rightarrow>
                       if checked then Returned (Inl (StartEarlyExit pid (if statusOK then Some status else None)))
                       else if a_ctxErrEnd a then Returned (Inl StartCtx)
                       else Again)))"

definition startRound ::
  "Starter \<Rightarrow> platform \<Rightarrow> workerStartErrorPolicy \<Rightarrow> bool \<Rightarrow> listener list \<Rightarrow> int list \<Rightarrow>
     (string \<times> string) list \<Rightarrow> (string \<Rightarrow> string) \<Rightarrow> int \<Rightarrow> attempt \<Rightarrow> round" where
  "startRound s pl policy checked ls descriptors overlay lookCmd generation a =
     (if a_ctxErr a then
        \<lparr>r_outcome = Returned (Inl StartCtx), r_generation = generation, r_files = [], r_spawn = None\<rparr>
      else (case setupFiles a ls descriptors of
        (ops, Inl e) \<Rightarrow>
          \<lparr>r_outcome = Returned (Inl e), r_generation = generation, r_files = ops, r_spawn = None\<rparr>
      | (ops, Inr files) \<Rightarrow>
          (case formatPortList (portListOf ls descriptors) of
             Inl e \<Rightarrow>
               \<lparr>r_outcome = Returned (Inl e), r_generation = generation,
                r_files = ops @ closeWorkerFiles files, r_spawn = None\<rparr>
           | Inr (portSpec, socketTypes) \<Rightarrow>
               let gen = generation + 1;
                   path = (if commandPath s \<noteq> [] then commandPath s else lookCmd (command s))
               in \<lparr>r_outcome = afterStart s pl policy checked path a, r_generation = gen,
                   r_files = ops @ closeWorkerFiles files,
                   r_spawn = Some \<lparr>sp_path = path, sp_args = args s, sp_dir = dir s, sp_files = files,
                     sp_env = buildWorkerEnv (a_environ a) overlay portSpec socketTypes gen,
                     sp_generation = gen\<rparr>\<rparr>)))"

text \<open>
  The loop over the rounds. \<open>None\<close> means that the loop is still going when the given answers are
  used up. \<open>lookCmd\<close> stands for the path that \<open>exec.CommandContext\<close> derives from the command.
\<close>

record startResult =
  st_result :: "start_error + pid"
  st_generation :: int
  st_rounds :: "round list"

fun startWorker ::
  "Starter \<Rightarrow> platform \<Rightarrow> workerStartErrorPolicy \<Rightarrow> bool \<Rightarrow> listener list \<Rightarrow> int list \<Rightarrow>
     (string \<times> string) list \<Rightarrow> (string \<Rightarrow> string) \<Rightarrow> int \<Rightarrow> attempt list \<Rightarrow> startResult option" where
  "startWorker s pl policy checked ls descriptors overlay lookCmd generation [] = None"
| "startWorker s pl policy checked ls descriptors overlay lookCmd generation (a # as) =
     (let r = startRound s pl policy checked ls descriptors overlay lookCmd generation a in
      case r_outcome r of
        Returned res \<Rightarrow> Some \<lparr>st_result = res, st_generation = r_generation r, st_rounds = [r]\<rparr>
      | Again \<Rightarrow>
          map_option (\<lambda>t. t\<lparr>st_rounds := r # st_rounds t\<rparr>)
            (startWorker s pl policy checked ls descriptors overlay lookCmd (r_generation r) as))"

subsection \<open>Files: lemmas\<close>

fun openedBy :: "fileOp list \<Rightarrow> workerFile list" where
  "openedBy [] = []"
| "openedBy (FOpen f # ops) = f # openedBy ops"
| "openedBy (FClose f # ops) = openedBy ops"

fun closedBy :: "fileOp list \<Rightarrow> workerFile list" where
  "closedBy [] = []"
| "closedBy (FOpen f # ops) = closedBy ops"
| "closedBy (FClose f # ops) = f # closedBy ops"

lemma openedBy_append [simp]: "openedBy (a @ b) = openedBy a @ openedBy b"
  by (induction a rule: openedBy.induct) auto

lemma closedBy_append [simp]: "closedBy (a @ b) = closedBy a @ closedBy b"
  by (induction a rule: closedBy.induct) auto

lemma opened_close [simp]: "openedBy (closeWorkerFiles fs) = []"
  by (induction fs) (auto simp: closeWorkerFiles_def)

lemma closed_close: "closedBy (closeWorkerFiles fs) = map the (filter (\<lambda>f. f \<noteq> None) fs)"
  by (induction fs) (auto simp: closeWorkerFiles_def)

definition heldFiles :: "workerFile option list \<Rightarrow> workerFile multiset" where
  "heldFiles fs = mset (map the (filter (\<lambda>f. f \<noteq> None) fs))"

lemma heldFiles_simps [simp]:
  "heldFiles [] = {#}" "heldFiles (None # fs) = heldFiles fs"
  "heldFiles (Some f # fs) = add_mset f (heldFiles fs)"
  "heldFiles (a @ b) = heldFiles a + heldFiles b"
  by (simp_all add: heldFiles_def)

lemma closed_held: "mset (closedBy (closeWorkerFiles fs)) = heldFiles fs"
  by (simp add: closed_close heldFiles_def)

lemma heldFiles_update:
  "k < length fs \<Longrightarrow> heldFiles (fs[k := Some f]) + heldFiles [fs ! k] = add_mset f (heldFiles fs)"
proof (induction fs arbitrary: k)
  case (Cons x fs)
  show ?case
  proof (cases k)
    case 0
    then show ?thesis by (cases x) auto
  next
    case (Suc j)
    with Cons show ?thesis by (cases x) auto
  qed
qed simp

lemma padding_balance:
  assumes "openPadding nullErr slot n = (ops, r)"
  shows "case r of
      Inl _ \<Rightarrow> mset (closedBy ops) = mset (openedBy ops) + heldFiles (map (\<lambda>i. Some (NullFile i)) [0..<slot])
    | Inr fs \<Rightarrow> fs = map (\<lambda>i. Some (NullFile i)) [0..<slot + n] \<and> closedBy ops = [] \<and>
        mset (openedBy ops) + heldFiles (map (\<lambda>i. Some (NullFile i)) [0..<slot]) = heldFiles fs"
  using assms
proof (induction nullErr slot n arbitrary: ops r rule: openPadding.induct)
  case (2 nullErr slot n)
  show ?case
  proof (cases "nullErr slot")
    case (Some e)
    with 2 show ?thesis by (auto simp: closed_held)
  next
    case None
    obtain ops' r' where o: "openPadding nullErr (Suc slot) n = (ops', r')" by (metis surj_pair)
    with 2(2) None have "ops = FOpen (NullFile slot) # ops'" "r = r'" by auto
    with 2(1) [OF None o] show ?thesis by (auto split: sum.splits)
  qed
qed simp

lemma mset_shift:
  fixes a b c u f o' :: "'a multiset"
  assumes "u + c = add_mset x f" and "b + a = o' + u"
  shows "c + b + a = add_mset x (o' + f)"
proof -
  have "c + b + a = o' + (u + c)" using assms(2) by (simp add: ac_simps)
  then show ?thesis by (simp add: assms(1))
qed

lemma place_balance:
  assumes "placeListeners dupErr i ls ds fs = (ops, r)" and "i + length ls \<le> length ds"
    and "\<forall>d \<in> set ds. nat (d - 3) < length fs"
  shows "case r of
      Inl _ \<Rightarrow> mset (closedBy ops) = mset (openedBy ops) + heldFiles fs
    | Inr fs' \<Rightarrow> length fs' = length fs \<and> mset (closedBy ops) + heldFiles fs' = mset (openedBy ops) + heldFiles fs"
  using assms
proof (induction dupErr i ls ds fs arbitrary: ops r rule: placeListeners.induct)
  case (2 dupErr i l ls ds fs)
  let ?e = "if l_listener l = None \<and> l_packet l = None then Some ''unknown listener type'' else dupErr i"
  show ?case
  proof (cases ?e)
    case (Some e)
    with 2 show ?thesis by (auto simp: closed_held)
  next
    case None
    let ?k = "nat (ds ! i - 3)"
    let ?fs = "fs[?k := Some (ListenerFile i)]"
    have k: "?k < length fs" using 2(3,4) by auto
    obtain ops' r' where o: "placeListeners dupErr (Suc i) ls ds ?fs = (ops', r')" by (metis surj_pair)
    with 2(2) None have ops: "ops = FOpen (ListenerFile i) # closeWorkerFiles [fs ! ?k] @ ops'" "r = r'"
      by (auto simp: Let_def split: if_splits)
    have "case r' of Inl _ \<Rightarrow> mset (closedBy ops') = mset (openedBy ops') + heldFiles ?fs
      | Inr fs' \<Rightarrow> length fs' = length ?fs \<and> mset (closedBy ops') + heldFiles fs' = mset (openedBy ops') + heldFiles ?fs"
      using 2(3,4) by (intro 2(1) [OF None refl o]) simp_all
    with ops mset_shift [OF heldFiles_update [OF k, of "ListenerFile i"]]
    show ?thesis
      by (cases r') (auto simp: closed_held mset_shift [OF heldFiles_update [OF k], where a = "{#}", simplified])
  qed
qed simp

lemma maxDescriptor_ge: "d \<in> set ds \<Longrightarrow> d \<le> maxDescriptor ds" "2 \<le> maxDescriptor ds"
proof -
  have f: "(\<lambda>fd m. if fd > m then fd else m) = (\<lambda>a b :: int. max a b)" by (auto simp: fun_eq_iff max_def)
  show "d \<in> set ds \<Longrightarrow> d \<le> maxDescriptor ds" "2 \<le> maxDescriptor ds"
    using fold_max_le [of ds 2 "maxDescriptor ds"] unfolding maxDescriptor_def f by auto
qed

lemma slot_in_range: "\<forall>d \<in> set ds. 3 \<le> d \<Longrightarrow> d \<in> set ds \<Longrightarrow> nat (d - 3) < nat (maxDescriptor ds - 2)"
  using maxDescriptor_ge(1) [of d ds] maxDescriptor_ge(2) [of ds] by auto

lemma setupFiles_balance:
  assumes "setupFiles a ls ds = (ops, r)" and "length ls \<le> length ds" and "\<forall>d \<in> set ds. 3 \<le> d"
  shows "mset (openedBy ops) = mset (closedBy ops) + (case r of Inl _ \<Rightarrow> {#} | Inr fs \<Rightarrow> heldFiles fs)"
proof -
  obtain ops1 r1 where p: "openPadding (a_nullErr a) 0 (nat (maxDescriptor ds - 2)) = (ops1, r1)"
    by (metis surj_pair)
  note b = padding_balance [OF p]
  show ?thesis
  proof (cases r1)
    case (Inl e)
    with assms(1) p b show ?thesis by (auto simp: setupFiles_def)
  next
    case (Inr fs)
    obtain ops2 r2 where q: "placeListeners (a_dupErr a) 0 ls ds fs = (ops2, r2)" by (metis surj_pair)
    with assms(1) p Inr have "ops = ops1 @ ops2" "r = r2" by (auto simp: setupFiles_def)
    moreover have "\<forall>d \<in> set ds. nat (d - 3) < length fs"
      using b Inr slot_in_range [OF assms(3)] by auto
    ultimately show ?thesis
      using place_balance [OF q] assms(2) b Inr by (auto split: sum.splits)
  qed
qed

lemma place_slots:
  assumes "placeListeners dupErr i ls ds fs = (ops, Inr fs')" and "i + length ls \<le> length ds"
    and "\<forall>d \<in> set ds. 3 \<le> d \<and> nat (d - 3) < length fs" and "distinct ds"
  shows "length fs' = length fs \<and>
    (\<forall>j. i \<le> j \<longrightarrow> j < i + length ls \<longrightarrow> fs' ! nat (ds ! j - 3) = Some (ListenerFile j)) \<and>
    (\<forall>k < length fs. (\<forall>j. i \<le> j \<longrightarrow> j < i + length ls \<longrightarrow> nat (ds ! j - 3) \<noteq> k) \<longrightarrow> fs' ! k = fs ! k)"
  using assms
proof (induction dupErr i ls ds fs arbitrary: ops rule: placeListeners.induct)
  case (2 dupErr i l ls ds fs)
  let ?k = "nat (ds ! i - 3)"
  let ?fs = "fs[?k := Some (ListenerFile i)]"
  have e: "(if l_listener l = None \<and> l_packet l = None then Some ''unknown listener type'' else dupErr i) = None"
    (is "?e = None")
  proof (cases ?e)
    case (Some x)
    with 2(2) show ?thesis by simp
  qed
  with 2(2) obtain ops' where o: "placeListeners dupErr (Suc i) ls ds ?fs = (ops', Inr fs')"
    by (auto simp: Let_def split: if_splits prod.splits)
  have IH: "length fs' = length ?fs"
    "\<And>j. Suc i \<le> j \<Longrightarrow> j < Suc i + length ls \<Longrightarrow> fs' ! nat (ds ! j - 3) = Some (ListenerFile j)"
    "\<And>k. k < length ?fs \<Longrightarrow> (\<And>j. Suc i \<le> j \<Longrightarrow> j < Suc i + length ls \<Longrightarrow> nat (ds ! j - 3) \<noteq> k) \<Longrightarrow> fs' ! k = ?fs ! k"
    using 2(1) [OF e refl o] 2(3-5) by auto
  have i: "i < length ds" "?k < length fs" "3 \<le> ds ! i" using 2(3,4) by auto
  have ne: "nat (ds ! j - 3) \<noteq> ?k" if "Suc i \<le> j" "j < Suc i + length ls" for j
  proof -
    have "j < length ds" using that 2(3) by simp
    then have "ds ! j \<noteq> ds ! i" "3 \<le> ds ! j" using that 2(4,5) i by (auto simp: nth_eq_iff_index_eq)
    with i show ?thesis by (simp add: nat_eq_iff)
  qed
  have "fs' ! ?k = Some (ListenerFile i)" using IH(3) [of ?k] ne i(2) by simp
  then have "fs' ! nat (ds ! j - 3) = Some (ListenerFile j)" if "i \<le> j" "j < i + length (l # ls)" for j
    using that IH(2) [of j] by (cases "j = i") auto
  moreover have "fs' ! k = fs ! k"
    if "k < length fs" "\<forall>j. i \<le> j \<longrightarrow> j < i + length (l # ls) \<longrightarrow> nat (ds ! j - 3) \<noteq> k" for k
  proof -
    from that(2) have "k \<noteq> ?k" by force
    moreover have "fs' ! k = ?fs ! k" using that by (intro IH(3)) auto
    ultimately show ?thesis by simp
  qed
  ultimately show ?case using IH(1) by simp
qed simp

lemma setupFiles_slots:
  assumes "setupFiles a ls ds = (ops, Inr fs)" and "length ls = length ds" and "\<forall>d \<in> set ds. 3 \<le> d"
    and "distinct ds"
  shows "length fs = nat (maxDescriptor ds - 2) \<and>
    (\<forall>i < length ls. fs ! nat (ds ! i - 3) = Some (ListenerFile i)) \<and>
    (\<forall>k < length fs. int k + 3 \<notin> set ds \<longrightarrow> fs ! k = Some (NullFile k))"
proof -
  obtain ops1 fs0 ops2 where p: "openPadding (a_nullErr a) 0 (nat (maxDescriptor ds - 2)) = (ops1, Inr fs0)"
      and q: "placeListeners (a_dupErr a) 0 ls ds fs0 = (ops2, Inr fs)"
    using assms(1) by (auto simp: setupFiles_def split: prod.splits sum.splits)
  have fs0: "fs0 = map (\<lambda>i. Some (NullFile i)) [0..<nat (maxDescriptor ds - 2)]"
    using padding_balance [OF p] by simp
  have r: "\<forall>d \<in> set ds. 3 \<le> d \<and> nat (d - 3) < length fs0"
    using slot_in_range [OF assms(3)] assms(3) fs0 by simp
  from place_slots [OF q _ r assms(4)] assms(2)
  have pl: "length fs = length fs0" "\<forall>i < length ls. fs ! nat (ds ! i - 3) = Some (ListenerFile i)"
    "\<forall>k < length fs0. (\<forall>j < length ls. nat (ds ! j - 3) \<noteq> k) \<longrightarrow> fs ! k = fs0 ! k" by simp_all
  have "fs ! k = Some (NullFile k)" if "k < length fs" "int k + 3 \<notin> set ds" for k
  proof -
    have "nat (ds ! j - 3) \<noteq> k" if "j < length ls" for j
    proof
      assume "nat (ds ! j - 3) = k"
      moreover have "ds ! j \<in> set ds" using that assms(2) by simp
      ultimately have "int k + 3 = ds ! j" using assms(3) by auto
      with \<open>ds ! j \<in> set ds\<close> \<open>int k + 3 \<notin> set ds\<close> show False by simp
    qed
    with that(1) pl(1,3) show ?thesis by (simp add: fs0)
  qed
  with pl(1,2) show ?thesis by (simp add: fs0)
qed

lemma startRound_spawn:
  assumes "r_spawn (startRound s pl policy checked ls ds overlay lookCmd generation a) = Some sp"
  shows "\<exists>ops p t. setupFiles a ls ds = (ops, Inr (sp_files sp)) \<and>
    formatPortList (portListOf ls ds) = Inr (p, t) \<and>
    sp_env sp = buildWorkerEnv (a_environ a) overlay p t (generation + 1) \<and>
    sp_generation sp = generation + 1"
  using assms by (auto simp: startRound_def Let_def split: if_splits prod.splits sum.splits)

lemma startRound_files:
  "r_files (startRound s pl policy checked ls ds overlay lookCmd generation a) =
     (if a_ctxErr a then []
      else case setupFiles a ls ds of
             (ops, Inl e) \<Rightarrow> ops | (ops, Inr fs) \<Rightarrow> ops @ closeWorkerFiles fs)"
  by (auto simp: startRound_def Let_def split: prod.splits sum.splits)

text \<open>
  C24: no descriptor leaks into the supervisor. Whatever fails during a round of the start loop
  (opening the padding, duplicating a listener, encoding the ports, launching the command),
  every file the round opened is closed again, exactly as often as it was opened.
\<close>

theorem startRound_closes_files:
  assumes "length ls \<le> length ds" and "\<forall>d \<in> set ds. 3 \<le> d"
  shows "mset (openedBy (r_files (startRound s pl policy checked ls ds overlay lookCmd generation a))) =
         mset (closedBy (r_files (startRound s pl policy checked ls ds overlay lookCmd generation a)))"
proof -
  obtain ops r where f: "setupFiles a ls ds = (ops, r)" by (metis surj_pair)
  from setupFiles_balance [OF f assms] show ?thesis
    unfolding startRound_files by (cases r) (auto simp: f closed_held)
qed

definition sampleStarter :: Starter where
  "sampleStarter = \<lparr>interval = 0, signalOnHUP = SIGTERM, signalOnTERM = SIGTERM,
     shutdownGracePeriod = 5 * second, statusFile = [], pidFile = [], dir = [], ports = [], paths = [],
     command = ''app'', commandPath = [], args = [], envdir = [], enableAutoRestart = False,
     autoRestartInterval = 0, killOldDelay = 0, stdout = 1, stderr = 2\<rparr>"

definition calmCtx :: waitCtx where
  "calmCtx = \<lparr>cancelAt = None, preferTimer = True\<rparr>"

definition goodAttempt :: "pid \<Rightarrow> attempt" where
  "goodAttempt pid = \<lparr>a_ctxErr = False, a_nullErr = (\<lambda>_. None), a_dupErr = (\<lambda>_. None), a_environ = [],
     a_start = Inr pid, a_retryCtx = calmCtx, a_probeCtx = calmCtx,
     a_probe = \<lparr>wait4 = (0, 0), findProcessOk = True\<rparr>, a_waited = None, a_ctxErrEnd = False\<rparr>"

definition sampleListener :: listener where
  "sampleListener = \<lparr>l_listener = Some 0, l_packet = None, l_network = ''tcp4'', l_host = ''db'',
     l_port = 80, l_path = []\<rparr>"

definition samplePolicy :: workerStartErrorPolicy where
  "samplePolicy = platformWorkerStartErrorPolicy (\<lambda>_. None) (\<lambda>_. None) Linux"

theorem startRound_closes_files_witness:
  "mset (openedBy (r_files (startRound sampleStarter Linux samplePolicy False [sampleListener] [4] [] id 0
      ((goodAttempt 9)\<lparr>a_dupErr := (\<lambda>_. Some ''EMFILE'')\<rparr>)))) =
   mset (closedBy (r_files (startRound sampleStarter Linux samplePolicy False [sampleListener] [4] [] id 0
      ((goodAttempt 9)\<lparr>a_dupErr := (\<lambda>_. Some ''EMFILE'')\<rparr>))))"
  by (rule startRound_closes_files) simp_all

text \<open>
  The descriptor table of a worker. When the descriptors are distinct and start at 3, the
  files handed to a worker hold the i-th listener exactly in the slot that becomes its
  descriptor number, every other slot below the largest number is the null device, and nothing
  lies beyond.
\<close>

theorem worker_descriptor_table:
  assumes "r_spawn (startRound s pl policy checked ls ds overlay lookCmd generation a) = Some sp"
    and "length ls = length ds" and "\<forall>d \<in> set ds. 3 \<le> d" and "distinct ds"
  shows "length (sp_files sp) = nat (maxDescriptor ds - 2) \<and>
    (\<forall>i < length ls. sp_files sp ! nat (ds ! i - 3) = Some (ListenerFile i)) \<and>
    (\<forall>k < length (sp_files sp). int k + 3 \<notin> set ds \<longrightarrow> sp_files sp ! k = Some (NullFile k))"
proof -
  from startRound_spawn [OF assms(1)] obtain ops where "setupFiles a ls ds = (ops, Inr (sp_files sp))"
    by blast
  then show ?thesis using assms(2-4) by (rule setupFiles_slots)
qed

lemma sample_spawn:
  "\<exists>sp. r_spawn (startRound sampleStarter Linux samplePolicy False [sampleListener] [4] [] id 0 (goodAttempt 9)) = Some sp \<and>
     sp_files sp = [Some (NullFile 0), Some (ListenerFile 0)]"
proof -
  have f: "formatPortList (portListOf [sampleListener] [4]) = Inr (''db:80=4'', ''4=tcp'')" by code_simp
  have "\<exists>ops. setupFiles (goodAttempt 9) [sampleListener] [4] =
      (ops, Inr [Some (NullFile 0), Some (ListenerFile 0)])"
    by (simp add: setupFiles_def goodAttempt_def maxDescriptor_def sampleListener_def numeral_2_eq_2)
  moreover have "\<not> a_ctxErr (goodAttempt 9)" by (simp add: goodAttempt_def)
  ultimately show ?thesis using f by (auto simp: startRound_def Let_def)
qed

theorem worker_descriptor_table_witness:
  "\<exists>sp. r_spawn (startRound sampleStarter Linux samplePolicy False [sampleListener] [4] [] id 0 (goodAttempt 9)) = Some sp \<and>
     length (sp_files sp) = 2 \<and> sp_files sp ! 1 = Some (ListenerFile 0)"
proof -
  obtain sp where h: "r_spawn (startRound sampleStarter Linux samplePolicy False [sampleListener] [4] [] id 0 (goodAttempt 9)) = Some sp"
    using sample_spawn by blast
  have "maxDescriptor [4] = 4" by (simp add: maxDescriptor_def)
  with h worker_descriptor_table [OF h] show ?thesis by simp
qed

subsection \<open>The start loop: lemmas\<close>

abbreviation spawned :: "round list \<Rightarrow> nat" where
  "spawned rs \<equiv> length (filter (\<lambda>r. r_spawn r \<noteq> None) rs)"

lemma startRound_generation:
  "r_generation (startRound s pl policy checked ls ds overlay lookCmd g a) =
     g + (if r_spawn (startRound s pl policy checked ls ds overlay lookCmd g a) = None then 0 else 1)"
  by (auto simp: startRound_def Let_def split: prod.splits sum.splits)

lemma startRound_outcome:
  assumes "r_outcome (startRound s pl policy checked ls ds overlay lookCmd g a) = Returned res"
  shows "case res of
      Inr pid \<Rightarrow> a_start a = Inr pid \<and>
        r_spawn (startRound s pl policy checked ls ds overlay lookCmd g a) \<noteq> None \<and>
        (\<not> waitForProbe checked (a_probeCtx a) (interval s) \<or> fst (findWorker pl pid (a_probe a)) = Some pid)
    | Inl StartCtx \<Rightarrow> a_ctxErr a \<or> \<not> waitForWorkerStartRetry (a_retryCtx a) (interval s) \<or> a_ctxErrEnd a
    | Inl (StartTerminal err) \<Rightarrow> a_start a = Inl err \<and> (\<exists>path. terminalWorkerStartError policy path (dir s) err)
    | Inl (StartEarlyExit pid st) \<Rightarrow> checked \<and> a_start a = Inr pid \<and> fst (findWorker pl pid (a_probe a)) = None
    | Inl e \<Rightarrow> r_spawn (startRound s pl policy checked ls ds overlay lookCmd g a) = None"
proof (cases "r_spawn (startRound s pl policy checked ls ds overlay lookCmd g a)")
  case None
  have pad: "openPadding n k m = (ops, Inl e) \<Longrightarrow> \<exists>x. e = StartPadding x" for n k m ops e
    by (induction n k m arbitrary: ops rule: openPadding.induct) (auto split: option.splits prod.splits)
  have pl: "placeListeners d i l s' fs = (ops, Inl e) \<Longrightarrow> \<exists>x. e = StartDuplicate x" for d i l s' fs ops e
    by (induction d i l s' fs arbitrary: ops rule: placeListeners.induct)
       (auto simp: Let_def split: option.splits prod.splits if_splits)
  have "setupFiles a ls ds = (ops, Inl e) \<Longrightarrow> (\<exists>x. e = StartPadding x) \<or> (\<exists>x. e = StartDuplicate x)" for ops e
    by (auto simp: setupFiles_def split: prod.splits sum.splits dest: pad pl)
  moreover have "formatPortList p = Inl e \<Longrightarrow> (\<exists>x. e = StartFormat x) \<or> (\<exists>x. e = StartTypes x)" for p e
    by (auto simp: formatPortList_def split: sum.splits if_splits)
  ultimately show ?thesis
    using None assms by (fastforce simp: startRound_def Let_def split: prod.splits sum.splits if_splits)
next
  case (Some sp)
  then have "\<exists>path. r_outcome (startRound s pl policy checked ls ds overlay lookCmd g a) = afterStart s pl policy checked path a"
    by (auto simp: startRound_def Let_def split: prod.splits sum.splits if_splits)
  then obtain path where o: "afterStart s pl policy checked path a = Returned res" using assms by auto
  show ?thesis
  proof (cases "a_start a")
    case (Inl err)
    with o show ?thesis by (auto simp: afterStart_def split: if_splits)
  next
    case (Inr pid)
    have fw: "fst (findWorker pl pid (a_probe a)) \<in> {None, Some pid}"
      by (auto simp: findWorker_defs split: prod.splits)
    with Inr o Some show ?thesis
      by (cases "findWorker pl pid (a_probe a)")
         (auto simp: afterStart_def split: if_splits option.splits prod.splits)
  qed
qed

text \<open>
  What a supervisor needs of a worker start: the generation never goes back, and a started worker
  has a number of its own.
\<close>

locale generation_source =
  fixes start :: "int \<Rightarrow> 'a \<Rightarrow> startResult option"
  assumes gen_mono: "start g x = Some r \<Longrightarrow> g \<le> st_generation r"
    and gen_fresh: "start g x = Some r \<Longrightarrow> st_result r = Inr pid \<Longrightarrow> g < st_generation r"
begin

lemma restart_generation:
  assumes "start g x = Some r" and "st_result r = Inr pid" and "\<forall>(p, h) \<in> set old. h \<le> g"
  shows "st_generation r \<notin> snd ` set old"
  using gen_fresh [OF assms(1,2)] assms(3) by force

end

lemma startWorker_rounds:
  assumes "startWorker s pl policy checked ls ds overlay lookCmd g as = Some r"
  shows "st_generation r = g + int (spawned (st_rounds r)) \<and>
    (\<exists>a \<in> set as. \<exists>h. g \<le> h \<and> last (st_rounds r) = startRound s pl policy checked ls ds overlay lookCmd h a \<and>
       r_outcome (startRound s pl policy checked ls ds overlay lookCmd h a) = Returned (st_result r)) \<and>
    (\<forall>q \<in> set (st_rounds r). \<exists>a \<in> set as. \<exists>h. g \<le> h \<and> q = startRound s pl policy checked ls ds overlay lookCmd h a) \<and>
    st_rounds r \<noteq> []"
  using assms
proof (induction as arbitrary: g r)
  case (Cons a as)
  let ?q = "startRound s pl policy checked ls ds overlay lookCmd g a"
  note gen = startRound_generation [of s pl policy checked ls ds overlay lookCmd g a]
  show ?case
  proof (cases "r_outcome ?q")
    case (Returned res)
    with Cons.prems have r: "r = \<lparr>st_result = res, st_generation = r_generation ?q, st_rounds = [?q]\<rparr>"
      by (simp add: Let_def)
    have "g \<le> g" by simp
    with r gen Returned show ?thesis by auto
  next
    case Again
    with Cons.prems obtain t where
      t: "startWorker s pl policy checked ls ds overlay lookCmd (r_generation ?q) as = Some t"
      and r: "r = t\<lparr>st_rounds := ?q # st_rounds t\<rparr>" by (auto simp: Let_def)
    have le: "g \<le> r_generation ?q" using gen by simp
    note IH = Cons.IH [OF t]
    have "st_generation r = g + int (spawned (st_rounds r))" using IH gen r by auto
    moreover have "\<exists>a' \<in> set (a # as). \<exists>h. g \<le> h \<and>
        last (st_rounds r) = startRound s pl policy checked ls ds overlay lookCmd h a' \<and>
        r_outcome (startRound s pl policy checked ls ds overlay lookCmd h a') = Returned (st_result r)"
    proof -
      from IH obtain a' h where "a' \<in> set as" "r_generation ?q \<le> h"
        "last (st_rounds t) = startRound s pl policy checked ls ds overlay lookCmd h a'"
        "r_outcome (startRound s pl policy checked ls ds overlay lookCmd h a') = Returned (st_result t)"
        "st_rounds t \<noteq> []" by blast
      with le r show ?thesis by (intro bexI [of _ a'] exI [of _ h]) simp_all
    qed
    moreover have "\<exists>a' \<in> set (a # as). \<exists>h. g \<le> h \<and> q = startRound s pl policy checked ls ds overlay lookCmd h a'"
      if "q \<in> set (st_rounds r)" for q
    proof (cases "q = ?q")
      case True
      then show ?thesis by (intro bexI [of _ a] exI [of _ g]) auto
    next
      case False
      with that r have "q \<in> set (st_rounds t)" by simp
      with IH obtain a' h where "a' \<in> set as" "r_generation ?q \<le> h"
        "q = startRound s pl policy checked ls ds overlay lookCmd h a'" by blast
      with le show ?thesis by (intro bexI [of _ a'] exI [of _ h]) simp_all
    qed
    ultimately show ?thesis using r by simp
  qed
qed simp

interpretation worker_start: generation_source
  "\<lambda>g (as, overlay). startWorker s pl policy checked ls ds overlay lookCmd g as" for s pl policy checked ls ds lookCmd
proof
  fix g x r
  assume "(\<lambda>(as, overlay). startWorker s pl policy checked ls ds overlay lookCmd g as) x = Some r"
  then obtain as overlay where h: "startWorker s pl policy checked ls ds overlay lookCmd g as = Some r"
    by (cases x) auto
  note c = startWorker_rounds [OF h]
  then show "g \<le> st_generation r" by simp
  fix pid assume p: "st_result r = Inr pid"
  from c obtain a k where l: "last (st_rounds r) = startRound s pl policy checked ls ds overlay lookCmd k a"
      and o: "r_outcome (startRound s pl policy checked ls ds overlay lookCmd k a) = Returned (Inr pid)"
      and ne: "st_rounds r \<noteq> []" using p by auto
  have "r_spawn (last (st_rounds r)) \<noteq> None" using startRound_outcome [OF o] l by simp
  with ne have "last (st_rounds r) \<in> set (filter (\<lambda>q. r_spawn q \<noteq> None) (st_rounds r))" by simp
  then have "0 < spawned (st_rounds r)" by (rule length_pos_if_in_set)
  with c show "g < st_generation r" by simp
qed

text \<open>The rounds are those of the first attempts, in order; all but the last go on.\<close>

lemma startWorker_attempts:
  assumes "startWorker s pl policy checked ls ds overlay lookCmd g as = Some r"
  shows "st_rounds r \<noteq> [] \<and> length (st_rounds r) \<le> length as \<and>
    st_generation r = r_generation (last (st_rounds r)) \<and>
    (\<forall>k < length (st_rounds r). \<exists>h. st_rounds r ! k = startRound s pl policy checked ls ds overlay lookCmd h (as ! k) \<and>
       r_outcome (st_rounds r ! k) = (if Suc k < length (st_rounds r) then Again else Returned (st_result r)))"
  using assms
proof (induction as arbitrary: g r)
  case (Cons a as)
  let ?q = "startRound s pl policy checked ls ds overlay lookCmd g a"
  show ?case
  proof (cases "r_outcome ?q")
    case (Returned res)
    with Cons.prems have "r = \<lparr>st_result = res, st_generation = r_generation ?q, st_rounds = [?q]\<rparr>"
      by (simp add: Let_def)
    with Returned show ?thesis by auto
  next
    case Again
    with Cons.prems obtain t where
      t: "startWorker s pl policy checked ls ds overlay lookCmd (r_generation ?q) as = Some t"
      and r: "r = t\<lparr>st_rounds := ?q # st_rounds t\<rparr>" by (auto simp: Let_def)
    from Cons.IH [OF t] Again r show ?thesis by (auto simp: less_Suc_eq_0_disj)
  qed
qed simp

lemma startRound_spawn_generation:
  "r_spawn (startRound s pl policy checked ls ds overlay lookCmd g a) = Some sp \<Longrightarrow>
   sp_generation sp = r_generation (startRound s pl policy checked ls ds overlay lookCmd g a)"
  by (auto simp: startRound_def Let_def split: prod.splits sum.splits if_splits)

text \<open>
  C22: what a finished start means, when no probe is cut short by a cancellation of the context.
  The generation grew by the number of launches attempted, failed ones included. The rounds are
  those of the first attempts, all but the last of them went on, and the result is that of the
  last: on success its process was launched under the new generation and found alive; a context
  error means the context was cancelled; a terminal error means the launch failed with an error the
  policy names; an early exit is only reported to a checked start, of a process that was launched
  and found dead; and every other error comes from a round that launched nothing.
\<close>

theorem startWorker_result:
  assumes "startWorker s pl policy checked ls ds overlay lookCmd g as = Some r"
    and "\<forall>a \<in> set as. cancelAt (a_probeCtx a) = None"
  shows "st_generation r = g + int (spawned (st_rounds r)) \<and>
    st_rounds r \<noteq> [] \<and> length (st_rounds r) \<le> length as \<and>
    (\<forall>k. Suc k < length (st_rounds r) \<longrightarrow> r_outcome (st_rounds r ! k) = Again) \<and>
    (let a = as ! (length (st_rounds r) - 1) in case st_result r of
       Inr pid \<Rightarrow> a_start a = Inr pid \<and> g < st_generation r \<and>
         (\<exists>sp. r_spawn (last (st_rounds r)) = Some sp \<and> sp_generation sp = st_generation r) \<and>
         fst (findWorker pl pid (a_probe a)) = Some pid
     | Inl StartCtx \<Rightarrow> a_ctxErr a \<or> \<not> waitForWorkerStartRetry (a_retryCtx a) (interval s) \<or> a_ctxErrEnd a
     | Inl (StartTerminal err) \<Rightarrow> a_start a = Inl err \<and> (\<exists>path. terminalWorkerStartError policy path (dir s) err)
     | Inl (StartEarlyExit pid st) \<Rightarrow> checked \<and> a_start a = Inr pid \<and> fst (findWorker pl pid (a_probe a)) = None
     | Inl e \<Rightarrow> r_spawn (last (st_rounds r)) = None)"
proof -
  let ?n = "length (st_rounds r) - 1"
  note gen = startWorker_rounds [OF assms(1), THEN conjunct1]
  note c = startWorker_attempts [OF assms(1)]
  then have n: "?n < length (st_rounds r)" "\<not> Suc ?n < length (st_rounds r)" "?n < length as"
    and l: "last (st_rounds r) = st_rounds r ! ?n"
    by (auto simp: last_conv_nth length_greater_0_conv [symmetric] simp del: length_greater_0_conv)
  from c n obtain h where q: "last (st_rounds r) = startRound s pl policy checked ls ds overlay lookCmd h (as ! ?n)"
      "r_outcome (startRound s pl policy checked ls ds overlay lookCmd h (as ! ?n)) = Returned (st_result r)"
    unfolding l by metis
  have "cancelAt (a_probeCtx (as ! ?n)) = None" using assms(2) n(3) by simp
  then have w: "waitForProbe checked (a_probeCtx (as ! ?n)) (interval s)"
    by (simp add: waitForProbe_def timerWins_def)
  have "g < st_generation r" if "st_result r = Inr pid" for pid
    using worker_start.gen_fresh [of s pl policy checked ls ds lookCmd g "(as, overlay)" r pid] that assms(1) by simp
  moreover have "\<exists>sp. r_spawn (last (st_rounds r)) = Some sp \<and> sp_generation sp = st_generation r"
    if "r_spawn (last (st_rounds r)) \<noteq> None"
    using that c q(1) startRound_spawn_generation by fastforce
  ultimately show ?thesis
    using startRound_outcome [OF q(2)] w gen c q(1)
    by (cases "st_result r") (auto simp: Let_def split: start_error.splits)
qed

text \<open>
  When the context is cancelled while the probe waits, the process is returned as it is, without
  a look whether it lives: the context error is not what this case returns.
\<close>

lemma cancelled_probe_returns_process:
  assumes "\<not> a_ctxErr a" and "setupFiles a ls ds = (ops, Inr files)" and "formatPortList (portListOf ls ds) = Inr (ps, ts)"
    and "a_start a = Inr pid" and "\<not> waitForProbe checked (a_probeCtx a) (interval s)"
  shows "\<exists>r. startWorker s pl policy checked ls ds overlay lookCmd g (a # as) = Some r \<and> st_result r = Inr pid"
  using assms by (simp add: startRound_def afterStart_def Let_def)

lemma sample_start:
  "\<exists>r. startWorker sampleStarter Linux samplePolicy False [sampleListener] [4] [] id 0
       [(goodAttempt 8)\<lparr>a_start := Inl \<lparr>le_is = [OtherErr ''EAGAIN''], le_op = None\<rparr>\<rparr>, goodAttempt 9] = Some r \<and>
     st_result r = Inr 9 \<and> spawned (st_rounds r) = 2"
proof -
  let ?a = "(goodAttempt 8)\<lparr>a_start := Inl \<lparr>le_is = [OtherErr ''EAGAIN''], le_op = None\<rparr>\<rparr>"
  have f: "formatPortList (portListOf [sampleListener] [4]) = Inr (''db:80=4'', ''4=tcp'')" by code_simp
  have s: "\<exists>ops. setupFiles a [sampleListener] [4] = (ops, Inr [Some (NullFile 0), Some (ListenerFile 0)])"
    if "a = ?a \<or> a = goodAttempt 9" for a
    using that
    by (auto simp: setupFiles_def goodAttempt_def maxDescriptor_def sampleListener_def numeral_2_eq_2)
  have o1: "afterStart sampleStarter Linux samplePolicy False ''app'' ?a = Again" by code_simp
  have o2: "afterStart sampleStarter Linux samplePolicy False ''app'' (goodAttempt 9) = Returned (Inr 9)" by code_simp
  have p: "\<not> a_ctxErr ?a" "\<not> a_ctxErr (goodAttempt 9)" "commandPath sampleStarter = []"
      "command sampleStarter = ''app''"
    by (simp_all add: goodAttempt_def sampleStarter_def)
  have "\<exists>q. startRound sampleStarter Linux samplePolicy False [sampleListener] [4] [] id 0 ?a = q \<and>
      r_outcome q = Again \<and> r_spawn q \<noteq> None"
    using s [of ?a] f o1 p by (auto simp: startRound_def Let_def)
  moreover have "\<exists>q. startRound sampleStarter Linux samplePolicy False [sampleListener] [4] [] id g (goodAttempt 9) = q \<and>
      r_outcome q = Returned (Inr 9) \<and> r_spawn q \<noteq> None" for g
    using s [of "goodAttempt 9"] f o2 p by (auto simp: startRound_def Let_def)
  ultimately show ?thesis by (auto simp: Let_def)
qed

theorem startWorker_result_witness:
  "\<exists>r. startWorker sampleStarter Linux samplePolicy False [sampleListener] [4] [] id 0
       [(goodAttempt 8)\<lparr>a_start := Inl \<lparr>le_is = [OtherErr ''EAGAIN''], le_op = None\<rparr>\<rparr>, goodAttempt 9] = Some r \<and>
     st_result r = Inr 9 \<and> st_generation r = 2 \<and> fst (findWorker Linux 9 (a_probe (goodAttempt 9))) = Some 9"
proof -
  let ?as = "[(goodAttempt 8)\<lparr>a_start := Inl \<lparr>le_is = [OtherErr ''EAGAIN''], le_op = None\<rparr>\<rparr>, goodAttempt 9]"
  obtain r where h: "startWorker sampleStarter Linux samplePolicy False [sampleListener] [4] [] id 0 ?as = Some r"
     and r: "st_result r = Inr 9" "spawned (st_rounds r) = 2" using sample_start by blast
  have "\<forall>a \<in> set ?as. cancelAt (a_probeCtx a) = None" by (simp add: goodAttempt_def calmCtx_def)
  note res = startWorker_result [OF h this]
  have "length (st_rounds r) = 2"
    using res r(2) length_filter_le [of "\<lambda>q. r_spawn q \<noteq> None" "st_rounds r"] by simp
  with res h r show ?thesis by (simp add: Let_def)
qed

text \<open>
  C23: the start loop ends. A round that begins with the context cancelled ends it, and so does,
  in a checked start, every round in which a process was created: a checked start never
  launches a second process after the first.
\<close>

theorem startWorker_returns:
  assumes "a \<in> set as" and "a_ctxErr a \<or> checked \<and> (\<exists>pid. a_start a = Inr pid)"
  shows "\<exists>r. startWorker s pl policy checked ls ds overlay lookCmd g as = Some r"
  using assms(1)
proof (induction as arbitrary: g)
  case (Cons b as)
  let ?q = "startRound s pl policy checked ls ds overlay lookCmd g b"
  show ?case
  proof (cases "r_outcome ?q")
    case (Returned res)
    then show ?thesis by (simp add: Let_def)
  next
    case Again
    have "b \<noteq> a"
    proof
      assume [simp]: "b = a"
      have "afterStart s pl policy checked path a \<noteq> Again" if "checked \<and> (\<exists>pid. a_start a = Inr pid)" for path
        using that by (auto simp: afterStart_def split: option.splits prod.splits)
      with assms(2) Again show False
        by (auto simp: startRound_def Let_def split: if_splits prod.splits sum.splits)
    qed
    with Cons have "a \<in> set as" by simp
    from Cons.IH [OF this] Again show ?thesis by (simp add: Let_def)
  qed
qed simp

theorem startWorker_returns_witness:
  "\<exists>r. startWorker sampleStarter Linux samplePolicy True [] [] [] id 0
       [(goodAttempt 8)\<lparr>a_start := Inl \<lparr>le_is = [], le_op = None\<rparr>\<rparr>,
        (goodAttempt 9)\<lparr>a_probe := \<lparr>wait4 = (9, 256), findProcessOk = True\<rparr>\<rparr>] = Some r"
  by (rule startWorker_returns
      [where a = "(goodAttempt 9)\<lparr>a_probe := \<lparr>wait4 = (9, 256), findProcessOk = True\<rparr>\<rparr>"])
     (simp_all add: goodAttempt_def)

text \<open>
  The input/output error of a Linux launch. An error that only says EIO ends the supervisor
  exactly when it comes from the launch itself and the interpreter named by the readable
  executable could be opened, was read without a failing read, and is not a valid ELF file;
  in every other case the launch is retried.
\<close>

theorem linux_EIO_terminal_iff:
  assumes "le_is err = [EIO]"
  shows "terminalWorkerStartError (platformWorkerStartErrorPolicy elfOpen openInterp Linux) cmd d err \<longleftrightarrow>
    le_op err = Some ''fork/exec'' \<and>
    (\<exists>interp probe. workerELFInterpreter elfOpen cmd d = Some interp \<and>
       openInterp (if isAbsPath interp then interp else filepathJoin d interp) = Some probe \<and>
       p_newFile probe \<in> {Some ElfEOF, Some ElfUnexpectedEOF, Some ElfFormatError} \<and>
       Some ElfFormatError \<notin> set (p_reads probe) \<and> Some ElfOtherErr \<notin> set (p_reads probe))"
proof -
  have rf: "elfReadFailed rs \<longleftrightarrow> Some ElfFormatError \<in> set rs \<or> Some ElfOtherErr \<in> set rs" for rs
    unfolding elfReadFailed_def list_ex_iff
    by (auto split: option.splits) (metis elfErr.exhaust)
  show ?thesis
    using assms
    by (auto simp: terminalWorkerStartError_def isTerminal_def commonWorkerStartErrorPolicy_def
        platformWorkerStartErrorPolicy_def terminalLinuxEIOWorkerStartError_def malformedELF_def rf
        split: option.splits)
qed

theorem linux_EIO_terminal_iff_witness:
  "terminalWorkerStartError
     (platformWorkerStartErrorPolicy
        (\<lambda>_. Some [\<lparr>p_isInterp = True, p_data = Some (''/ld.so'' @ [CHR 0x00])\<rparr>])
        (\<lambda>_. Some \<lparr>p_reads = [None], p_newFile = Some ElfFormatError\<rparr>) Linux)
     ''/bin/app'' [] \<lparr>le_is = [EIO], le_op = Some ''fork/exec''\<rparr>"
proof -
  have w: "workerELFInterpreter (\<lambda>_. Some [\<lparr>p_isInterp = True, p_data = Some (''/ld.so'' @ [CHR 0x00])\<rparr>])
      ''/bin/app'' [] = Some ''/ld.so''" by code_simp
  then show ?thesis by (subst linux_EIO_terminal_iff) auto
qed

text \<open>
  The waits. A failed launch is retried only after the context stayed alive for at least
  100 ms and at least the configured interval; a checked start observes its worker for at least
  one second and at least the interval.
\<close>

theorem worker_wait_bounds:
  "(waitForWorkerStartRetry ctx i \<longrightarrow>
      (case cancelAt ctx of None \<Rightarrow> True | Some c \<Rightarrow> max i 100000000 \<le> c)) \<and>
   (waitForProbe True ctx i \<longrightarrow> (case cancelAt ctx of None \<Rightarrow> True | Some c \<Rightarrow> max i second \<le> c))"
  by (auto simp: waitForWorkerStartRetry_def waitForProbe_def timerWins_def workerStartRetryDelay_def
      minimumWorkerStartRetryDelay_def minimumCheckedStartupInterval_def split: option.splits if_splits)

theorem worker_wait_bounds_witness:
  "waitForWorkerStartRetry \<lparr>cancelAt = Some 200000000, preferTimer = True\<rparr> 0 \<and> max 0 100000000 \<le> (200000000 :: int)"
proof -
  have "waitForWorkerStartRetry \<lparr>cancelAt = Some 200000000, preferTimer = True\<rparr> 0" by code_simp
  with worker_wait_bounds [of "\<lparr>cancelAt = Some 200000000, preferTimer = True\<rparr>" 0] show ?thesis by simp
qed

end
