(* ===== verification/StatusFile.thy ===== *)
theory StatusFile
  imports EnvDir
begin

text \<open>
  The status file (\<open>internal/statefile/status.go\<close>): the table of generations and process ids
  the supervisor publishes, its atomic replacement through a temporary file, and the bounded
  readers of the status file and of the pid file.
\<close>

subsection \<open>The table\<close>

text \<open>Go maps from pid to generation and from generation to pid, as association lists.\<close>

definition StatusMap :: "(pid \<times> int) list \<Rightarrow> pid \<Rightarrow> int \<Rightarrow> (int \<times> pid) list" where
  "StatusMap oldWorkers currentPID generation =
     (let m = fold (\<lambda>(pid, gen) m. AList.update gen pid m) oldWorkers []
      in if currentPID \<noteq> 0 then AList.update generation currentPID m else m)"

subsection \<open>Writing\<close>

text \<open>
  The file system as far as the writer sees it: the bytes under a path. The answers of the
  operating system to one run of \<open>WriteStatus\<close> are a record: the temporary name, and for each
  call its error if it fails; a failing write may leave any prefix of its line.
\<close>

type_synonym fs = "string \<rightharpoonup> string"

record writeIO =
  w_tmp :: string
  w_createErr :: "string option"
  w_writeErr :: "int \<Rightarrow> (string \<times> nat) option"
  w_syncErr :: "string option"
  w_closeErr :: "string option"
  w_renameErr :: "string option"
  w_removeOk :: bool

datatype status_error =
    ErrCreateTemp string
  | ErrWriteTemp string
  | ErrSyncTemp string
  | ErrCloseTemp string
  | ErrRenameTemp string

definition statusLine :: "int \<times> pid \<Rightarrow> string" where
  "statusLine e = itoa (fst e) @ '':'' @ itoa (snd e)"

text \<open>The entries in the order they are written: ascending by generation.\<close>

definition statusEntries :: "(int \<times> pid) list \<Rightarrow> (int \<times> pid) list" where
  "statusEntries generations =
     map (\<lambda>gen. (gen, case map_of generations gen of Some pid \<Rightarrow> pid | None \<Rightarrow> 0)) (sort (map fst generations))"

definition removeFile :: "bool \<Rightarrow> string \<Rightarrow> fs \<Rightarrow> fs" where
  "removeFile ok path fs = (if ok then fs(path := None) else fs)"

definition appendFile :: "string \<Rightarrow> string \<Rightarrow> fs \<Rightarrow> fs" where
  "appendFile path bytes fs = fs(path \<mapsto> (case fs path of Some old \<Rightarrow> old @ bytes | None \<Rightarrow> bytes))"

text \<open>The loop over the lines; the result is the states passed through and the error, if any.\<close>

fun writeLines ::
  "writeIO \<Rightarrow> int \<Rightarrow> (int \<times> pid) list \<Rightarrow> fs \<Rightarrow> fs list \<times> fs \<times> status_error option" where
  "writeLines io i [] fs = ([], fs, None)"
| "writeLines io i (e # es) fs =
     (case w_writeErr io i of
        Some (err, n) \<Rightarrow>
          let fs1 = appendFile (w_tmp io) (take n (statusLine e @ [CHR 0x0A])) fs;
              fs2 = removeFile (w_removeOk io) (w_tmp io) fs1
          in ([fs1, fs2], fs2, Some (ErrWriteTemp err))
      | None \<Rightarrow>
          let fs1 = appendFile (w_tmp io) (statusLine e @ [CHR 0x0A]) fs
          in (case writeLines io (i + 1) es fs1 of (tr, fs', r) \<Rightarrow> (fs1 # tr, fs', r)))"

text \<open>Sync, close and rename, each undone by removing the temporary file.\<close>

definition finishStatus :: "writeIO \<Rightarrow> string \<Rightarrow> fs \<Rightarrow> fs list \<times> fs \<times> status_error option" where
  "finishStatus io fn fs =
     (let undone = removeFile (w_removeOk io) (w_tmp io) fs in
      case w_syncErr io of
        Some err \<Rightarrow> ([undone], undone, Some (ErrSyncTemp err))
      | None \<Rightarrow>
          (case w_closeErr io of
             Some err \<Rightarrow> ([undone], undone, Some (ErrCloseTemp err))
           | None \<Rightarrow>
               (case w_renameErr io of
                  Some err \<Rightarrow> ([undone], undone, Some (ErrRenameTemp err))
                | None \<Rightarrow> let fs' = fs(fn := fs (w_tmp io), w_tmp io := None) in ([fs'], fs', None))))"

definition WriteStatus ::
  "writeIO \<Rightarrow> string \<Rightarrow> (int \<times> pid) list \<Rightarrow> fs \<Rightarrow> fs list \<times> fs \<times> status_error option" where
  "WriteStatus io fn generations fs =
     (if fn = [] then ([], fs, None)
      else (case w_createErr io of
              Some err \<Rightarrow> ([], fs, Some (ErrCreateTemp err))
            | None \<Rightarrow>
                let fs0 = fs(w_tmp io \<mapsto> []) in
                (case writeLines io 0 (statusEntries generations) fs0 of
                   (tr, fs1, Some e) \<Rightarrow> (fs0 # tr, fs1, Some e)
                 | (tr, fs1, None) \<Rightarrow>
                     (case finishStatus io fn fs1 of (tr2, fs2, r) \<Rightarrow> (fs0 # tr @ tr2, fs2, r)))))"

subsection \<open>Reading\<close>

definition maxPIDFileSize :: int where
  "maxPIDFileSize = 64"

definition maxStatusFileSize :: int where
  "maxStatusFileSize = 64 * 1024"

text \<open>
  What the operating system answers while a state file is read, and whether the context is
  cancelled before and after.
\<close>

record stateFile =
  s_ctxErr1 :: "string option"
  s_openErr :: "string option"
  s_statErr :: "string option"
  s_regular :: bool
  s_size :: int
  s_data :: string
  s_readErr :: "string option"
  s_ctxErr2 :: "string option"

datatype state_error =
    ErrStateCtx string
  | ErrStateOpen string
  | ErrStateStat string
  | ErrStateNotRegular
  | ErrStateTooLarge
  | ErrStateRead string
  | ErrInvalidPid
  | ErrStatusLine string
  | ErrStatusNumber num_error

definition readStateFile :: "stateFile \<Rightarrow> int \<Rightarrow> state_error + string" where
  "readStateFile f maxSize =
     (case s_ctxErr1 f of Some e \<Rightarrow> Inl (ErrStateCtx e) | None \<Rightarrow>
      case s_openErr f of Some e \<Rightarrow> Inl (ErrStateOpen e) | None \<Rightarrow>
      case s_statErr f of Some e \<Rightarrow> Inl (ErrStateStat e) | None \<Rightarrow>
      if \<not> s_regular f then Inl ErrStateNotRegular
      else if s_size f > maxSize then Inl ErrStateTooLarge
      else (case s_readErr f of Some e \<Rightarrow> Inl (ErrStateRead e) | None \<Rightarrow>
        let data = limitRead (maxSize + 1) (s_data f) in
        if int (length data) > maxSize then Inl ErrStateTooLarge
        else (case s_ctxErr2 f of Some e \<Rightarrow> Inl (ErrStateCtx e) | None \<Rightarrow> Inr data)))"

definition ReadPID :: "stateFile \<Rightarrow> state_error + pid" where
  "ReadPID f =
     (case readStateFile f maxPIDFileSize of
        Inl e \<Rightarrow> Inl e
      | Inr data \<Rightarrow>
          (case parseInt 32 (trimSpace data) of
             Inl _ \<Rightarrow> Inl ErrInvalidPid
           | Inr parsedPID \<Rightarrow> if parsedPID \<le> 0 then Inl ErrInvalidPid else Inr parsedPID))"

definition parseStatusLine :: "string \<Rightarrow> state_error + (int \<times> pid)" where
  "parseStatusLine line =
     (case goSplit (CHR '':'') line of
        [a, b] \<Rightarrow>
          (case atoi a of
             Inl e \<Rightarrow> Inl (ErrStatusNumber e)
           | Inr generation \<Rightarrow>
               (case atoi b of
                  Inl e \<Rightarrow> Inl (ErrStatusNumber e)
                | Inr pid \<Rightarrow> Inr (generation, pid)))
      | _ \<Rightarrow> Inl (ErrStatusLine line))"

fun readStatusLines :: "(int \<times> pid) list \<Rightarrow> string list \<Rightarrow> state_error + (int \<times> pid) list" where
  "readStatusLines status [] = Inr status"
| "readStatusLines status (line # rest) =
     (if line = [] then readStatusLines status rest
      else (case parseStatusLine line of
              Inl e \<Rightarrow> Inl e
            | Inr (generation, pid) \<Rightarrow> readStatusLines (AList.update generation pid status) rest))"

definition ReadStatus :: "stateFile \<Rightarrow> state_error + (int \<times> pid) list" where
  "ReadStatus f =
     (case readStateFile f maxStatusFileSize of
        Inl e \<Rightarrow> Inl e
      | Inr data \<Rightarrow> readStatusLines [] (goSplit (CHR 0x0A) (trimSpace data)))"

subsection \<open>The table: lemmas\<close>

lemma fold_status_distinct:
  "distinct_keys m \<Longrightarrow> distinct_keys (fold (\<lambda>(pid, gen) m. AList.update gen pid m) old m)"
  by (induction old arbitrary: m) auto

lemma StatusMap_distinct: "distinct_keys (StatusMap old cur gen)"
  by (simp add: StatusMap_def Let_def fold_status_distinct)

lemma fold_status_set:
  assumes "distinct (map snd old)" and "snd ` set old \<inter> fst ` set m = {}"
  shows "set (fold (\<lambda>(pid, gen) m. AList.update gen pid m) old m) = set m \<union> {(g, p). (p, g) \<in> set old}"
  using assms
proof (induction old arbitrary: m)
  case (Cons e old)
  obtain p g where e: "e = (p, g)" by (cases e)
  with Cons.prems have fresh: "g \<notin> fst ` set m" by auto
  with Cons.prems e have "snd ` set old \<inter> fst ` set (AList.update g p m) = {}"
    by (auto simp: keys_update)
  with Cons.IH [of "AList.update g p m"] Cons.prems e fresh show ?case
    by (auto simp: set_update_fresh)
qed simp

lemma StatusMap_set:
  assumes "distinct (map snd old)" and "gen \<notin> snd ` set old"
  shows "set (StatusMap old cur gen) =
    {(g, p). (p, g) \<in> set old} \<union> (if cur = 0 then {} else {(gen, cur)})"
proof -
  let ?m = "fold (\<lambda>(pid, gen) m. AList.update gen pid m) old []"
  have s: "set ?m = {(g, p). (p, g) \<in> set old}" using fold_status_set [OF assms(1), of "[]"] by simp
  then have "gen \<notin> fst ` set ?m" using assms(2) by force
  with s show ?thesis by (auto simp: StatusMap_def Let_def set_update_fresh)
qed

lemma statusEntries_set: "distinct_keys m \<Longrightarrow> set (statusEntries m) = set m"
  by (force simp: statusEntries_def distinct_keys_def)

lemma statusEntries_keys: "map fst (statusEntries m) = sort (map fst m)"
  by (simp add: statusEntries_def comp_def)

subsection \<open>Atomic replacement\<close>

definition statusText :: "(int \<times> pid) list \<Rightarrow> string" where
  "statusText es = concat (map (\<lambda>e. statusLine e @ [CHR 0x0A]) es)"

lemma writeLines_Cons_ok:
  assumes "w_writeErr io i = None" and "writeLines io i (e # es) fs = (tr, fs', r)"
  obtains tr' where "writeLines io (i + 1) es (appendFile (w_tmp io) (statusLine e @ [CHR 0x0A]) fs) = (tr', fs', r)"
    and "tr = appendFile (w_tmp io) (statusLine e @ [CHR 0x0A]) fs # tr'"
  using assms by (auto simp: Let_def split: prod.splits)

lemma writeLines_trace:
  assumes "writeLines io i es fs = (tr, fs', r)"
  shows "(\<forall>s \<in> set (fs' # tr). \<forall>p. p \<noteq> w_tmp io \<longrightarrow> s p = fs p) \<and>
    (r \<noteq> None \<longrightarrow> w_removeOk io \<longrightarrow> fs' (w_tmp io) = None)"
  using assms
proof (induction es arbitrary: i fs tr)
  case (Cons e es)
  show ?case
  proof (cases "w_writeErr io i")
    case None
    then show ?thesis
      using Cons.prems
    proof (rule writeLines_Cons_ok)
      fix tr' assume "writeLines io (i + 1) es (appendFile (w_tmp io) (statusLine e @ [CHR 0x0A]) fs) = (tr', fs', r)"
        and "tr = appendFile (w_tmp io) (statusLine e @ [CHR 0x0A]) fs # tr'"
      with Cons.IH [OF this(1)] show ?thesis by (simp add: appendFile_def)
    qed
  next
    case (Some a)
    with Cons.prems show ?thesis
      by (cases a) (auto simp: appendFile_def removeFile_def Let_def)
  qed
qed simp

lemma writeLines_content:
  assumes "writeLines io i es fs = (tr, fs', None)" and "fs (w_tmp io) = Some old"
  shows "fs' (w_tmp io) = Some (old @ statusText es)"
  using assms
proof (induction es arbitrary: i fs tr old)
  case (Cons e es)
  then have "w_writeErr io i = None" by (auto simp: Let_def split: option.splits prod.splits)
  then show ?case
    using Cons.prems(1)
  proof (rule writeLines_Cons_ok)
    let ?fs = "appendFile (w_tmp io) (statusLine e @ [CHR 0x0A]) fs"
    fix tr' assume "writeLines io (i + 1) es ?fs = (tr', fs', None)"
    from Cons.IH [OF this, of "old @ statusLine e @ [CHR 0x0A]"] Cons.prems(2) show ?thesis
      by (simp add: appendFile_def statusText_def)
  qed
qed (simp add: statusText_def)

lemma finishStatus_cases:
  assumes "finishStatus io fn fs = (tr, fs', r)"
  shows "tr = [fs'] \<and>
    (case r of None \<Rightarrow> fs' = fs(fn := fs (w_tmp io), w_tmp io := None)
     | Some _ \<Rightarrow> fs' = removeFile (w_removeOk io) (w_tmp io) fs)"
  using assms by (auto simp: finishStatus_def Let_def split: option.splits)

lemma WriteStatus_steps:
  assumes "WriteStatus io fn m fs = (tr, fs', r)" and "fn \<noteq> []" and "w_tmp io \<noteq> fn"
    and "fs (w_tmp io) = None"
  shows "(\<forall>s \<in> set tr. (s fn = fs fn \<or> s fn = Some (statusText (statusEntries m))) \<and>
            (\<forall>p. p \<noteq> fn \<longrightarrow> p \<noteq> w_tmp io \<longrightarrow> s p = fs p)) \<and>
    (r = None \<longrightarrow> fs' = fs(fn \<mapsto> statusText (statusEntries m))) \<and>
    (r \<noteq> None \<longrightarrow> fs' fn = fs fn \<and> (w_removeOk io \<longrightarrow> fs' = fs))"
proof (cases "w_createErr io")
  case (Some e)
  with assms show ?thesis by (auto simp: WriteStatus_def)
next
  case None
  let ?fs0 = "fs(w_tmp io \<mapsto> [])"
  obtain tr1 fs1 r1 where w: "writeLines io 0 (statusEntries m) ?fs0 = (tr1, fs1, r1)"
    by (metis prod_cases3)
  note t = writeLines_trace [OF w]
  have unt: "s p = fs p" if "s \<in> set (fs1 # tr1)" "p \<noteq> w_tmp io" for s p using t that by auto
  show ?thesis
  proof (cases r1)
    case err: (Some e)
    with None w assms have res: "tr = ?fs0 # tr1" "fs' = fs1" "r = Some e"
      by (auto simp: WriteStatus_def)
    have "fs' = fs" if "w_removeOk io"
    proof
      fix p show "fs' p = fs p"
        using that t err unt [of fs1 p] res assms(4) by (cases "p = w_tmp io") auto
    qed
    with res unt assms(3) show ?thesis by auto
  next
    case ok: None
    obtain tr2 fs2 r2 where f: "finishStatus io fn fs1 = (tr2, fs2, r2)" by (metis prod_cases3)
    with None w ok assms have res: "tr = ?fs0 # tr1 @ tr2" "fs' = fs2" "r = r2"
      by (auto simp: WriteStatus_def)
    have c: "fs1 (w_tmp io) = Some (statusText (statusEntries m))"
      using writeLines_content [OF w [unfolded ok], of "[]"] by simp
    have "fs' = fs(fn \<mapsto> statusText (statusEntries m))" if "r = None"
      using finishStatus_cases [OF f] that res c unt [of fs1] assms(3,4)
      by (auto simp: fun_eq_iff)
    moreover have "fs' fn = fs fn \<and> (w_removeOk io \<longrightarrow> fs' = fs)" if "r \<noteq> None"
      using finishStatus_cases [OF f] that res unt [of fs1] assms(3,4)
      by (auto simp: fun_eq_iff removeFile_def split: option.splits)
    moreover have "(fs2 fn = fs fn \<or> fs2 fn = Some (statusText (statusEntries m))) \<and>
        (\<forall>p. p \<noteq> fn \<longrightarrow> p \<noteq> w_tmp io \<longrightarrow> fs2 p = fs p)"
      using finishStatus_cases [OF f] c unt [of fs1] assms(3)
      by (auto simp: removeFile_def split: option.splits)
    ultimately show ?thesis
      using res finishStatus_cases [OF f] unt assms(3) by auto
  qed
qed

text \<open>
  C25: the status file is replaced atomically. At every moment of \<open>WriteStatus\<close>, whatever call
  fails and however much of a line a failing write leaves, the published file holds either its
  old bytes or the complete new table; no file other than it and the temporary one is touched.
  Without an error it holds the new table and the temporary file is gone; after an error it is
  unchanged, and the temporary file is gone as well when it can be removed.
\<close>

theorem WriteStatus_atomic:
  assumes "WriteStatus io fn m fs = (tr, fs', r)" and "fn \<noteq> []" and "w_tmp io \<noteq> fn"
    and "fs (w_tmp io) = None"
  shows "(\<forall>s \<in> set tr. (s fn = fs fn \<or> s fn = Some (statusText (statusEntries m))) \<and>
            (\<forall>p. p \<noteq> fn \<longrightarrow> p \<noteq> w_tmp io \<longrightarrow> s p = fs p)) \<and>
    (r = None \<longrightarrow> fs' = fs(fn \<mapsto> statusText (statusEntries m))) \<and>
    (r \<noteq> None \<longrightarrow> fs' fn = fs fn \<and> (w_removeOk io \<longrightarrow> fs' = fs))"
  using assms by (rule WriteStatus_steps)

lemma published:
  assumes "WriteStatus io fn m fs = (tr, fs', None)" and "fn \<noteq> []" and "w_tmp io \<noteq> fn"
    and "fs (w_tmp io) = None"
  shows "fs' = fs(fn \<mapsto> statusText (statusEntries m))"
  using WriteStatus_steps [OF assms] by simp

definition quietIO :: "string \<Rightarrow> writeIO" where
  "quietIO tmp = \<lparr>w_tmp = tmp, w_createErr = None, w_writeErr = (\<lambda>_. None), w_syncErr = None,
     w_closeErr = None, w_renameErr = None, w_removeOk = True\<rparr>"

lemma writeLines_quiet: "writeLines (quietIO tmp) i es fs = (tr, fs', r) \<Longrightarrow> r = None"
  by (induction es arbitrary: i fs tr) (auto simp: quietIO_def Let_def split: prod.splits)

lemma WriteStatus_quiet: "WriteStatus (quietIO tmp) fn m fs = (tr, fs', r) \<Longrightarrow> r = None"
  using writeLines_quiet [of tmp 0 "statusEntries m" "fs(tmp \<mapsto> [])"]
  by (auto simp: WriteStatus_def finishStatus_def Let_def quietIO_def split: if_splits prod.splits option.splits)

theorem WriteStatus_atomic_witness:
  "\<exists>tr fs'. WriteStatus (quietIO ''st.1'') ''st'' [(2, 40), (1, 30)] [''st'' \<mapsto> ''old''] = (tr, fs', None) \<and>
     fs' = [''st'' \<mapsto> statusText [(1, 30), (2, 40)]]"
proof -
  obtain tr fs' r where h: "WriteStatus (quietIO ''st.1'') ''st'' [(2, 40), (1, 30)] [''st'' \<mapsto> ''old''] = (tr, fs', r)"
    by (metis prod_cases3)
  then have r: "r = None" by (rule WriteStatus_quiet)
  have "statusEntries [(2, 40), (1, 30)] = [(1, 30), (2, 40)]" by (simp add: statusEntries_def)
  then show ?thesis
    using WriteStatus_atomic [OF h] r h by (simp add: quietIO_def)
qed

subsection \<open>Reading back\<close>

definition in64 :: "int \<Rightarrow> bool" where
  "in64 i \<longleftrightarrow> - (2 ^ 63) \<le> i \<and> i < 2 ^ 63"

lemma atoi_itoa: "in64 i \<Longrightarrow> atoi (itoa i) = Inr i"
  by (simp add: atoi_def in64_def parseInt_itoa)

interpretation status: sep_codec "CHR 0x0A" statusLine parseStatusLine "\<lambda>e. e" "\<lambda>(g, p). in64 g \<and> in64 p"
proof
  fix e :: "int \<times> int"
  assume ok: "case e of (g, p) \<Rightarrow> in64 g \<and> in64 p"
  show "CHR 0x0A \<notin> set (statusLine e)" by (simp add: statusLine_def)
  have "goSplit (CHR '':'') (statusLine e) = [itoa (fst e), itoa (snd e)]"
    by (simp add: statusLine_def goSplit_append_sep goSplit_no_sep)
  with ok show "parseStatusLine (statusLine e) = Inr e"
    by (cases e) (simp add: parseStatusLine_def atoi_itoa)
qed

lemma statusText_join:
  "es \<noteq> [] \<Longrightarrow> statusText es = goJoin (CHR 0x0A) (map statusLine es) @ [CHR 0x0A]"
  by (induction es rule: induct_list012) (simp_all add: statusText_def)

lemma statusLine_not_Nil [simp]: "statusLine e \<noteq> []" "[] \<noteq> statusLine e"
  by (simp_all add: statusLine_def)

lemma join_hd: "xs \<noteq> [] \<Longrightarrow> hd xs \<noteq> [] \<Longrightarrow> hd (goJoin c xs) = hd (hd xs)"
  by (induction c xs rule: goJoin.induct) auto

lemma goJoin_Nil_iff: "goJoin c xs = [] \<longleftrightarrow> xs = [] \<or> xs = [[]]"
  by (induction c xs rule: goJoin.induct) auto

lemma join_last: "xs \<noteq> [] \<Longrightarrow> last xs \<noteq> [] \<Longrightarrow> last (goJoin c xs) = last (last xs)"
  by (induction c xs rule: goJoin.induct) (auto simp: goJoin_Nil_iff)

lemma trimSpace_newline:
  assumes "s \<noteq> []" and "hd s = CHR ''-'' \<or> isDigit (hd s)" and "isDigit (last s)"
  shows "trimSpace (s @ [CHR 0x0A]) = s"
proof -
  have "cutAny spaceSeqs (s @ [CHR 0x0A]) = None"
    using assms(1,2) by (intro no_leading_space) auto
  then have a: "stripSeqs spaceSeqs (s @ [CHR 0x0A]) = s @ [CHR 0x0A]" by (rule stripSeqs_id)
  have "cutAny (map rev spaceSeqs) (CHR 0x0A # rev s) = Some (rev s)"
    by (simp add: spaceSeqs_def)
  then have "stripSeqs (map rev spaceSeqs) (CHR 0x0A # rev s) = stripSeqs (map rev spaceSeqs) (rev s)"
    by (simp add: stripSeqs.simps [of _ "CHR 0x0A # rev s"])
  also have "\<dots> = rev s" using assms(1,3) by (intro stripSeqs_id no_trailing_space)
  finally show ?thesis by (simp add: trimSpace_def a)
qed

lemma trimSpace_statusText:
  assumes "es \<noteq> []"
  shows "trimSpace (statusText es) = goJoin (CHR 0x0A) (map statusLine es)"
proof -
  let ?s = "goJoin (CHR 0x0A) (map statusLine es)"
  have "?s \<noteq> []" using assms by (intro goJoin_not_Nil) (simp_all add: hd_map)
  moreover have "hd ?s = hd (itoa (fst (hd es)))"
    using assms by (simp add: join_hd hd_map statusLine_def)
  moreover have "last ?s = last (itoa (snd (last es)))"
    using assms by (simp add: join_last last_map statusLine_def)
  ultimately show ?thesis
    using assms itoa_hd itoa_last by (simp add: statusText_join trimSpace_newline)
qed

lemma readStatusLines_ok:
  assumes "mapE parseStatusLine ls = Inr es" and "[] \<notin> set ls" and "distinct (map fst (m @ es))"
  shows "readStatusLines m ls = Inr (m @ es)"
  using assms
proof (induction ls arbitrary: m es)
  case (Cons l ls)
  then obtain g p es' where e: "parseStatusLine l = Inr (g, p)" and es: "mapE parseStatusLine ls = Inr es'"
      and eq: "es = (g, p) # es'"
    by (auto split: sum.splits)
  from Cons.prems eq have fresh: "g \<notin> fst ` set m" by auto
  have "readStatusLines (m @ [(g, p)]) ls = Inr ((m @ [(g, p)]) @ es')"
    using Cons.prems(2,3) eq by (intro Cons.IH [OF es]) simp_all
  with e fresh eq Cons.prems(2) show ?case by (auto simp: update_fresh)
qed simp

definition healthyFile :: "string \<Rightarrow> stateFile" where
  "healthyFile data = \<lparr>s_ctxErr1 = None, s_openErr = None, s_statErr = None, s_regular = True,
     s_size = int (length data), s_data = data, s_readErr = None, s_ctxErr2 = None\<rparr>"

lemma limitRead_all: "int (length s) \<le> n \<Longrightarrow> limitRead n s = s"
  by (induction n s rule: limitRead.induct) auto

lemma readStateFile_healthy:
  "int (length data) \<le> n \<Longrightarrow> readStateFile (healthyFile data) n = Inr data"
  by (simp add: readStateFile_def healthyFile_def limitRead_all)

lemma ReadStatus_entries:
  assumes "distinct_keys es" and "\<forall>(g, p) \<in> set es. in64 g \<and> in64 p"
    and "int (length (statusText es)) \<le> maxStatusFileSize"
  shows "ReadStatus (healthyFile (statusText es)) = Inr es"
proof (cases "es = []")
  case True
  then show ?thesis
    by (simp add: ReadStatus_def readStateFile_healthy maxStatusFileSize_def statusText_def trimSpace_id
        spaceFree_def cutAny_None hasPrefix_iff spaceSeqs_def)
next
  case False
  let ?ls = "goSplit (CHR 0x0A) (goJoin (CHR 0x0A) (map statusLine es))"
  have "?ls = map statusLine es" using False assms(2) by (rule status.split_encoded)
  moreover have "mapE parseStatusLine ?ls = Inr es"
    using status.decode_list [OF False assms(2)] by simp
  ultimately have "readStatusLines [] ?ls = Inr ([] @ es)"
    using assms(1) by (intro readStatusLines_ok) (auto simp: distinct_keys_def)
  with False assms(3) show ?thesis
    by (simp add: ReadStatus_def readStateFile_healthy trimSpace_statusText)
qed

lemma status_read_back:
  assumes "distinct (map snd oldWorkers)" and "generation \<notin> snd ` set oldWorkers"
    and "\<forall>(p, g) \<in> set ((cur, generation) # oldWorkers). in64 p \<and> in64 g"
    and "WriteStatus io fn (StatusMap oldWorkers cur generation) fs = (tr, fs', None)"
    and "fn \<noteq> []" and "w_tmp io \<noteq> fn" and "fs (w_tmp io) = None"
    and "int (length (statusText (statusEntries (StatusMap oldWorkers cur generation)))) \<le> maxStatusFileSize"
  shows "\<exists>data status. fs' fn = Some data \<and> ReadStatus (healthyFile data) = Inr status \<and>
    sorted (map fst status) \<and>
    set status = {(g, p). (p, g) \<in> set oldWorkers} \<union> (if cur = 0 then {} else {(generation, cur)})"
proof -
  let ?m = "StatusMap oldWorkers cur generation"
  have d: "distinct_keys ?m" by (rule StatusMap_distinct)
  have s: "set (statusEntries ?m) =
      {(g, p). (p, g) \<in> set oldWorkers} \<union> (if cur = 0 then {} else {(generation, cur)})"
    using d StatusMap_set [OF assms(1,2)] by (simp add: statusEntries_set)
  have "distinct_keys (statusEntries ?m)"
    using d by (simp add: distinct_keys_def statusEntries_keys)
  moreover have "\<forall>(g, p) \<in> set (statusEntries ?m). in64 g \<and> in64 p"
    using s assms(3) by (auto split: if_splits)
  ultimately have "ReadStatus (healthyFile (statusText (statusEntries ?m))) = Inr (statusEntries ?m)"
    using assms(8) by (rule ReadStatus_entries)
  moreover have "fs' = fs(fn \<mapsto> statusText (statusEntries ?m))"
    using published [OF assms(4-7)] .
  ultimately show ?thesis
    using s by (intro exI [of _ "statusText (statusEntries ?m)"] exI [of _ "statusEntries ?m"])
      (simp add: statusEntries_keys)
qed

text \<open>
  What the supervisor publishes is what a reader gets. When the generations of the old
  workers are distinct and different from the current one, a status file written without error
  reads back as exactly the table of live workers: one entry for every old worker and one for
  the current worker if there is one, ascending by generation.
\<close>

theorem published_status_read_back:
  assumes "distinct (map snd oldWorkers)" and "generation \<notin> snd ` set oldWorkers"
    and "\<forall>(p, g) \<in> set ((cur, generation) # oldWorkers). in64 p \<and> in64 g"
    and "WriteStatus io fn (StatusMap oldWorkers cur generation) fs = (tr, fs', None)"
    and "fn \<noteq> []" and "w_tmp io \<noteq> fn" and "fs (w_tmp io) = None"
    and "int (length (statusText (statusEntries (StatusMap oldWorkers cur generation)))) \<le> maxStatusFileSize"
  shows "\<exists>data status. fs' fn = Some data \<and> ReadStatus (healthyFile data) = Inr status \<and>
    sorted (map fst status) \<and>
    set status = {(g, p). (p, g) \<in> set oldWorkers} \<union> (if cur = 0 then {} else {(generation, cur)})"
  using assms by (rule status_read_back)

theorem published_status_read_back_witness:
  "\<exists>tr fs' data status.
     WriteStatus (quietIO ''st.1'') ''st'' (StatusMap [(30, 1)] 40 2) Map.empty = (tr, fs', None) \<and>
     fs' ''st'' = Some data \<and> ReadStatus (healthyFile data) = Inr status \<and> set status = {(1, 30), (2, 40)}"
proof -
  have e: "StatusMap [(30, 1)] 40 2 = [(1, 30), (2, 40)]" by (simp add: StatusMap_def)
  obtain tr fs' r where h: "WriteStatus (quietIO ''st.1'') ''st'' (StatusMap [(30, 1)] 40 2) Map.empty = (tr, fs', r)"
    by (metis prod_cases3)
  then have r: "r = None" by (rule WriteStatus_quiet)
  have len: "int (length (statusText (statusEntries (StatusMap [(30, 1)] 40 2)))) \<le> maxStatusFileSize"
    by code_simp
  have "\<exists>data status. fs' ''st'' = Some data \<and> ReadStatus (healthyFile data) = Inr status \<and>
    sorted (map fst status) \<and>
    set status = {(g, p). (p, g) \<in> set [(30, 1)]} \<union> (if (40::int) = 0 then {} else {(2, 40)})"
    by (rule published_status_read_back [OF _ _ _ h [unfolded r] _ _ _ len])
       (simp_all add: in64_def quietIO_def)
  moreover have "{(g, p). (p, g) \<in> set [(30, 1)]} \<union> (if (40::int) = 0 then {} else {(2, 40)}) = {(1, 30), (2, 40 :: int)}"
    by auto
  ultimately show ?thesis using h r by metis
qed

text \<open>
  The reader of a pid file. It returns only process ids between 1 and 2^31 - 1 and only
  from a regular file of at most 64 bytes, and it reads back every such id that was written as
  a decimal line.
\<close>

theorem ReadPID_bounds:
  "(ReadPID f = Inr pid \<longrightarrow> 0 < pid \<and> pid < 2 ^ 31 \<and> s_regular f \<and> s_size f \<le> 64 \<and> int (length (s_data f)) \<le> 64) \<and>
   (0 < pid \<longrightarrow> pid < 2 ^ 31 \<longrightarrow> ReadPID (healthyFile (itoa pid @ [CHR 0x0A])) = Inr pid)"
proof (intro conjI impI)
  assume r: "ReadPID f = Inr pid"
  then obtain data where d: "readStateFile f maxPIDFileSize = Inr data" and p: "parseInt 32 (trimSpace data) = Inr pid"
      and pos: "0 < pid"
    by (auto simp: ReadPID_def split: sum.splits if_splits)
  show "0 < pid" by (rule pos)
  show "pid < 2 ^ 31" using parseInt_bound [OF p] by simp
  show "s_regular f" "s_size f \<le> 64"
    using d by (auto simp: readStateFile_def maxPIDFileSize_def split: option.splits if_splits)
  have "int (length (limitRead 65 (s_data f))) \<le> 64"
    using d by (auto simp: readStateFile_def maxPIDFileSize_def Let_def split: option.splits if_splits)
  then show "int (length (s_data f)) \<le> 64" by (simp add: limitRead_take)
next
  assume p: "0 < pid" "pid < 2 ^ 31"
  have "int (length (itoa pid)) \<le> 63"
    using length_formatUint [of pid 32] p by (simp add: itoa_nonneg)
  moreover have "trimSpace (itoa pid @ [CHR 0x0A]) = itoa pid"
    using itoa_hd itoa_last by (intro trimSpace_newline) auto
  ultimately show "ReadPID (healthyFile (itoa pid @ [CHR 0x0A])) = Inr pid"
    using p by (simp add: ReadPID_def readStateFile_healthy maxPIDFileSize_def parseInt_itoa)
qed

theorem ReadPID_bounds_witness:
  "ReadPID (healthyFile (itoa 4711 @ [CHR 0x0A])) = Inr 4711 \<and> (0::int) < 4711"
  using ReadPID_bounds [of "healthyFile (itoa 4711 @ [CHR 0x0A])" 4711] by simp

end
