(* ===== verification/Controller.thy ===== *)
theory Controller
  imports Prelude
begin

text \<open>
  The handle of a running supervisor (\<open>internal/supervisor/controller.go\<close>): a done channel, the
  terminal error, and a hangup channel with a buffer of one.
\<close>

record 'e Controller =
  ctl_done :: bool
  ctl_err :: "'e option"
  ctl_hangup :: bool

definition newController :: "'e Controller" where
  "newController = \<lparr>ctl_done = False, ctl_err = None, ctl_hangup = False\<rparr>"

definition Done :: "'e Controller \<Rightarrow> bool" where
  "Done c = ctl_done c"

definition Err :: "'e Controller \<Rightarrow> 'e option" where
  "Err c = ctl_err c"

text \<open>\<open>Wait\<close> blocks until the done channel is closed: \<open>None\<close> means that it blocks.\<close>

definition Wait :: "'e Controller \<Rightarrow> 'e option option" where
  "Wait c = (if ctl_done c then Some (Err c) else None)"

text \<open>A send on a full buffer takes the default branch.\<close>

definition Hangup :: "'e Controller \<Rightarrow> 'e Controller" where
  "Hangup c = (if ctl_hangup c then c else c\<lparr>ctl_hangup := True\<rparr>)"

definition setErr :: "'e Controller \<Rightarrow> 'e option \<Rightarrow> 'e Controller" where
  "setErr c e = (case e of Some x \<Rightarrow> c\<lparr>ctl_err := Some x\<rparr> | None \<Rightarrow> c)"

text \<open>The non-blocking receive that the loop uses to fold a request into a restart.\<close>

definition drainHangup :: "'e Controller \<Rightarrow> 'e Controller" where
  "drainHangup c = c\<lparr>ctl_hangup := False\<rparr>"

definition closeDone :: "'e Controller \<Rightarrow> 'e Controller" where
  "closeDone c = c\<lparr>ctl_done := True\<rparr>"

lemma controller_simps [simp]:
  "ctl_hangup (Hangup c)" "ctl_err (Hangup c) = ctl_err c" "ctl_done (Hangup c) = ctl_done c"
  "ctl_hangup (setErr c e) = ctl_hangup c" "ctl_done (setErr c e) = ctl_done c"
  "ctl_err (setErr c e) = (if e = None then ctl_err c else e)"
  "\<not> ctl_hangup (drainHangup c)" "ctl_err (drainHangup c) = ctl_err c" "ctl_done (drainHangup c) = ctl_done c"
  "ctl_done (closeDone c)" "ctl_err (closeDone c) = ctl_err c" "ctl_hangup (closeDone c) = ctl_hangup c"
  by (simp_all add: Hangup_def setErr_def drainHangup_def closeDone_def split: option.splits)

end
