(* ===== verification/Supervisor.thy ===== *)
theory Supervisor
  imports Worker StatusFile Controller
begin

text \<open>
  The lifecycle of the supervisor (\<open>internal/supervisor/supervisor.go\<close>): the setup in \<open>run\<close>, the
  main loop with its four sources of events, and the shutdown. The loop is a function of the
  event that wins the \<open>select\<close> and of the answers of the operating system; a step relation
  composes it with the requests that arrive from outside and with the set of live processes.
\<close>

subsection \<open>State\<close>

datatype run_error =
    RunSpec spec_error
  | RunAssign assign_error
  | RunFormat format_error
  | RunPidFile string
  | RunListen string
  | RunPath path_error
  | RunEnv env_error
  | RunStart start_error
  | RunCtx
  | ErrServerClosed

record runState =
  rs_pidFile :: bool
  rs_listeners :: "listener list"
  rs_descriptors :: "int list"
  rs_generation :: int
  rs_overlay :: "(string \<times> string) list"
  rs_oldWorkers :: "(pid \<times> int) list"
  rs_timer :: bool
  rs_p :: "pid option"
  rs_sigToSend :: "Signal option"
  rs_hangupPending :: bool
  rs_ctrl :: "run_error Controller"

text \<open>What the supervisor does to the world, in the order it does it.\<close>

datatype effect =
    EfAcquirePidFile
  | EfBindSocket nat
  | EfBindPacket nat
  | EfKeepPath nat
  | EfStatus "(int \<times> pid) list"
  | EfRounds "round list"
  | EfWorker pid int
  | EfResetTimer
  | EfStopTimer
  | EfSleep duration
  | EfSignal pid Signal
  | EfKill pid
  | EfCloseStateDone
  | EfClosePidFile
  | EfRemoveStatus
  | EfCloseSocket nat
  | EfClosePacket nat
  | EfStartup "run_error option"
  | EfCloseDone

text \<open>The fixed surroundings of a run.\<close>

record world =
  w_starter :: Starter
  w_platform :: platform
  w_policy :: workerStartErrorPolicy
  w_lookCmd :: "string \<Rightarrow> string"

text \<open>The answers to one attempt to bring up a worker.\<close>

record answers =
  an_readDir :: "string \<Rightarrow> string + envEntry list"
  an_attempts :: "attempt list"
  an_ctxErr :: bool
  an_findOk :: "pid \<Rightarrow> bool"

datatype flow = Continue runState | Return runState

subsection \<open>Bringing up a worker\<close>

definition workerStartCanceled :: "bool \<Rightarrow> start_error \<Rightarrow> bool" where
  "workerStartCanceled ctxErr e \<longleftrightarrow> ctxErr \<and> e = StartCtx"

definition reloadEnvdir :: "world \<Rightarrow> (string \<Rightarrow> string + envEntry list) \<Rightarrow> runState \<Rightarrow> env_error + runState" where
  "reloadEnvdir w readDir rs =
     (case reloadEnv readDir (envdir (w_starter w)) of
        Inl e \<Rightarrow> Inl e
      | Inr overlay \<Rightarrow> Inr (rs\<lparr>rs_overlay := overlay\<rparr>))"

definition failWith :: "world \<Rightarrow> run_error \<Rightarrow> runState \<Rightarrow> runState" where
  "failWith w e rs = rs\<lparr>rs_sigToSend := Some (signalOnTERM (w_starter w)), rs_ctrl := setErr (rs_ctrl rs) (Some e)\<rparr>"

text \<open>
  Reload the envdir and start a worker; \<open>Inl\<close> is the state with which the loop returns. \<open>None\<close>
  means that the start loop is still running when the answers are used up.
\<close>

definition bringUp ::
  "world \<Rightarrow> answers \<Rightarrow> runState \<Rightarrow> ((runState + runState) \<times> effect list) option" where
  "bringUp w an rs =
     (case reloadEnvdir w (an_readDir an) rs of
        Inl e \<Rightarrow> Some (Inl (failWith w (RunEnv e) rs), [])
      | Inr rs1 \<Rightarrow>
          (case startWorker (w_starter w) (w_platform w) (w_policy w) False (rs_listeners rs1)
                  (rs_descriptors rs1) (rs_overlay rs1) (w_lookCmd w) (rs_generation rs1) (an_attempts an) of
             None \<Rightarrow> None
           | Some r \<Rightarrow>
               let rs2 = rs1\<lparr>rs_generation := st_generation r\<rparr> in
               (case st_result r of
                  Inl e \<Rightarrow>
                    Some (Inl (failWith w (if workerStartCanceled (an_ctxErr an) e then ErrServerClosed
                                           else RunStart e) rs2), [EfRounds (st_rounds r)])
                | Inr pid \<Rightarrow>
                    Some (Inr (rs2\<lparr>rs_p := Some pid\<rparr>),
                          [EfRounds (st_rounds r), EfWorker pid (st_generation r)]))))"

subsection \<open>One iteration of the loop\<close>

datatype event =
    WorkerExit pid answers
  | CtxDone
  | HangupReceived answers
  | RestartTimer answers

definition currentPID :: "runState \<Rightarrow> pid" where
  "currentPID rs = (case rs_p rs of Some p \<Rightarrow> p | None \<Rightarrow> 0)"

definition writeStatus :: "runState \<Rightarrow> effect list" where
  "writeStatus rs = [EfStatus (StatusMap (rs_oldWorkers rs) (currentPID rs) (rs_generation rs))]"

definition resetTimer :: "runState \<Rightarrow> effect list" where
  "resetTimer rs = (if rs_timer rs then [EfResetTimer] else [])"

definition retireCurrent :: "runState \<Rightarrow> runState" where
  "retireCurrent rs =
     (case rs_p rs of
        Some p \<Rightarrow> rs\<lparr>rs_oldWorkers := AList.update p (rs_generation rs) (rs_oldWorkers rs)\<rparr>
      | None \<Rightarrow> rs)"

text \<open>The signals to the old workers after a restart.\<close>

definition killOldWorkers :: "world \<Rightarrow> (pid \<Rightarrow> bool) \<Rightarrow> runState \<Rightarrow> effect list" where
  "killOldWorkers w findOk rs =
     (if rs_oldWorkers rs = [] then []
      else (if killOldDelay (w_starter w) > 0 then [EfSleep (killOldDelay (w_starter w))] else [])
           @ map (\<lambda>(pid, gen). EfSignal pid (signalOnHUP (w_starter w)))
               (filter (\<lambda>(pid, gen). findOk pid) (rs_oldWorkers rs)))"

text \<open>The part under \<open>if restart\<close>.\<close>

definition restartStep :: "world \<Rightarrow> answers \<Rightarrow> runState \<Rightarrow> (flow \<times> effect list) option" where
  "restartStep w an rs =
     (case bringUp w an ((retireCurrent rs)\<lparr>rs_p := None\<rparr>) of
        None \<Rightarrow> None
      | Some (Inl rs1, effs) \<Rightarrow> Some (Return rs1, effs)
      | Some (Inr rs1, effs) \<Rightarrow>
          Some (Continue (rs1\<lparr>rs_ctrl := drainHangup (rs_ctrl rs1)\<rparr>),
                effs @ resetTimer rs1 @ killOldWorkers w (an_findOk an) rs1))"

text \<open>The case of a worker's exit: the current worker, or an old one.\<close>

definition exitStep :: "world \<Rightarrow> pid \<Rightarrow> answers \<Rightarrow> runState \<Rightarrow> (flow \<times> effect list) option" where
  "exitStep w pid an rs =
     (if rs_p rs = Some pid then
        (case bringUp w an (rs\<lparr>rs_p := None\<rparr>) of
           None \<Rightarrow> None
         | Some (Inl rs1, effs) \<Rightarrow> Some (Return rs1, effs)
         | Some (Inr rs1, effs) \<Rightarrow>
             Some (Continue (rs1\<lparr>rs_ctrl := drainHangup (rs_ctrl rs1)\<rparr>), effs @ resetTimer rs1))
      else
        let rs1 = rs\<lparr>rs_oldWorkers := AList.delete pid (rs_oldWorkers rs)\<rparr> in
        if rs_oldWorkers rs1 = [] \<and> rs_hangupPending rs1
        then restartStep w an (rs1\<lparr>rs_ctrl := drainHangup (rs_ctrl rs1), rs_hangupPending := False,
                                    rs_sigToSend := Some (signalOnHUP (w_starter w))\<rparr>)
        else Some (Continue rs1, []))"

text \<open>The select statement; an event that cannot win it has no result.\<close>

definition selectStep :: "world \<Rightarrow> event \<Rightarrow> runState \<Rightarrow> (flow \<times> effect list) option" where
  "selectStep w ev rs =
     (case ev of
        WorkerExit pid an \<Rightarrow> exitStep w pid an rs
      | CtxDone \<Rightarrow> Some (Return (failWith w ErrServerClosed rs), [])
      | HangupReceived an \<Rightarrow>
          if \<not> ctl_hangup (rs_ctrl rs) then None
          else let rs1 = rs\<lparr>rs_ctrl := drainHangup (rs_ctrl rs)\<rparr> in
               if rs_oldWorkers rs1 = []
               then restartStep w an (rs1\<lparr>rs_sigToSend := Some (signalOnHUP (w_starter w))\<rparr>)
               else Some (Continue (rs1\<lparr>rs_hangupPending := True\<rparr>), [])
      | RestartTimer an \<Rightarrow>
          if \<not> rs_timer rs then None
          else if rs_oldWorkers rs = [] then restartStep w an rs
          else Some (Continue rs, resetTimer rs))"

definition loopIter :: "world \<Rightarrow> event \<Rightarrow> runState \<Rightarrow> (flow \<times> effect list) option" where
  "loopIter w ev rs =
     map_option (\<lambda>(fl, effs). (fl, writeStatus rs @ effs)) (selectStep w ev rs)"

subsection \<open>Shutdown\<close>

datatype waitEvent = Exited pid | TimedOut

text \<open>\<open>None\<close> means that the wait is still going when the given events are used up.\<close>

fun waitForWorkers ::
  "int \<Rightarrow> waitEvent list \<Rightarrow> (pid \<times> int) list \<Rightarrow> (bool \<times> (pid \<times> int) list \<times> effect list) option" where
  "waitForWorkers g evs [] = Some (True, [], [])"
| "waitForWorkers g [] (o' # os) = None"
| "waitForWorkers g (TimedOut # evs) (o' # os) = Some (False, o' # os, [])"
| "waitForWorkers g (Exited pid # evs) (o' # os) =
     (let old = AList.delete pid (o' # os) in
      map_option (\<lambda>(ok, left, effs). (ok, left, EfStatus (StatusMap old 0 g) # effs)) (waitForWorkers g evs old))"

record shutdownAnswers =
  sd_findOk :: "pid \<Rightarrow> bool"
  sd_wait :: "waitEvent list"
  sd_findOk2 :: "pid \<Rightarrow> bool"
  sd_wait2 :: "waitEvent list"

definition signalAll :: "(pid \<Rightarrow> bool) \<Rightarrow> (pid \<Rightarrow> effect) \<Rightarrow> (pid \<times> int) list \<Rightarrow> effect list" where
  "signalAll findOk f old = map (\<lambda>(pid, gen). f pid) (filter (\<lambda>(pid, gen). findOk pid) old)"

text \<open>A signal value of \<open>None\<close> is the nil signal, which \<open>Process.Signal\<close> refuses.\<close>

definition shutdownWorkers ::
  "shutdownAnswers \<Rightarrow> runState \<Rightarrow> (runState \<times> effect list) option" where
  "shutdownWorkers sd rs =
     (let sent = (case rs_sigToSend rs of
                    Some sig \<Rightarrow> signalAll (sd_findOk sd) (\<lambda>pid. EfSignal pid sig) (rs_oldWorkers rs)
                  | None \<Rightarrow> []) in
      case waitForWorkers (rs_generation rs) (sd_wait sd) (rs_oldWorkers rs) of
        None \<Rightarrow> None
      | Some (True, left, effs) \<Rightarrow> Some (rs\<lparr>rs_oldWorkers := left\<rparr>, sent @ effs)
      | Some (False, left, effs) \<Rightarrow>
          (case waitForWorkers (rs_generation rs) (sd_wait2 sd) left of
             None \<Rightarrow> None
           | Some (_, left2, effs2) \<Rightarrow>
               Some (rs\<lparr>rs_oldWorkers := left2\<rparr>,
                     sent @ effs @ signalAll (sd_findOk2 sd) EfKill left @ effs2)))"

definition teardown :: "world \<Rightarrow> runState \<Rightarrow> effect list" where
  "teardown w rs =
     (if statusFile (w_starter w) \<noteq> [] then [EfRemoveStatus] else []) @
     concat (map (\<lambda>l. (case l_listener l of Some h \<Rightarrow> [EfCloseSocket h] | None \<Rightarrow> []) @
                      (case l_packet l of Some h \<Rightarrow> [EfClosePacket h] | None \<Rightarrow> [])) (rs_listeners rs))"

text \<open>The deferred calls common to every way out of the loop, innermost first.\<close>

definition releaseAll :: "world \<Rightarrow> runState \<Rightarrow> runState \<times> effect list" where
  "releaseAll w rs =
     (rs\<lparr>rs_ctrl := closeDone (rs_ctrl rs)\<rparr>,
      (if rs_pidFile rs then [EfClosePidFile] else []) @ teardown w rs @ [EfCloseDone])"

text \<open>The way out once a worker had been started.\<close>

definition finishLoop :: "world \<Rightarrow> shutdownAnswers \<Rightarrow> runState \<Rightarrow> (runState \<times> effect list) option" where
  "finishLoop w sd rs =
     (case shutdownWorkers sd (retireCurrent rs) of
        None \<Rightarrow> None
      | Some (rs1, effs) \<Rightarrow>
          (case releaseAll w rs1 of
             (rs2, effs2) \<Rightarrow>
               Some (rs2, effs @ [EfCloseStateDone] @ (if rs_timer rs1 then [EfStopTimer] else []) @ effs2)))"

subsection \<open>The start of the loop\<close>

record startAnswers =
  sa_attempts :: "attempt list"
  sa_ctxErr :: bool

text \<open>
  Up to the loop proper. The second component is the state with which the loop is entered, or
  nothing when the function has returned; \<open>waitForStartup\<close> is the presence of the channel.
\<close>

definition loopStart ::
  "world \<Rightarrow> startAnswers \<Rightarrow> bool \<Rightarrow> runState \<Rightarrow> ((runState + runState) \<times> effect list) option" where
  "loopStart w sa waitForStartup rs =
     (case startWorker (w_starter w) (w_platform w) (w_policy w) waitForStartup (rs_listeners rs)
             (rs_descriptors rs) (rs_overlay rs) (w_lookCmd w) (rs_generation rs) (sa_attempts sa) of
        None \<Rightarrow> None
      | Some r \<Rightarrow>
          let rs1 = rs\<lparr>rs_generation := st_generation r\<rparr>;
              startup = (case st_result r of
                           Inl e \<Rightarrow> Some (if workerStartCanceled (sa_ctxErr sa) e then RunCtx else RunStart e)
                         | Inr _ \<Rightarrow> if sa_ctxErr sa then Some RunCtx else None);
              said = EfRounds (st_rounds r) # (if waitForStartup then [EfStartup startup] else [])
          in (case st_result r of
                Inl e \<Rightarrow>
                  (case releaseAll w (rs1\<lparr>rs_ctrl := setErr (rs_ctrl rs1)
                           (Some (if workerStartCanceled (sa_ctxErr sa) e then ErrServerClosed else RunStart e))\<rparr>) of
                     (rs2, effs) \<Rightarrow> Some (Inl rs2, said @ effs))
              | Inr pid \<Rightarrow>
                  Some (Inr (rs1\<lparr>rs_p := Some pid, rs_oldWorkers := [], rs_hangupPending := False,
                                 rs_sigToSend := None, rs_timer := enableAutoRestart (w_starter w)\<rparr>),
                        said @ [EfWorker pid (st_generation r)])))"

subsection \<open>The system: loop, requests and processes\<close>

text \<open>
  \<open>sy_live\<close> are the processes that were started and whose exit the loop has not been told. An
  exit is reported once per process, and a new process has a positive id that no live process
  has. Requests from outside only fill the buffer of the hangup channel.
\<close>

record sys =
  sy_rs :: runState
  sy_live :: "pid list"

fun newWorkers :: "effect list \<Rightarrow> pid list" where
  "newWorkers [] = []"
| "newWorkers (EfWorker pid g # effs) = pid # newWorkers effs"
| "newWorkers (_ # effs) = newWorkers effs"

definition afterExit :: "event \<Rightarrow> pid list \<Rightarrow> pid list" where
  "afterExit ev live = (case ev of WorkerExit pid _ \<Rightarrow> removeAll pid live | _ \<Rightarrow> live)"

definition exitsLive :: "event \<Rightarrow> pid list \<Rightarrow> bool" where
  "exitsLive ev live = (case ev of WorkerExit pid _ \<Rightarrow> pid \<in> set live | _ \<Rightarrow> True)"

inductive sysStep :: "world \<Rightarrow> sys \<Rightarrow> sys \<Rightarrow> bool" for w where
  request: "sysStep w s (s\<lparr>sy_rs := (sy_rs s)\<lparr>rs_ctrl := Hangup (rs_ctrl (sy_rs s))\<rparr>\<rparr>)"
| iterate: "loopIter w ev (sy_rs s) = Some (Continue rs', effs) \<Longrightarrow> exitsLive ev (sy_live s) \<Longrightarrow>
    live' = newWorkers effs @ afterExit ev (sy_live s) \<Longrightarrow> distinct live' \<Longrightarrow>
    \<forall>p \<in> set (newWorkers effs). 0 < p \<Longrightarrow> sysStep w s \<lparr>sy_rs = rs', sy_live = live'\<rparr>"

definition sysInit :: "world \<Rightarrow> sys \<Rightarrow> bool" where
  "sysInit w s \<longleftrightarrow> (\<exists>sa wait rs effs pid. loopStart w sa wait rs = Some (Inr (sy_rs s), effs) \<and>
     rs_generation rs = 0 \<and> newWorkers effs = [pid] \<and> 0 < pid \<and> sy_live s = [pid])"

inductive_cases sysStep_cases: "sysStep w s t"

subsection \<open>Lemmas on the steps\<close>

lemma newWorkers_append [simp]: "newWorkers (a @ b) = newWorkers a @ newWorkers b"
  by (induction a rule: newWorkers.induct) auto

lemma newWorkers_none [simp]:
  "newWorkers (writeStatus rs) = []" "newWorkers (resetTimer rs) = []"
  "newWorkers (map (\<lambda>(pid, gen). EfSignal pid sg) xs) = []"
  by (simp_all add: writeStatus_def resetTimer_def) (induction xs; auto)

lemma newWorkers_killOld [simp]: "newWorkers (killOldWorkers w findOk rs) = []"
  by (simp add: killOldWorkers_def)

definition started :: "pid \<Rightarrow> int \<Rightarrow> (string \<times> string) list \<Rightarrow> runState \<Rightarrow> runState" where
  "started pid g ov rs = rs\<lparr>rs_overlay := ov, rs_generation := g, rs_p := Some pid\<rparr>"

lemma started_simps [simp]:
  "rs_p (started pid g ov rs) = Some pid" "rs_generation (started pid g ov rs) = g"
  "rs_oldWorkers (started pid g ov rs) = rs_oldWorkers rs" "rs_ctrl (started pid g ov rs) = rs_ctrl rs"
  "rs_hangupPending (started pid g ov rs) = rs_hangupPending rs" "rs_timer (started pid g ov rs) = rs_timer rs"
  "rs_listeners (started pid g ov rs) = rs_listeners rs" "rs_descriptors (started pid g ov rs) = rs_descriptors rs"
  "rs_sigToSend (started pid g ov rs) = rs_sigToSend rs" "rs_pidFile (started pid g ov rs) = rs_pidFile rs"
  by (simp_all add: started_def)

lemma bringUp_Inr:
  assumes "bringUp w an rs = Some (Inr rs', effs)"
  obtains pid g ov rounds where "rs' = started pid g ov rs" and "rs_generation rs < g"
    and "effs = [EfRounds rounds, EfWorker pid g]"
    and "startWorker (w_starter w) (w_platform w) (w_policy w) False (rs_listeners rs)
       (rs_descriptors rs) ov (w_lookCmd w) (rs_generation rs) (an_attempts an) =
       Some \<lparr>st_result = Inr pid, st_generation = g, st_rounds = rounds\<rparr>"
proof -
  from assms obtain ov r where ov: "reloadEnvdir w (an_readDir an) rs = Inr (rs\<lparr>rs_overlay := ov\<rparr>)"
      and r: "startWorker (w_starter w) (w_platform w) (w_policy w) False (rs_listeners rs)
       (rs_descriptors rs) ov (w_lookCmd w) (rs_generation rs) (an_attempts an) = Some r"
    by (auto simp: bringUp_def reloadEnvdir_def Let_def split: sum.splits option.splits)
  from assms ov r obtain pid where p: "st_result r = Inr pid"
    and "rs' = started pid (st_generation r) ov rs" "effs = [EfRounds (st_rounds r), EfWorker pid (st_generation r)]"
    by (auto simp: bringUp_def Let_def started_def split: sum.splits)
  moreover have "rs_generation rs < st_generation r"
    using worker_start.gen_fresh [of "w_starter w" "w_platform w" "w_policy w" False "rs_listeners rs"
        "rs_descriptors rs" "w_lookCmd w" "rs_generation rs" "(an_attempts an, ov)" r pid] r p by simp
  ultimately show thesis using that [of pid "st_generation r" ov "st_rounds r"] r by simp
qed

lemma bringUp_Inl:
  assumes "bringUp w an rs = Some (Inl rs', effs)"
  shows "newWorkers effs = [] \<and> rs_sigToSend rs' = Some (signalOnTERM (w_starter w)) \<and>
    rs_oldWorkers rs' = rs_oldWorkers rs \<and> rs_p rs' = rs_p rs \<and> rs_generation rs \<le> rs_generation rs' \<and>
    rs_listeners rs' = rs_listeners rs \<and> rs_pidFile rs' = rs_pidFile rs \<and> rs_timer rs' = rs_timer rs \<and>
    (\<exists>e. ctl_err (rs_ctrl rs') = Some e)"
proof -
  have "g \<le> st_generation r" if "startWorker (w_starter w) (w_platform w) (w_policy w) False ls ds ov (w_lookCmd w) g as = Some r"
    for g r ls ds ov as
    using worker_start.gen_mono [of "w_starter w" "w_platform w" "w_policy w" False ls ds "w_lookCmd w" g "(as, ov)" r] that
    by simp
  with assms show ?thesis
    by (auto simp: bringUp_def reloadEnvdir_def failWith_def Let_def split: sum.splits option.splits)
qed

lemma retireCurrent_simps [simp]:
  "rs_generation (retireCurrent rs) = rs_generation rs" "rs_ctrl (retireCurrent rs) = rs_ctrl rs"
  "rs_hangupPending (retireCurrent rs) = rs_hangupPending rs" "rs_timer (retireCurrent rs) = rs_timer rs"
  "rs_listeners (retireCurrent rs) = rs_listeners rs" "rs_descriptors (retireCurrent rs) = rs_descriptors rs"
  "rs_sigToSend (retireCurrent rs) = rs_sigToSend rs" "rs_pidFile (retireCurrent rs) = rs_pidFile rs"
  "rs_oldWorkers (retireCurrent rs) = (case rs_p rs of None \<Rightarrow> rs_oldWorkers rs
     | Some p \<Rightarrow> AList.update p (rs_generation rs) (rs_oldWorkers rs))"
  by (simp_all add: retireCurrent_def split: option.splits)

lemma restartStep_Continue:
  assumes "restartStep w an rs = Some (Continue rs', effs)"
  obtains pid g ov rounds where
    "rs' = (started pid g ov ((retireCurrent rs)\<lparr>rs_p := None\<rparr>))\<lparr>rs_ctrl := drainHangup (rs_ctrl rs)\<rparr>"
    and "rs_generation rs < g"
    and "effs = [EfRounds rounds, EfWorker pid g] @ resetTimer rs @ killOldWorkers w (an_findOk an) (retireCurrent rs)"
proof -
  from assms obtain rs1 effs1 where b: "bringUp w an ((retireCurrent rs)\<lparr>rs_p := None\<rparr>) = Some (Inr rs1, effs1)"
    and rs': "rs' = rs1\<lparr>rs_ctrl := drainHangup (rs_ctrl rs1)\<rparr>"
    and e: "effs = effs1 @ resetTimer rs1 @ killOldWorkers w (an_findOk an) rs1"
    by (auto simp: restartStep_def split: option.splits prod.splits sum.splits)
  from b show thesis
  proof (rule bringUp_Inr)
    fix pid g ov rounds
    assume "rs1 = started pid g ov ((retireCurrent rs)\<lparr>rs_p := None\<rparr>)"
      and "rs_generation ((retireCurrent rs)\<lparr>rs_p := None\<rparr>) < g"
      and "effs1 = [EfRounds rounds, EfWorker pid g]"
    then show thesis
      using rs' e by (intro that [of pid g ov rounds]) (simp_all add: resetTimer_def killOldWorkers_def)
  qed
qed

subsection \<open>The cases of the select statement\<close>

fun evAnswers :: "event \<Rightarrow> answers option" where
  "evAnswers (WorkerExit _ an) = Some an"
| "evAnswers CtxDone = None"
| "evAnswers (HangupReceived an) = Some an"
| "evAnswers (RestartTimer an) = Some an"

definition exitOf :: "event \<Rightarrow> pid set" where
  "exitOf ev = (case ev of WorkerExit p _ \<Rightarrow> {p} | _ \<Rightarrow> {})"

lemma exitOf_simps [simp]:
  "exitOf (WorkerExit p an) = {p}" "exitOf CtxDone = {}" "exitOf (HangupReceived an) = {}" "exitOf (RestartTimer an) = {}"
  by (simp_all add: exitOf_def)

lemma set_afterExit [simp]: "set (afterExit ev live) = set live - exitOf ev"
  by (cases ev) (auto simp: afterExit_def)

text \<open>
  The state in which the part under \<open>if restart\<close> is entered: no old worker is left, but for the
  one whose exit is the event, and nothing else about the workers and resources has changed.
\<close>

definition restartsFrom :: "event \<Rightarrow> runState \<Rightarrow> runState \<Rightarrow> bool" where
  "restartsFrom ev rs rs0 \<longleftrightarrow>
     rs_p rs0 = rs_p rs \<and> rs_generation rs0 = rs_generation rs \<and> rs_oldWorkers rs0 = [] \<and>
     fst ` set (rs_oldWorkers rs) \<subseteq> exitOf ev \<and> exitOf ev \<inter> set_option (rs_p rs) = {} \<and>
     rs_pidFile rs0 = rs_pidFile rs \<and> rs_listeners rs0 = rs_listeners rs \<and> rs_timer rs0 = rs_timer rs \<and>
     (rs_hangupPending rs0 \<longrightarrow> rs_hangupPending rs \<and> rs_oldWorkers rs = [])"

lemma selectStep_cases:
  assumes "selectStep w ev rs = Some (fl, effs)"
  obtains (replaced) pid an rs1 effs1 where "ev = WorkerExit pid an" "rs_p rs = Some pid"
      "bringUp w an (rs\<lparr>rs_p := None\<rparr>) = Some (Inr rs1, effs1)"
      "fl = Continue (rs1\<lparr>rs_ctrl := drainHangup (rs_ctrl rs1)\<rparr>)" "effs = effs1 @ resetTimer rs1"
  | (failed) pid an rs1 where "ev = WorkerExit pid an" "rs_p rs = Some pid"
      "bringUp w an (rs\<lparr>rs_p := None\<rparr>) = Some (Inl rs1, effs)" "fl = Return rs1"
  | (restart) an rs0 where "evAnswers ev = Some an" "restartsFrom ev rs rs0" "restartStep w an rs0 = Some (fl, effs)"
  | (drained) pid an where "ev = WorkerExit pid an" "rs_p rs \<noteq> Some pid"
      "fl = Continue (rs\<lparr>rs_oldWorkers := AList.delete pid (rs_oldWorkers rs)\<rparr>)" "effs = []"
      "rs_hangupPending rs \<longrightarrow> AList.delete pid (rs_oldWorkers rs) \<noteq> []"
  | (cancelled) "ev = CtxDone" "fl = Return (failWith w ErrServerClosed rs)" "effs = []"
  | (coalesced) an where "ev = HangupReceived an" "rs_oldWorkers rs \<noteq> []" "effs = []"
      "fl = Continue (rs\<lparr>rs_ctrl := drainHangup (rs_ctrl rs), rs_hangupPending := True\<rparr>)"
  | (postponed) an where "ev = RestartTimer an" "rs_oldWorkers rs \<noteq> []" "fl = Continue rs" "effs = resetTimer rs"
proof (cases ev)
  case (WorkerExit pid an)
  show thesis
  proof (cases "rs_p rs = Some pid")
    case True
    with assms WorkerExit obtain r effs1 where b: "bringUp w an (rs\<lparr>rs_p := None\<rparr>) = Some (r, effs1)"
      by (auto simp: selectStep_def exitStep_def split: option.splits)
    with assms WorkerExit True show thesis
      by (cases r) (auto simp: selectStep_def exitStep_def intro: replaced failed)
  next
    case False
    let ?rs1 = "rs\<lparr>rs_oldWorkers := AList.delete pid (rs_oldWorkers rs)\<rparr>"
    let ?rs2 = "?rs1\<lparr>rs_ctrl := drainHangup (rs_ctrl ?rs1), rs_hangupPending := False,
      rs_sigToSend := Some (signalOnHUP (w_starter w))\<rparr>"
    have "AList.delete pid (rs_oldWorkers rs) = [] \<Longrightarrow> restartsFrom ev rs ?rs2"
      using False keys_delete [of pid "rs_oldWorkers rs"] by (auto simp: restartsFrom_def WorkerExit)
    with assms WorkerExit False show thesis
      by (auto simp: selectStep_def exitStep_def Let_def split: if_splits intro: drained restart [of an ?rs2])
  qed
next
  case (HangupReceived an)
  let ?rs1 = "rs\<lparr>rs_ctrl := drainHangup (rs_ctrl rs), rs_sigToSend := Some (signalOnHUP (w_starter w))\<rparr>"
  have "rs_oldWorkers rs = [] \<Longrightarrow> restartsFrom ev rs ?rs1" by (simp add: restartsFrom_def HangupReceived)
  with assms HangupReceived show thesis
    by (auto simp: selectStep_def Let_def split: if_splits intro: coalesced restart [of an ?rs1])
next
  case (RestartTimer an)
  have "rs_oldWorkers rs = [] \<Longrightarrow> restartsFrom ev rs rs" by (simp add: restartsFrom_def RestartTimer)
  with assms RestartTimer show thesis
    by (auto simp: selectStep_def split: if_splits intro: postponed restart [of an rs])
qed (use assms in \<open>auto simp: selectStep_def intro: cancelled\<close>)

subsection \<open>The invariant\<close>

text \<open>
  There is a current worker; besides it at most one old worker is draining; the two are
  different and they are exactly the live processes; the old one has an earlier generation; and
  a hangup is only pending while an old worker drains.
\<close>

definition sysInv :: "sys \<Rightarrow> bool" where
  "sysInv s \<longleftrightarrow>
     (let rs = sy_rs s; old = rs_oldWorkers rs in
      (case rs_p rs of
         None \<Rightarrow> False
       | Some p \<Rightarrow> 0 < p \<and> p \<notin> fst ` set old \<and> set (sy_live s) = insert p (fst ` set old)) \<and>
      distinct (sy_live s) \<and> length old \<le> 1 \<and> 0 < rs_generation rs \<and>
      (\<forall>(q, g) \<in> set old. 0 < q \<and> 0 < g \<and> g < rs_generation rs) \<and>
      (rs_hangupPending rs \<longrightarrow> old \<noteq> []))"

lemma restart_inv:
  assumes "restartStep w an rs = Some (Continue rs', effs)"
    and "rs_oldWorkers rs = []" "rs_p rs = Some p" "0 < p" "0 < rs_generation rs" "\<not> rs_hangupPending rs"
    and "set live = {p}" "distinct (newWorkers effs @ live)" "\<forall>p \<in> set (newWorkers effs). 0 < p"
  shows "sysInv \<lparr>sy_rs = rs', sy_live = newWorkers effs @ live\<rparr>"
  using assms(1)
proof (rule restartStep_Continue)
  fix pid g ov rounds
  assume rs': "rs' = (started pid g ov ((retireCurrent rs)\<lparr>rs_p := None\<rparr>))\<lparr>rs_ctrl := drainHangup (rs_ctrl rs)\<rparr>"
    and g: "rs_generation rs < g"
    and e: "effs = [EfRounds rounds, EfWorker pid g] @ resetTimer rs @ killOldWorkers w (an_findOk an) (retireCurrent rs)"
  from e have "newWorkers effs = [pid]" by simp
  with assms(2-9) g rs' show ?thesis by (auto simp: sysInv_def Let_def)
qed

lemma selectStep_inv:
  assumes "selectStep w ev rs = Some (Continue rs', effs)" and inv: "sysInv \<lparr>sy_rs = rs, sy_live = live\<rparr>"
    and "exitsLive ev live" and fresh: "distinct (newWorkers effs @ afterExit ev live)" "\<forall>p \<in> set (newWorkers effs). 0 < p"
  shows "sysInv \<lparr>sy_rs = rs', sy_live = newWorkers effs @ afterExit ev live\<rparr>"
proof -
  from inv obtain p where p: "rs_p rs = Some p" "0 < p" "0 < rs_generation rs"
      "set live = insert p (fst ` set (rs_oldWorkers rs))" "rs_hangupPending rs \<longrightarrow> rs_oldWorkers rs \<noteq> []"
    by (auto simp: sysInv_def Let_def split: option.splits)
  from assms(1) show ?thesis
  proof (cases rule: selectStep_cases)
    case (replaced pid an rs1 effs1)
    from replaced(3) show ?thesis
    proof (rule bringUp_Inr)
      fix q g ov rounds
      assume "rs1 = started q g ov (rs\<lparr>rs_p := None\<rparr>)" and "rs_generation (rs\<lparr>rs_p := None\<rparr>) < g"
        and "effs1 = [EfRounds rounds, EfWorker q g]"
      with replaced(1,2,4,5) inv fresh show ?thesis by (fastforce simp: sysInv_def Let_def)
    qed
  next
    case (restart an rs0)
    then have r: "rs_oldWorkers rs0 = []" "rs_p rs0 = Some p" "0 < rs_generation rs0" "\<not> rs_hangupPending rs0"
      "set (afterExit ev live) = {p}" using p by (auto simp: restartsFrom_def)
    from restart_inv [OF restart(3) r(1,2) p(2) r(3-5) fresh] show ?thesis .
  next
    case (drained pid an)
    with inv fresh(1) assms(3) show ?thesis
      by (cases "rs_oldWorkers rs") (auto simp: sysInv_def Let_def exitsLive_def split: option.splits if_splits)
  qed (use inv in \<open>auto simp: sysInv_def Let_def afterExit_def split: option.splits\<close>)
qed

lemma loopStart_Inr:
  assumes "loopStart w sa wait rs = Some (Inr rs', effs)"
  obtains pid where "rs_p rs' = Some pid" "rs_oldWorkers rs' = []" "\<not> rs_hangupPending rs'"
    "newWorkers effs = [pid]" "rs_generation rs < rs_generation rs'"
proof -
  from assms obtain r pid where r: "startWorker (w_starter w) (w_platform w) (w_policy w) wait (rs_listeners rs)
      (rs_descriptors rs) (rs_overlay rs) (w_lookCmd w) (rs_generation rs) (sa_attempts sa) = Some r"
      and p: "st_result r = Inr pid"
    by (auto simp: loopStart_def Let_def split: option.splits sum.splits prod.splits)
  have "rs_generation rs < st_generation r"
    using worker_start.gen_fresh [of "w_starter w" "w_platform w" "w_policy w" wait "rs_listeners rs"
        "rs_descriptors rs" "w_lookCmd w" "rs_generation rs" "(sa_attempts sa, rs_overlay rs)" r pid] r p by simp
  with assms r p show thesis by (intro that [of pid]) (auto simp: loopStart_def Let_def split: if_splits)
qed

interpretation supervisor: invariant_system "sysInit w" "sysStep w" sysInv for w
proof
  fix s
  assume "sysInit w s"
  then obtain sa wait rs effs pid where l: "loopStart w sa wait rs = Some (Inr (sy_rs s), effs)"
    and g: "rs_generation rs = 0" and p: "newWorkers effs = [pid]" "0 < pid" "sy_live s = [pid]"
    by (auto simp: sysInit_def)
  from l show "sysInv s" by (rule loopStart_Inr) (use g p in \<open>auto simp: sysInv_def Let_def\<close>)
next
  fix s t
  assume inv: "sysInv s" and "sysStep w s t"
  from this(2) show "sysInv t"
  proof (cases rule: sysStep.cases)
    case request
    with inv show ?thesis by (auto simp: sysInv_def Let_def split: option.splits)
  next
    case (iterate ev rs' effs live')
    from iterate(2) obtain effs' where s: "selectStep w ev (sy_rs s) = Some (Continue rs', effs')"
      and e: "effs = writeStatus (sy_rs s) @ effs'"
      by (auto simp: loopIter_def)
    have "sysInv \<lparr>sy_rs = sy_rs s, sy_live = sy_live s\<rparr>" using inv by (cases s) simp
    from selectStep_inv [OF s this] iterate e show ?thesis by simp
  qed
qed

subsection \<open>A concrete run\<close>

definition sampleWorld :: world where
  "sampleWorld = \<lparr>w_starter = sampleStarter, w_platform = Linux, w_policy = samplePolicy, w_lookCmd = id\<rparr>"

definition sampleRun :: runState where
  "sampleRun = \<lparr>rs_pidFile = True, rs_listeners = [], rs_descriptors = [], rs_generation = 0, rs_overlay = [],
     rs_oldWorkers = [], rs_timer = False, rs_p = None, rs_sigToSend = None, rs_hangupPending = False,
     rs_ctrl = newController\<rparr>"

definition calmAnswers :: "pid \<Rightarrow> answers" where
  "calmAnswers pid = \<lparr>an_readDir = (\<lambda>_. Inr []), an_attempts = [goodAttempt pid], an_ctxErr = False,
     an_findOk = (\<lambda>_. True)\<rparr>"

definition runningState :: "pid \<Rightarrow> int \<Rightarrow> (pid \<times> int) list \<Rightarrow> bool \<Rightarrow> bool \<Rightarrow> runState" where
  "runningState p g old pending hup = sampleRun\<lparr>rs_p := Some p, rs_generation := g, rs_oldWorkers := old,
     rs_hangupPending := pending, rs_ctrl := newController\<lparr>ctl_hangup := hup\<rparr>\<rparr>"

lemma sample_start_plain:
  "\<exists>rounds. startWorker sampleStarter Linux samplePolicy checked [] [] ov id g [goodAttempt pid] =
     Some \<lparr>st_result = Inr pid, st_generation = g + 1, st_rounds = rounds\<rparr>"
proof -
  have "afterStart sampleStarter Linux samplePolicy checked ''app'' (goodAttempt pid) = Returned (Inr pid)"
    by (simp add: afterStart_def goodAttempt_def waitForProbe_def timerWins_def calmCtx_def findWorker_defs)
  then show ?thesis
    by (simp add: startRound_def Let_def goodAttempt_def setupFiles_def maxDescriptor_def formatPortList_def
        portListOf_def sampleStarter_def)
qed

lemma sample_init:
  "\<exists>s. sysInit sampleWorld s \<and> rs_p (sy_rs s) = Some 9 \<and> sy_live s = [9] \<and> rs_generation (sy_rs s) = 1"
proof -
  let ?sa = "\<lparr>sa_attempts = [goodAttempt 9], sa_ctxErr = False\<rparr>"
  obtain rounds where "startWorker sampleStarter Linux samplePolicy False [] [] [] id 0 [goodAttempt 9] =
      Some \<lparr>st_result = Inr 9, st_generation = 1, st_rounds = rounds\<rparr>"
    using sample_start_plain [of False "[]" 0 9] by auto
  then have "\<exists>rs effs. loopStart sampleWorld ?sa False sampleRun = Some (Inr rs, effs) \<and> rs_p rs = Some 9 \<and> newWorkers effs = [9] \<and> rs_generation rs = 1"
    by (simp add: loopStart_def sampleWorld_def sampleRun_def Let_def)
  then obtain rs effs where l: "loopStart sampleWorld ?sa False sampleRun = Some (Inr rs, effs)"
    and rs: "rs_p rs = Some 9" "rs_generation rs = 1" and e: "newWorkers effs = [9]" by blast
  have "rs_generation sampleRun = 0" by (simp add: sampleRun_def)
  with l e have "sysInit sampleWorld \<lparr>sy_rs = rs, sy_live = [9]\<rparr>"
    unfolding sysInit_def by (intro exI conjI) (auto intro: l)
  with rs show ?thesis by (intro exI [of _ "\<lparr>sy_rs = rs, sy_live = [9]\<rparr>"]) simp
qed

subsection \<open>Properties of the loop\<close>

text \<open>
  C2: no worker is lost and none is doubled. In every state the loop reaches, whatever exits,
  hangups, timer ticks and restarts happened before, there is a current worker, at most one old
  worker is draining beside it, these are exactly the live processes, and the old one carries an
  earlier generation than the current one. A hangup is pending only while an old worker drains.
\<close>

theorem supervisor_invariant:
  assumes "reachable (sysInit w) (sysStep w) s"
  shows "\<exists>p. rs_p (sy_rs s) = Some p \<and> 0 < p \<and> p \<notin> fst ` set (rs_oldWorkers (sy_rs s)) \<and>
    length (rs_oldWorkers (sy_rs s)) \<le> 1 \<and>
    set (sy_live s) = insert p (fst ` set (rs_oldWorkers (sy_rs s))) \<and>
    (\<forall>(q, g) \<in> set (rs_oldWorkers (sy_rs s)). 0 < q \<and> 0 < g \<and> g < rs_generation (sy_rs s)) \<and>
    (rs_hangupPending (sy_rs s) \<longrightarrow> rs_oldWorkers (sy_rs s) \<noteq> [])"
  using supervisor.reachable_inv [OF assms]
  by (auto simp: sysInv_def Let_def split: option.splits)

theorem supervisor_invariant_witness:
  "\<exists>s. reachable (sysInit sampleWorld) (sysStep sampleWorld) s \<and> sy_live s = [9] \<and>
     length (rs_oldWorkers (sy_rs s)) \<le> 1"
proof -
  obtain s where i: "sysInit sampleWorld s" and l: "sy_live s = [9]" using sample_init by blast
  from i have "reachable (sysInit sampleWorld) (sysStep sampleWorld) s" by (rule reach_init)
  with supervisor_invariant [OF this] l show ?thesis by blast
qed

fun isSignal :: "effect \<Rightarrow> bool" where
  "isSignal (EfSignal _ _) = True"
| "isSignal (EfKill _) = True"
| "isSignal _ = False"

lemma quiet_effects [simp]:
  "e \<in> set (writeStatus rs) \<Longrightarrow> \<not> isSignal e" "e \<in> set (resetTimer rs) \<Longrightarrow> \<not> isSignal e"
  by (auto simp: writeStatus_def resetTimer_def split: if_splits)

lemma killOld_signals:
  "e \<in> set (killOldWorkers w findOk rs) \<Longrightarrow> isSignal e \<Longrightarrow>
     \<exists>q. e = EfSignal q (signalOnHUP (w_starter w)) \<and> q \<in> fst ` set (rs_oldWorkers rs)"
  by (auto simp: killOldWorkers_def split: if_splits) (force simp: image_iff)+

lemma killOld_all:
  "q \<in> fst ` set (rs_oldWorkers rs) \<Longrightarrow> findOk q \<Longrightarrow>
     EfSignal q (signalOnHUP (w_starter w)) \<in> set (killOldWorkers w findOk rs)"
  by (force simp: killOldWorkers_def)

text \<open>The effects of an iteration that goes on: nothing signalled, or a restart.\<close>

lemma loopIter_Continue:
  assumes "loopIter w ev rs = Some (Continue rs', effs)"
  shows "(\<forall>e \<in> set effs. \<not> isSignal e) \<and>
      (rs_generation rs < rs_generation rs' \<or>
       rs_generation rs = rs_generation rs' \<and> rs_p rs = rs_p rs' \<and>
       (ctl_hangup (rs_ctrl rs) \<or> rs_hangupPending rs \<longrightarrow> ctl_hangup (rs_ctrl rs') \<or> rs_hangupPending rs')) \<and>
      fst ` set (rs_oldWorkers rs') \<subseteq> fst ` set (rs_oldWorkers rs) \<or>
    (\<exists>an rs0 pre pid g post. evAnswers ev = Some an \<and> rs_p rs0 = rs_p rs \<and>
       effs = pre @ EfWorker pid g # post @ killOldWorkers w (an_findOk an) (retireCurrent rs0) \<and>
       (\<forall>e \<in> set (pre @ post). \<not> isSignal e) \<and> rs_p rs' = Some pid \<and> rs_generation rs < rs_generation rs' \<and>
       rs_oldWorkers rs' = rs_oldWorkers (retireCurrent rs0))"
proof -
  from assms obtain effs' where "selectStep w ev rs = Some (Continue rs', effs')"
    and e: "effs = writeStatus rs @ effs'" by (auto simp: loopIter_def)
  from this(1) show ?thesis
  proof (cases rule: selectStep_cases)
    case (replaced pid an rs1 effs1)
    from replaced(3) show ?thesis
      by (rule bringUp_Inr) (use replaced(4,5) e in \<open>auto dest: quiet_effects\<close>)
  next
    case (restart an rs0)
    from restart(3) show ?thesis
    proof (rule restartStep_Continue)
      fix pid g ov rounds
      assume rs': "rs' = (started pid g ov ((retireCurrent rs0)\<lparr>rs_p := None\<rparr>))\<lparr>rs_ctrl := drainHangup (rs_ctrl rs0)\<rparr>"
        and g: "rs_generation rs0 < g"
        and e': "effs' = [EfRounds rounds, EfWorker pid g] @ resetTimer rs0 @ killOldWorkers w (an_findOk an) (retireCurrent rs0)"
      have "\<forall>x \<in> set ((writeStatus rs @ [EfRounds rounds]) @ resetTimer rs0). \<not> isSignal x"
        by (auto dest: quiet_effects)
      with restart(1,2) rs' g e e' show ?thesis
        by (intro disjI2 exI [of _ an] exI [of _ rs0] exI [of _ "writeStatus rs @ [EfRounds rounds]"]
            exI [of _ pid] exI [of _ g] exI [of _ "resetTimer rs0"] conjI) (simp_all add: restartsFrom_def)
    qed
  qed (use e in \<open>auto simp: keys_delete dest: quiet_effects\<close>)
qed

text \<open>
  C4: a restart is graceful. An iteration that goes on signals a worker only after a new worker
  is running, with the configured signal, only workers that are old by then, and kills none.
  The worker the restart retired is signalled if it can be found, and the new current worker
  never is.
\<close>

theorem graceful_restart:
  assumes "loopIter w ev rs = Some (Continue rs', effs)" and "evAnswers ev = Some an"
  shows "(\<forall>e \<in> set effs. isSignal e \<longrightarrow>
      (\<exists>q pre pid g post. e = EfSignal q (signalOnHUP (w_starter w)) \<and> q \<in> fst ` set (rs_oldWorkers rs') \<and>
         effs = pre @ EfWorker pid g # post \<and> e \<in> set post \<and> (\<forall>x \<in> set pre. \<not> isSignal x) \<and> rs_p rs' = Some pid)) \<and>
    (\<forall>q. q \<in> fst ` set (rs_oldWorkers rs') - fst ` set (rs_oldWorkers rs) \<longrightarrow> an_findOk an q \<longrightarrow>
       EfSignal q (signalOnHUP (w_starter w)) \<in> set effs)"
proof -
  from loopIter_Continue [OF assms(1)] consider
    (quiet) "\<forall>e \<in> set effs. \<not> isSignal e" "fst ` set (rs_oldWorkers rs') \<subseteq> fst ` set (rs_oldWorkers rs)"
  | (restart) rs0 pre pid g post where
      "effs = pre @ EfWorker pid g # post @ killOldWorkers w (an_findOk an) (retireCurrent rs0)"
      "\<forall>e \<in> set (pre @ post). \<not> isSignal e" "rs_p rs' = Some pid"
      "rs_oldWorkers rs' = rs_oldWorkers (retireCurrent rs0)"
    using assms(2) by auto
  then show ?thesis
  proof cases
    case quiet
    then show ?thesis by auto
  next
    case restart
    have "\<exists>q pre' pid' g' post'. e = EfSignal q (signalOnHUP (w_starter w)) \<and> q \<in> fst ` set (rs_oldWorkers rs') \<and>
         effs = pre' @ EfWorker pid' g' # post' \<and> e \<in> set post' \<and> (\<forall>x \<in> set pre'. \<not> isSignal x) \<and> rs_p rs' = Some pid'"
      if "e \<in> set effs" "isSignal e" for e
    proof -
      from that restart(1,2) have "e \<in> set (killOldWorkers w (an_findOk an) (retireCurrent rs0))" by auto
      from killOld_signals [OF this that(2)] this obtain q where q: "e = EfSignal q (signalOnHUP (w_starter w))"
        "q \<in> fst ` set (rs_oldWorkers (retireCurrent rs0))"
        "e \<in> set (post @ killOldWorkers w (an_findOk an) (retireCurrent rs0))" by auto
      with restart show ?thesis
        by (intro exI [of _ q] exI [of _ pre] exI [of _ pid] exI [of _ g]
            exI [of _ "post @ killOldWorkers w (an_findOk an) (retireCurrent rs0)"]) auto
    qed
    moreover have "EfSignal q (signalOnHUP (w_starter w)) \<in> set effs"
      if "q \<in> fst ` set (rs_oldWorkers rs')" "an_findOk an q" for q
      using killOld_all [of q "retireCurrent rs0" "an_findOk an"] that restart(1,4) by simp
    ultimately show ?thesis by blast
  qed
qed

lemma sample_restart:
  "\<exists>rs' effs. loopIter sampleWorld (HangupReceived (calmAnswers 11)) (runningState 9 1 [] False True) = Some (Continue rs', effs) \<and>
     rs_oldWorkers rs' = [(9, 1)] \<and> rs_generation rs' = 2 \<and> \<not> ctl_hangup (rs_ctrl rs')"
proof -
  obtain rounds where "startWorker sampleStarter Linux samplePolicy False [] [] [] id 1 [goodAttempt 11] =
      Some \<lparr>st_result = Inr 11, st_generation = 2, st_rounds = rounds\<rparr>"
    using sample_start_plain [of False "[]" 1 11] by auto
  moreover have "envdir sampleStarter = []" by (simp add: sampleStarter_def)
  ultimately show ?thesis
    by (simp add: loopIter_def selectStep_def restartStep_def bringUp_def reloadEnvdir_def reloadEnv_def
        sampleWorld_def runningState_def sampleRun_def calmAnswers_def retireCurrent_def newController_def Let_def
        drainHangup_def)
qed

theorem graceful_restart_witness:
  "\<exists>rs' effs. loopIter sampleWorld (HangupReceived (calmAnswers 11)) (runningState 9 1 [] False True) = Some (Continue rs', effs) \<and>
     EfSignal 9 SIGTERM \<in> set effs"
proof -
  obtain rs' effs where h: "loopIter sampleWorld (HangupReceived (calmAnswers 11)) (runningState 9 1 [] False True) =
      Some (Continue rs', effs)" and old: "rs_oldWorkers rs' = [(9, 1)]" using sample_restart by blast
  have "rs_oldWorkers (runningState 9 1 [] False True) = []" "an_findOk (calmAnswers 11) 9"
    "signalOnHUP (w_starter sampleWorld) = SIGTERM"
    by (simp_all add: runningState_def calmAnswers_def sampleWorld_def sampleStarter_def)
  with graceful_restart [OF h, of "calmAnswers 11"] old h show ?thesis by auto
qed

text \<open>
  C13: no hangup request is lost. If a request is buffered or pending before an iteration and
  neither afterwards, and the loop goes on, then the iteration started a worker of a new
  generation: requests are folded into a restart but never dropped. And when the last old
  worker exits while a request is pending, the iteration restarts.
\<close>

theorem hangup_served:
  assumes "loopIter w ev rs = Some (Continue rs', effs)"
  shows "((ctl_hangup (rs_ctrl rs) \<or> rs_hangupPending rs) \<and> \<not> (ctl_hangup (rs_ctrl rs') \<or> rs_hangupPending rs') \<longrightarrow>
      rs_generation rs < rs_generation rs') \<and>
    (\<forall>q an g. ev = WorkerExit q an \<longrightarrow> rs_p rs \<noteq> Some q \<longrightarrow> rs_oldWorkers rs = [(q, g)] \<longrightarrow> rs_hangupPending rs \<longrightarrow>
       rs_generation rs < rs_generation rs')"
proof -
  have "rs_generation rs < rs_generation rs'"
    if "ev = WorkerExit q an" "rs_p rs \<noteq> Some q" "rs_oldWorkers rs = [(q, g)]" "rs_hangupPending rs" for q an g
  proof -
    let ?rs1 = "rs\<lparr>rs_oldWorkers := [], rs_ctrl := drainHangup (rs_ctrl rs),
            rs_hangupPending := False, rs_sigToSend := Some (signalOnHUP (w_starter w))\<rparr>"
    have "\<exists>effs'. restartStep w an ?rs1 = Some (Continue rs', effs')"
      using assms that by (auto simp: loopIter_def selectStep_def exitStep_def)
    then obtain effs' where "restartStep w an ?rs1 = Some (Continue rs', effs')" by blast
    then show ?thesis by (rule restartStep_Continue) simp
  qed
  moreover have "(ctl_hangup (rs_ctrl rs) \<or> rs_hangupPending rs) \<and> \<not> (ctl_hangup (rs_ctrl rs') \<or> rs_hangupPending rs') \<longrightarrow>
      rs_generation rs < rs_generation rs'"
    using loopIter_Continue [OF assms] by auto
  ultimately show ?thesis by blast
qed

theorem hangup_served_witness:
  "\<exists>rs' effs. loopIter sampleWorld (HangupReceived (calmAnswers 11)) (runningState 9 1 [] False True) = Some (Continue rs', effs) \<and>
     1 < rs_generation rs'"
proof -
  obtain rs' effs where h: "loopIter sampleWorld (HangupReceived (calmAnswers 11)) (runningState 9 1 [] False True) =
      Some (Continue rs', effs)" and r: "rs_generation rs' = 2" "\<not> ctl_hangup (rs_ctrl rs')" "rs_oldWorkers rs' = [(9, 1)]"
    using sample_restart by blast
  have "ctl_hangup (rs_ctrl (runningState 9 1 [] False True))" "rs_generation (runningState 9 1 [] False True) = 1"
    by (simp_all add: runningState_def)
  with hangup_served [OF h] h r show ?thesis by auto
qed

end
