(* ===== verification/Sockets.thy ===== *)
theory Sockets
  imports PortSpec
begin

text \<open>
  The socket options of a listener (\<open>listenConfig\<close> in \<open>internal/supervisor/portspec.go\<close> with
  \<open>socket_unix.go\<close> and \<open>socket_windows.go\<close>): the hook that \<open>net.ListenConfig\<close> calls on a new socket
  before it binds it.
\<close>

datatype sockopt = SO_REUSEADDR | IPV6_V6ONLY

text \<open>
  The answers of the system: of \<open>RawConn.Control\<close>, which refuses a closed socket and calls its
  argument otherwise, and of \<open>setsockopt\<close> for each option.
\<close>

record ctlAnswer =
  ca_control :: "string option"
  ca_set :: "sockopt \<Rightarrow> string option"

text \<open>A call returns the options it has set on the socket, and its error.\<close>

definition setsockopt :: "ctlAnswer \<Rightarrow> sockopt \<Rightarrow> sockopt list \<times> string option" where
  "setsockopt ca opt = (case ca_set ca opt of None \<Rightarrow> ([opt], None) | Some e \<Rightarrow> ([], Some e))"

definition setSockOptReuseAddr_unix :: "ctlAnswer \<Rightarrow> sockopt list \<times> string option" where
  "setSockOptReuseAddr_unix ca = setsockopt ca SO_REUSEADDR"

definition setSockOptReuseAddr_windows :: "ctlAnswer \<Rightarrow> sockopt list \<times> string option" where
  "setSockOptReuseAddr_windows ca = ([], None)"

definition setSockOptReuseAddr :: "bool \<Rightarrow> ctlAnswer \<Rightarrow> sockopt list \<times> string option" where
  "setSockOptReuseAddr windows = (if windows then setSockOptReuseAddr_windows else setSockOptReuseAddr_unix)"

definition setSockOptIPv6Only_unix :: "ctlAnswer \<Rightarrow> sockopt list \<times> string option" where
  "setSockOptIPv6Only_unix ca = setsockopt ca IPV6_V6ONLY"

definition setSockOptIPv6Only_windows :: "ctlAnswer \<Rightarrow> sockopt list \<times> string option" where
  "setSockOptIPv6Only_windows ca = setsockopt ca IPV6_V6ONLY"

definition setSockOptIPv6Only :: "bool \<Rightarrow> ctlAnswer \<Rightarrow> sockopt list \<times> string option" where
  "setSockOptIPv6Only windows = (if windows then setSockOptIPv6Only_windows else setSockOptIPv6Only_unix)"

lemmas setSockOpt_defs = setSockOptReuseAddr_def setSockOptReuseAddr_unix_def setSockOptReuseAddr_windows_def
  setSockOptIPv6Only_def setSockOptIPv6Only_unix_def setSockOptIPv6Only_windows_def setsockopt_def

definition listenConfig :: "bool \<Rightarrow> string \<Rightarrow> ctlAnswer \<Rightarrow> sockopt list \<times> string option" where
  "listenConfig windows network ca =
     (case ca_control ca of
        Some e \<Rightarrow> ([], Some e)
      | None \<Rightarrow>
          (case setSockOptReuseAddr windows ca of
             (opts, Some e) \<Rightarrow> (opts, Some e)
           | (opts, None) \<Rightarrow>
               if hasSuffix network ''6''
               then (case setSockOptIPv6Only windows ca of (opts2, r) \<Rightarrow> (opts @ opts2, r))
               else (opts, None)))"

text \<open>
  \<open>Listen\<close> and \<open>ListenPacket\<close> of the configuration: the hook first, then the bind, which the system
  answers for the network and the address it is given.
\<close>

definition lcListen ::
  "bool \<Rightarrow> string \<Rightarrow> string \<Rightarrow> ctlAnswer \<Rightarrow> (string \<Rightarrow> string \<Rightarrow> string + 'a) \<Rightarrow> string + 'a" where
  "lcListen windows network address ca bind =
     (case snd (listenConfig windows network ca) of Some e \<Rightarrow> Inl e | None \<Rightarrow> bind network address)"

definition wantedOptions :: "bool \<Rightarrow> bool \<Rightarrow> sockopt list" where
  "wantedOptions windows v6 = (if windows then [] else [SO_REUSEADDR]) @ (if v6 then [IPV6_V6ONLY] else [])"

lemma listenConfig_ok:
  "snd (listenConfig windows network ca) = None \<Longrightarrow>
     fst (listenConfig windows network ca) = wantedOptions windows (hasSuffix network ''6'')"
  by (auto simp: listenConfig_def setSockOpt_defs wantedOptions_def
      split: option.splits if_splits)

lemma lcListen_Inr:
  "lcListen windows network address ca bind = Inr x \<longleftrightarrow>
     snd (listenConfig windows network ca) = None \<and> bind network address = Inr x"
  by (auto simp: lcListen_def split: option.splits)

text \<open>The suffix that decides is the one the parser of port specifications writes for an IPv6 host.\<close>

lemma target_v6: "parsePortTarget raw = Inr t \<Longrightarrow> hasSuffix (t_network t) ''6'' \<longleftrightarrow> CHR '':'' \<in> set (t_host t)"
  using parsePortTarget_sound [of raw t] by (auto simp: hasSuffix_def hasPrefix_def split: if_splits)

end
