(* ===== verification/Run.thy ===== *)
theory Run
  imports Supervisor Sockets
begin

text \<open>
  The setup of a run (\<open>run\<close> in \<open>internal/supervisor/supervisor.go\<close>): parsing the ports, assigning
  descriptors, checking the wire format, acquiring the pid file, binding the sockets and loading
  the envdir, with the cleanup of a setup that fails half-way. The last part joins setup, start
  loop, environment and worker-side package into one statement about what a worker sees.
\<close>

subsection \<open>Setup\<close>

text \<open>
  The answers of the system: of \<open>statefile.Acquire\<close>, of setting the options of the i-th socket
  and of binding it to an address of a network (a socket and, for a path, the address it got), of
  \<open>lstat\<close> and of reading the envdir.
\<close>

record setupAnswers =
  su_linux :: bool
  su_windows :: bool
  su_acquire :: "string option"
  su_ctl :: "nat \<Rightarrow> ctlAnswer"
  su_bind :: "nat \<Rightarrow> string \<Rightarrow> string \<Rightarrow> string + nat"
  su_lstat :: "string \<Rightarrow> lstat_result"
  su_ctlUnix :: "nat \<Rightarrow> ctlAnswer"
  su_bindUnix :: "nat \<Rightarrow> string \<Rightarrow> string \<Rightarrow> string + nat \<times> string"
  su_readDir :: "string \<Rightarrow> string + envEntry list"

fun bindTargets :: "setupAnswers \<Rightarrow> nat \<Rightarrow> portTarget list \<Rightarrow> listener list \<times> run_error option" where
  "bindTargets su i [] = ([], None)"
| "bindTargets su i (t # ts) =
     (case lcListen (su_windows su) (t_network t) (joinHostPort (t_host t) (itoa (t_port t))) (su_ctl su i) (su_bind su i) of
        Inl e \<Rightarrow> ([], Some (RunListen e))
      | Inr h \<Rightarrow>
          (case bindTargets su (Suc i) ts of
             (ls, r) \<Rightarrow>
               (\<lparr>l_listener = (if hasPrefix (t_network t) ''udp'' then None else Some h),
                 l_packet = (if hasPrefix (t_network t) ''udp'' then Some h else None),
                 l_network = t_network t, l_host = t_host t, l_port = t_port t, l_path = []\<rparr> # ls, r)))"

text \<open>An empty path takes the address that the kernel chose.\<close>

fun bindPaths :: "setupAnswers \<Rightarrow> nat \<Rightarrow> string list \<Rightarrow> listener list \<times> string list \<times> run_error option" where
  "bindPaths su i [] = ([], [], None)"
| "bindPaths su i (path # rest) =
     (case validateUnixSocketPathAvailable (su_linux su) (su_lstat su) path of
        Some e \<Rightarrow> ([], path # rest, Some (RunPath e))
      | None \<Rightarrow>
          (case lcListen (su_windows su) unixNetwork path (su_ctlUnix su i) (su_bindUnix su i) of
             Inl e \<Rightarrow> ([], path # rest, Some (RunListen e))
           | Inr (h, addr) \<Rightarrow>
               let path' = (if path = [] then addr else path) in
               (case bindPaths su (Suc i) rest of
                  (ls, rest', r) \<Rightarrow>
                    (\<lparr>l_listener = Some h, l_packet = None, l_network = unixNetwork, l_host = [],
                      l_port = 0, l_path = path'\<rparr> # ls, path' # rest', r))))"

text \<open>A Unix listener is told, right after the bind, to leave its path alone when it is closed.\<close>

definition bindEffects :: "listener list \<Rightarrow> effect list" where
  "bindEffects ls =
     concat (map (\<lambda>l. (case l_listener l of
                         Some h \<Rightarrow> EfBindSocket h # (if l_network l = unixNetwork then [EfKeepPath h] else [])
                       | None \<Rightarrow> []) @
                      (case l_packet l of Some h \<Rightarrow> [EfBindPacket h] | None \<Rightarrow> [])) ls)"

definition freshRun :: runState where
  "freshRun = \<lparr>rs_pidFile = False, rs_listeners = [], rs_descriptors = [], rs_generation = 0, rs_overlay = [],
     rs_oldWorkers = [], rs_timer = False, rs_p = None, rs_sigToSend = None, rs_hangupPending = False,
     rs_ctrl = newController\<rparr>"

text \<open>The deferred cleanup of a setup that did not reach the loop.\<close>

definition abortSetup :: "world \<Rightarrow> runState \<Rightarrow> effect list" where
  "abortSetup w rs = (if rs_pidFile rs then [EfClosePidFile] else []) @ teardown w rs"

text \<open>The part after the pid file has been acquired, or is not configured.\<close>

definition openSockets ::
  "world \<Rightarrow> setupAnswers \<Rightarrow> portTarget list \<Rightarrow> string list \<Rightarrow> runState \<Rightarrow> (run_error + runState) \<times> effect list" where
  "openSockets w su targets canonical rs =
     (case bindTargets su 0 targets of
        (ls, Some e) \<Rightarrow> (Inl e, bindEffects ls @ abortSetup w (rs\<lparr>rs_listeners := ls\<rparr>))
      | (ls, None) \<Rightarrow>
          (case bindPaths su 0 canonical of
             (ls2, bound, Some e) \<Rightarrow>
               (Inl e, bindEffects (ls @ ls2) @ abortSetup w (rs\<lparr>rs_listeners := ls @ ls2\<rparr>))
           | (ls2, bound, None) \<Rightarrow>
               let rs1 = rs\<lparr>rs_listeners := ls @ ls2\<rparr> in
               (case validateListenerWireFormat [] bound (drop (length targets) (rs_descriptors rs)) of
                  Some e \<Rightarrow> (Inl (RunFormat e), bindEffects (ls @ ls2) @ abortSetup w rs1)
                | None \<Rightarrow>
                    (case reloadEnvdir w (su_readDir su) rs1 of
                       Inl e \<Rightarrow> (Inl (RunEnv e), bindEffects (ls @ ls2) @ abortSetup w rs1)
                     | Inr rs2 \<Rightarrow> (Inr rs2, bindEffects (ls @ ls2))))))"

definition acquireAndBind ::
  "world \<Rightarrow> setupAnswers \<Rightarrow> portTarget list \<Rightarrow> string list \<Rightarrow> runState \<Rightarrow> (run_error + runState) \<times> effect list" where
  "acquireAndBind w su targets canonical rs =
     (if pidFile (w_starter w) = [] then openSockets w su targets canonical rs
      else (case su_acquire su of
              Some e \<Rightarrow> (Inl (RunPidFile e), abortSetup w rs)
            | None \<Rightarrow>
                (case openSockets w su targets canonical (rs\<lparr>rs_pidFile := True\<rparr>) of
                   (r, effs) \<Rightarrow> (r, EfAcquirePidFile # effs))))"

definition runSetup :: "world \<Rightarrow> setupAnswers \<Rightarrow> (run_error + runState) \<times> effect list" where
  "runSetup w su =
     (case mapE parsePortTarget (ports (w_starter w)) of
        Inl e \<Rightarrow> (Inl (RunSpec e), [])
      | Inr targets \<Rightarrow>
          (case assignListenerDescriptors (map t_fd targets @ map (\<lambda>_. -1) (paths (w_starter w))) of
             Inl e \<Rightarrow> (Inl (RunAssign e), [])
           | Inr descriptors \<Rightarrow>
               let canonical = map (canonicalUnixSocketPath (su_linux su)) (paths (w_starter w)) in
               (case validateListenerWireFormat targets canonical descriptors of
                  Some e \<Rightarrow> (Inl (RunFormat e), [])
                | None \<Rightarrow>
                    acquireAndBind w su targets canonical (freshRun\<lparr>rs_descriptors := descriptors\<rparr>))))"

subsection \<open>Cleanup of a failed setup\<close>

lemma newWorkers_concat: "newWorkers (concat effss) = concat (map newWorkers effss)"
  by (induction effss) auto

fun acquired :: "effect list \<Rightarrow> effect list" where
  "acquired [] = []"
| "acquired (EfAcquirePidFile # effs) = EfClosePidFile # acquired effs"
| "acquired (EfBindSocket h # effs) = EfCloseSocket h # acquired effs"
| "acquired (EfBindPacket h # effs) = EfClosePacket h # acquired effs"
| "acquired (_ # effs) = acquired effs"

fun isRelease :: "effect \<Rightarrow> bool" where
  "isRelease EfClosePidFile = True"
| "isRelease (EfCloseSocket h) = True"
| "isRelease (EfClosePacket h) = True"
| "isRelease _ = False"

lemma acquired_append [simp]: "acquired (a @ b) = acquired a @ acquired b"
  by (induction a rule: acquired.induct) auto

lemma acquired_release: "acquired (abortSetup w rs) = []"
proof -
  have "acquired (concat (map (\<lambda>l. (case l_listener l of Some h \<Rightarrow> [EfCloseSocket h] | None \<Rightarrow> []) @
      (case l_packet l of Some h \<Rightarrow> [EfClosePacket h] | None \<Rightarrow> [])) ls)) = []" for ls
    by (induction ls) (auto split: option.splits)
  then show ?thesis by (simp add: abortSetup_def teardown_def)
qed

lemma bind_release:
  "acquired (bindEffects ls) =
     concat (map (\<lambda>l. (case l_listener l of Some h \<Rightarrow> [EfCloseSocket h] | None \<Rightarrow> []) @
                      (case l_packet l of Some h \<Rightarrow> [EfClosePacket h] | None \<Rightarrow> [])) ls)"
  by (induction ls) (auto simp: bindEffects_def split: option.splits)

lemma filter_release_bind: "filter isRelease (bindEffects ls) = []"
  by (induction ls) (auto simp: bindEffects_def split: option.splits)

lemma filter_release_abort:
  "filter isRelease (abortSetup w rs) =
     (if rs_pidFile rs then [EfClosePidFile] else []) @ acquired (bindEffects (rs_listeners rs))"
proof -
  have "filter isRelease (concat (map (\<lambda>l. (case l_listener l of Some h \<Rightarrow> [EfCloseSocket h] | None \<Rightarrow> []) @
      (case l_packet l of Some h \<Rightarrow> [EfClosePacket h] | None \<Rightarrow> [])) ls)) =
    concat (map (\<lambda>l. (case l_listener l of Some h \<Rightarrow> [EfCloseSocket h] | None \<Rightarrow> []) @
      (case l_packet l of Some h \<Rightarrow> [EfClosePacket h] | None \<Rightarrow> [])) ls)" for ls
    by (induction ls) (auto split: option.splits)
  then show ?thesis by (simp add: abortSetup_def teardown_def bind_release)
qed

lemma openSockets_failure:
  assumes "openSockets w su targets canonical rs = (Inl e, effs)"
  shows "filter isRelease effs = (if rs_pidFile rs then [EfClosePidFile] else []) @ acquired effs"
proof -
  have "\<exists>ls. effs = bindEffects ls @ abortSetup w (rs\<lparr>rs_listeners := ls\<rparr>)"
    using assms by (auto simp: openSockets_def Let_def split: prod.splits option.splits sum.splits)
  then show ?thesis by (auto simp: filter_release_bind filter_release_abort acquired_release)
qed

lemma runSetup_failure_balance:
  assumes "runSetup w su = (Inl e, effs)"
  shows "mset (filter isRelease effs) = mset (acquired effs)"
proof -
  consider "effs = []" | targets canonical ds where
      "acquireAndBind w su targets canonical (freshRun\<lparr>rs_descriptors := ds\<rparr>) = (Inl e, effs)"
    using assms by (auto simp: runSetup_def Let_def split: sum.splits option.splits)
  then show ?thesis
  proof cases
    case 2
    let ?rs = "freshRun\<lparr>rs_descriptors := ds\<rparr>"
    consider "openSockets w su targets canonical ?rs = (Inl e, effs)" | "effs = abortSetup w ?rs"
      | effs' where "effs = EfAcquirePidFile # effs'" "openSockets w su targets canonical (?rs\<lparr>rs_pidFile := True\<rparr>) = (Inl e, effs')"
      using 2 by (auto simp: acquireAndBind_def split: if_splits option.splits prod.splits)
    then show ?thesis
    proof cases
      case 1
      from openSockets_failure [OF this] show ?thesis by (simp add: freshRun_def)
    next
      case 2
      then show ?thesis
        by (simp add: filter_release_abort acquired_release) (simp add: freshRun_def bindEffects_def)
    next
      case 3
      from openSockets_failure [OF 3(2)] 3(1) show ?thesis by simp
    qed
  qed simp
qed

lemma runSetup_failure_workers:
  assumes "runSetup w su = (Inl e, effs)"
  shows "newWorkers effs = []"
proof -
  have b: "newWorkers (bindEffects ls) = []" and t: "newWorkers (abortSetup w rs) = []" for ls rs
    by (auto simp: bindEffects_def abortSetup_def teardown_def newWorkers_concat split: option.splits)
  from assms show ?thesis
    by (auto simp: runSetup_def acquireAndBind_def openSockets_def b t Let_def
        split: sum.splits option.splits prod.splits if_splits)
qed

text \<open>
  A setup that fails leaves nothing behind. Whatever step fails (a port specification, the
  descriptors, the wire format, the pid file, a bind, a path check, the envdir), what the setup
  had acquired by then, the pid file and every bound socket, is released, and released once.
\<close>

theorem runSetup_failure_releases:
  assumes "runSetup w su = (Inl e, effs)"
  shows "mset (filter isRelease effs) = mset (acquired effs)"
  using assms by (rule runSetup_failure_balance)

definition portWorld :: "string list \<Rightarrow> string list \<Rightarrow> world" where
  "portWorld ps us = sampleWorld\<lparr>w_starter := sampleStarter\<lparr>ports := ps, paths := us, pidFile := ''run.pid'', statusFile := ''run.status''\<rparr>\<rparr>"

definition calmSetup :: setupAnswers where
  "calmSetup = \<lparr>su_linux = True, su_windows = False, su_acquire = None, su_ctl = (\<lambda>_. \<lparr>ca_control = None, ca_set = (\<lambda>_. None)\<rparr>), su_bind = (\<lambda>i _ _. Inr i), su_lstat = (\<lambda>_. LstatNotExist),
     su_ctlUnix = (\<lambda>_. \<lparr>ca_control = None, ca_set = (\<lambda>_. None)\<rparr>), su_bindUnix = (\<lambda>i _ _. Inr (100 + i, ''@auto'')), su_readDir = (\<lambda>_. Inr [])\<rparr>"

theorem runSetup_failure_releases_witness:
  "\<exists>e effs. runSetup (portWorld [''8080=5'', ''u53''] []) (calmSetup\<lparr>su_bind := (\<lambda>i _ _. if i = 0 then Inr 7 else Inl ''EADDRINUSE'')\<rparr>) = (Inl e, effs) \<and>
     mset (filter isRelease effs) = mset (acquired effs) \<and> EfCloseSocket 7 \<in> set effs \<and> EfClosePidFile \<in> set effs"
proof -
  let ?su = "calmSetup\<lparr>su_bind := (\<lambda>i _ _. if i = 0 then Inr 7 else Inl ''EADDRINUSE'')\<rparr>"
  have h: "runSetup (portWorld [''8080=5'', ''u53''] []) ?su =
      (Inl (RunListen ''EADDRINUSE''), [EfAcquirePidFile, EfBindSocket 7, EfClosePidFile, EfRemoveStatus, EfCloseSocket 7])"
    by code_simp
  from runSetup_failure_releases [OF h] h show ?thesis by simp
qed

text \<open>
  When the pid file cannot be acquired, the cleanup still removes the status file, although it
  belongs to the run that holds the pid file.
\<close>

lemma refused_start_removes_status:
  "runSetup (portWorld [''8080''] []) (calmSetup\<lparr>su_acquire := Some ''locked''\<rparr>) =
     (Inl (RunPidFile ''locked''), [EfRemoveStatus])"
  by code_simp

subsection \<open>What a successful setup guarantees\<close>

definition sameWire :: "listener \<Rightarrow> listener \<Rightarrow> bool" where
  "sameWire l m \<longleftrightarrow> l_network l = l_network m \<and> l_host l = l_host m \<and> l_port l = l_port m \<and> l_path l = l_path m"

lemma sameWire_starter: "sameWire l m \<Longrightarrow> starterListener l d = starterListener m d"
  by (simp add: sameWire_def starterListener_def)

lemma bindTargets_ok:
  "bindTargets su i ts = (ls, None) \<Longrightarrow> list_all2 (\<lambda>t l. sameWire l (targetListener t)) ts ls"
  by (induction su i ts arbitrary: ls rule: bindTargets.induct)
     (auto simp: sameWire_def targetListener_def split: sum.splits prod.splits)

lemma bindPaths_ok:
  "bindPaths su i ps = (ls, bound, None) \<Longrightarrow>
     list_all2 (\<lambda>p l. sameWire l (pathListener p)) bound ls \<and> length bound = length ps \<and>
     ((\<forall>j n q h a. su_bindUnix su j n q = Inr (h, a) \<longrightarrow> a \<noteq> []) \<longrightarrow> [] \<notin> set bound)"
proof (induction ps arbitrary: i ls bound)
  case (Cons path ps)
  from Cons.prems obtain h addr ls' bound' where
    b: "su_bindUnix su i unixNetwork path = Inr (h, addr)" "bindPaths su (Suc i) ps = (ls', bound', None)"
    and r: "ls = \<lparr>l_listener = Some h, l_packet = None, l_network = unixNetwork, l_host = [],
        l_port = 0, l_path = (if path = [] then addr else path)\<rparr> # ls'"
      "bound = (if path = [] then addr else path) # bound'"
    by (auto simp: lcListen_Inr Let_def split: option.splits sum.splits prod.splits)
  have "(if path = [] then addr else path) \<noteq> []" if "\<forall>j n q h a. su_bindUnix su j n q = Inr (h, a) \<longrightarrow> a \<noteq> []"
    using that b(1) by metis
  with Cons.IH [OF b(2)] r show ?case by (auto simp: sameWire_def pathListener_def)
qed simp

lemma validate_wf:
  assumes "validateListenerWireFormat targets ps ds = None" and "l \<in> set (wireListeners targets ps ds)"
  shows "wfListener l"
proof -
  from assms obtain spec where "FormatPorts (wireListeners targets ps ds) = Inr spec"
    by (auto simp: validateListenerWireFormat_def Let_def split: if_splits sum.splits)
  from FormatPorts_Inr_wf [OF this] assms(2) show ?thesis by blast
qed

lemma Fd_starterListener: "Fd (starterListener l d) = of_int d"
  by (simp add: starterListener_def NewUnixListener_def NewUDPListener_def NewTCPListener_def)

lemma list_all2_starter:
  assumes "list_all2 (\<lambda>x l. sameWire l (f x)) xs ls"
  shows "map (\<lambda>(l, d). starterListener l d) (zip ls ds) = map (\<lambda>(x, d). starterListener (f x) d) (zip xs ds)"
  using assms
proof (induction arbitrary: ds rule: list_all2_induct)
  case (Cons x xs l ls)
  then show ?case by (cases ds) (auto dest: sameWire_starter)
qed simp

definition setupGuarantee :: "runState \<Rightarrow> bool" where
  "setupGuarantee rs \<longleftrightarrow>
     length (rs_descriptors rs) = length (rs_listeners rs) \<and> distinct (rs_descriptors rs) \<and>
     (\<forall>d \<in> set (rs_descriptors rs). 3 \<le> d \<and> d \<le> int (length (rs_listeners rs)) + 258) \<and>
     (\<forall>l \<in> set (portListOf (rs_listeners rs) (rs_descriptors rs)). wfListener l) \<and>
     distinct_keys (rs_overlay rs)"

lemma zip_take_left: "zip xs (take (length xs) ys) = zip xs ys"
proof (induction xs arbitrary: ys)
  case (Cons x xs)
  then show ?case by (cases ys) simp_all
qed simp

lemma assign_facts:
  assumes "assignListenerDescriptors req = Inr ds"
  shows "length ds = length req \<and> distinct ds \<and> (\<forall>d \<in> set ds. 3 \<le> d \<and> d \<le> int (length req) + 258)"
proof -
  from assms have ok: "admissible req" and ds: "ds = assignAutomatic (rev (explicits req)) 3 (map slotOf req)"
    by (simp_all add: assign_Inr)
  show ?thesis using assign_distinct [OF ok] assign_bound [OF ok ds] by (simp add: ds)
qed

lemma reloadEnv_distinct: "reloadEnv readDir dn = Inr m \<Longrightarrow> distinct_keys m"
  by (auto simp: reloadEnv_def split: if_splits sum.splits dest: loadEntries_distinct)

lemma bound_listeners_wf:
  assumes "validateListenerWireFormat targets canonical ds = None"
    and "validateListenerWireFormat [] bound (drop (length targets) ds) = None" and "[] \<notin> set bound"
    and "l \<in> set (map (\<lambda>(t, d). starterListener (targetListener t) d) (zip targets ds) @
      map (\<lambda>(q, d). starterListener (pathListener q) d) (zip bound (drop (length targets) ds)))"
  shows "wfListener l"
proof -
  from assms(4) consider t d where "(t, d) \<in> set (zip targets ds)" "l = starterListener (targetListener t) d"
    | q d where "(q, d) \<in> set (zip bound (drop (length targets) ds))" "l = starterListener (pathListener q) d"
    by auto
  then show ?thesis
  proof cases
    case 1
    then have "l \<in> set (wireListeners targets canonical ds)" by (force simp: wireListeners_def)
    with assms(1) show ?thesis by (rule validate_wf)
  next
    case 2
    then have "q \<noteq> []" using assms(3) by (auto dest: set_zip_leftD)
    with 2 have "l \<in> set (wireListeners [] bound (drop (length targets) ds))" by (force simp: wireListeners_def)
    with assms(2) show ?thesis by (rule validate_wf)
  qed
qed

lemma runSetup_ok:
  assumes "runSetup w su = (Inr rs, effs)" and addr: "\<forall>j n q h a. su_bindUnix su j n q = Inr (h, a) \<longrightarrow> a \<noteq> []"
  shows "setupGuarantee rs"
proof -
  let ?req = "\<lambda>targets. map t_fd targets @ map (\<lambda>_. -1) (paths (w_starter w))"
  let ?can = "map (canonicalUnixSocketPath (su_linux su)) (paths (w_starter w))"
  from assms(1) obtain targets ds where a: "assignListenerDescriptors (?req targets) = Inr ds"
      and v1: "validateListenerWireFormat targets ?can ds = None"
      and b: "acquireAndBind w su targets ?can (freshRun\<lparr>rs_descriptors := ds\<rparr>) = (Inr rs, effs)"
    by (auto simp: runSetup_def Let_def split: sum.splits option.splits)
  from b obtain rs0 effs' where o: "openSockets w su targets ?can rs0 = (Inr rs, effs')" and ds0: "rs_descriptors rs0 = ds"
    by (auto simp: acquireAndBind_def split: if_splits option.splits prod.splits)
  from o ds0 obtain ls1 ls2 bound ov where t: "bindTargets su 0 targets = (ls1, None)"
      and p: "bindPaths su 0 ?can = (ls2, bound, None)"
      and v2: "validateListenerWireFormat [] bound (drop (length targets) ds) = None"
      and rs: "rs_listeners rs = ls1 @ ls2" "rs_descriptors rs = ds" "rs_overlay rs = ov"
      and ov: "distinct_keys ov"
    by (auto simp: openSockets_def reloadEnvdir_def Let_def split: prod.splits option.splits sum.splits
        dest: reloadEnv_distinct)
  note t' = bindTargets_ok [OF t] and p' = bindPaths_ok [OF p]
  have len1: "length ls1 = length targets" and len2: "length ls2 = length bound" "length bound = length ?can"
    using t' p' by (auto dest: list_all2_lengthD)
  note s = assign_facts [OF a]
  have pl: "portListOf (ls1 @ ls2) ds =
      map (\<lambda>(t, d). starterListener (targetListener t) d) (zip targets ds) @
      map (\<lambda>(q, d). starterListener (pathListener q) d) (zip bound (drop (length targets) ds))"
    using list_all2_starter [OF t'] list_all2_starter [OF p' [THEN conjunct1]]
    by (simp add: portListOf_def zip_append1 len1 zip_take_left)
  have "\<forall>l \<in> set (portListOf (ls1 @ ls2) ds). wfListener l"
    unfolding pl using bound_listeners_wf [OF v1 v2] p' addr by blast
  then show ?thesis
    using s rs ov len1 len2 by (auto simp: setupGuarantee_def)
qed

text \<open>Well-formed listeners with distinct descriptors never fail to encode.\<close>

lemma formatPortList_ok:
  assumes "\<forall>l \<in> set pl. wfListener l" and "distinct (map Fd pl)"
  shows "\<exists>p t. formatPortList pl = Inr (p, t)"
  using FormatPorts_wf [OF assms(1)] FormatSocketTypes_ok [OF _ assms(2,1)]
  by (cases "pl = []") (simp_all add: formatPortList_def)

lemma guarantee_range:
  assumes "setupGuarantee rs" and "length (rs_listeners rs) < 2 ^ 62" and "d \<in> set (rs_descriptors rs)"
  shows "3 \<le> d \<and> d < 2 ^ 64"
proof -
  have "int (length (rs_listeners rs)) < 2 ^ 62" using assms(2) by simp
  moreover have "3 \<le> d \<and> d \<le> int (length (rs_listeners rs)) + 258"
    using assms(1,3) by (auto simp: setupGuarantee_def)
  ultimately show ?thesis by simp
qed

lemma guarantee_portList:
  assumes "setupGuarantee rs" and "length (rs_listeners rs) < 2 ^ 62"
  shows "distinct (map Fd (portListOf (rs_listeners rs) (rs_descriptors rs)))"
proof -
  let ?ls = "rs_listeners rs" and ?ds = "rs_descriptors rs"
  have "length ?ds = length ?ls" using assms by (simp add: setupGuarantee_def)
  then have "map Fd (portListOf ?ls ?ds) = map of_int ?ds"
    by (intro nth_equalityI) (simp_all add: portListOf_def Fd_starterListener)
  moreover have "inj_on (of_int :: int \<Rightarrow> uintptr) (set ?ds)"
  proof
    fix a b assume ab: "a \<in> set ?ds" "b \<in> set ?ds" "(of_int a :: uintptr) = of_int b"
    then have r: "0 \<le> a" "a < 2 ^ 64" "0 \<le> b" "b < 2 ^ 64"
      using guarantee_range [OF assms, of a] guarantee_range [OF assms, of b] by auto
    from ab(3) have "uint (of_int a :: uintptr) = uint (of_int b :: uintptr)" by simp
    with r show "a = b" by (simp add: uint_word_of_int take_bit_int_eq_self)
  qed
  ultimately show ?thesis using assms by (simp add: setupGuarantee_def distinct_map)
qed

text \<open>
  What a successful setup guarantees for every worker started later. There are as many
  descriptors as listeners, distinct and from 3 on, and every listener is well formed in the
  wire format; so a start never fails for a descriptor or an encoding reason: the values of both
  protocol variables always exist.
\<close>

theorem runSetup_success:
  assumes "runSetup w su = (Inr rs, effs)" and "\<forall>j n q h a. su_bindUnix su j n q = Inr (h, a) \<longrightarrow> a \<noteq> []"
    and "length (rs_listeners rs) < 2 ^ 62"
  shows "setupGuarantee rs \<and> rs_generation rs = 0 \<and>
    (\<exists>p t. formatPortList (portListOf (rs_listeners rs) (rs_descriptors rs)) = Inr (p, t))"
proof -
  have g: "setupGuarantee rs" using assms(1,2) by (rule runSetup_ok)
  have "rs_generation rs = 0"
    using assms(1) by (auto simp: runSetup_def acquireAndBind_def openSockets_def reloadEnvdir_def freshRun_def Let_def
        split: sum.splits option.splits prod.splits if_splits)
  with g guarantee_portList [OF g assms(3)] show ?thesis
    using formatPortList_ok by (simp add: setupGuarantee_def)
qed

lemma sample_setup:
  "runSetup (portWorld [''8080=5'', ''u53''] []) calmSetup =
     (Inr (freshRun\<lparr>rs_pidFile := True, rs_descriptors := [5, 3], rs_listeners :=
        [\<lparr>l_listener = Some 0, l_packet = None, l_network = ''tcp4'', l_host = [], l_port = 8080, l_path = []\<rparr>,
         \<lparr>l_listener = None, l_packet = Some 1, l_network = ''udp4'', l_host = [], l_port = 53, l_path = []\<rparr>]\<rparr>),
      [EfAcquirePidFile, EfBindSocket 0, EfBindPacket 1])"
  by code_simp

theorem runSetup_success_witness:
  "\<exists>rs effs. runSetup (portWorld [''8080=5'', ''u53''] []) calmSetup = (Inr rs, effs) \<and> setupGuarantee rs"
  using runSetup_success [OF sample_setup] sample_setup by (auto simp: calmSetup_def)

subsection \<open>The sockets of the configured ports\<close>

lemma bindTargets_nth:
  assumes "bindTargets su i ts = (ls, None)" and "k < length ts"
  shows "\<exists>h. su_bind su (i + k) (t_network (ts ! k)) (joinHostPort (t_host (ts ! k)) (itoa (t_port (ts ! k)))) = Inr h \<and>
    ls ! k = (targetListener (ts ! k))\<lparr>l_listener := (if hasPrefix (t_network (ts ! k)) ''udp'' then None else Some h),
                                    l_packet := (if hasPrefix (t_network (ts ! k)) ''udp'' then Some h else None)\<rparr> \<and>
    listenConfig (su_windows su) (t_network (ts ! k)) (su_ctl su (i + k)) =
      (wantedOptions (su_windows su) (hasSuffix (t_network (ts ! k)) ''6''), None)"
  using assms
proof (induction ts arbitrary: i k ls)
  case (Cons t ts)
  from Cons.prems(1) obtain h ls' where
    h: "lcListen (su_windows su) (t_network t) (joinHostPort (t_host t) (itoa (t_port t))) (su_ctl su i) (su_bind su i) = Inr h"
    and b: "bindTargets su (Suc i) ts = (ls', None)"
    and ls: "ls = (targetListener t)\<lparr>l_listener := (if hasPrefix (t_network t) ''udp'' then None else Some h),
                                    l_packet := (if hasPrefix (t_network t) ''udp'' then Some h else None)\<rparr> # ls'"
    by (auto simp: targetListener_def split: sum.splits prod.splits)
  show ?case
  proof (cases k)
    case 0
    with h listenConfig_ok [of "su_windows su" "t_network t" "su_ctl su i"] show ?thesis
      by (simp add: ls lcListen_Inr prod_eq_iff)
  next
    case (Suc j)
    with Cons.IH [OF b, of j] Cons.prems(2) show ?thesis by (simp add: ls)
  qed
qed simp

lemma bindPaths_nth:
  assumes "bindPaths su i ps = (ls, bound, None)" and "k < length ps"
  shows "validateUnixSocketPathAvailable (su_linux su) (su_lstat su) (ps ! k) = None \<and>
    (\<exists>h addr. su_bindUnix su (i + k) unixNetwork (ps ! k) = Inr (h, addr) \<and>
       ls ! k = \<lparr>l_listener = Some h, l_packet = None, l_network = unixNetwork, l_host = [], l_port = 0,
                 l_path = (if ps ! k = [] then addr else ps ! k)\<rparr>) \<and>
    listenConfig (su_windows su) unixNetwork (su_ctlUnix su (i + k)) = (wantedOptions (su_windows su) False, None)"
  using assms
proof (induction ps arbitrary: i k ls bound)
  case (Cons path ps)
  from Cons.prems(1) obtain h addr ls' bound' where
    v: "validateUnixSocketPathAvailable (su_linux su) (su_lstat su) path = None"
    and h: "lcListen (su_windows su) unixNetwork path (su_ctlUnix su i) (su_bindUnix su i) = Inr (h, addr)"
    and b: "bindPaths su (Suc i) ps = (ls', bound', None)"
    and ls: "ls = \<lparr>l_listener = Some h, l_packet = None, l_network = unixNetwork, l_host = [],
        l_port = 0, l_path = (if path = [] then addr else path)\<rparr> # ls'"
    by (auto simp: Let_def split: option.splits sum.splits prod.splits)
  have "\<not> hasSuffix unixNetwork ''6''" by code_simp
  with listenConfig_ok [of "su_windows su" unixNetwork "su_ctlUnix su i"] h
  have o: "listenConfig (su_windows su) unixNetwork (su_ctlUnix su i) = (wantedOptions (su_windows su) False, None)"
    by (simp add: lcListen_Inr prod_eq_iff)
  show ?case
  proof (cases k)
    case 0
    with h v o show ?thesis by (simp add: ls lcListen_Inr)
  next
    case (Suc j)
    then have "(path # ps) ! k = ps ! j" "ls ! k = ls' ! j" "i + k = Suc i + j" "j < length ps"
      using Cons.prems(2) by (simp_all add: ls)
    with Cons.IH [OF b, of j] show ?thesis by metis
  qed
qed simp

lemma bindEffects_keep:
  "l \<in> set ls \<Longrightarrow> l_listener l = Some h \<Longrightarrow> l_network l = unixNetwork \<Longrightarrow> EfKeepPath h \<in> set (bindEffects ls)"
  by (auto simp: bindEffects_def intro!: bexI [of _ l])

text \<open>The parts of a successful setup.\<close>

lemma runSetup_parts:
  assumes "runSetup w su = (Inr rs, effs)"
  obtains targets ls1 ls2 bound where
    "list_all2 (\<lambda>x y. parsePortTarget x = Inr y) (ports (w_starter w)) targets"
    "bindTargets su 0 targets = (ls1, None)"
    "bindPaths su 0 (map (canonicalUnixSocketPath (su_linux su)) (paths (w_starter w))) = (ls2, bound, None)"
    "rs_listeners rs = ls1 @ ls2" "length ls1 = length (ports (w_starter w))"
    "length ls2 = length (paths (w_starter w))" "set (bindEffects (rs_listeners rs)) \<subseteq> set effs"
proof -
  let ?can = "map (canonicalUnixSocketPath (su_linux su)) (paths (w_starter w))"
  from assms obtain targets ds where p: "mapE parsePortTarget (ports (w_starter w)) = Inr targets"
    and a: "acquireAndBind w su targets ?can (freshRun\<lparr>rs_descriptors := ds\<rparr>) = (Inr rs, effs)"
    by (auto simp: runSetup_def Let_def split: sum.splits option.splits)
  from a obtain ls1 ls2 bound where b: "bindTargets su 0 targets = (ls1, None)"
    and u: "bindPaths su 0 ?can = (ls2, bound, None)" and rs: "rs_listeners rs = ls1 @ ls2"
    and e: "set (bindEffects (rs_listeners rs)) \<subseteq> set effs"
    by (cases "pidFile (w_starter w) = []")
       (auto simp: acquireAndBind_def openSockets_def reloadEnvdir_def Let_def subset_insertI
        split: option.splits prod.splits sum.splits)
  from p have l2: "list_all2 (\<lambda>x y. parsePortTarget x = Inr y) (ports (w_starter w)) targets" by (simp add: mapE_Inr_iff)
  have "length ls1 = length (ports (w_starter w))"
    using bindTargets_ok [OF b] l2 by (auto dest!: list_all2_lengthD)
  moreover have "length ls2 = length (paths (w_starter w))"
    using bindPaths_ok [OF u] by (auto dest!: list_all2_lengthD)
  ultimately show thesis using that l2 b u rs e by blast
qed

text \<open>
  C20: every configured port and path has its socket. After a successful setup the listeners are
  those of the ports and then those of the paths. The i-th \<open>--port\<close> argument parsed, its listener
  carries its host and port and holds the socket that the i-th bind returned for the network and
  the joined host and port of that argument, as a packet connection for UDP and a stream listener
  otherwise; before the bind exactly the intended options were set on it: address reuse except on
  Windows, and IPv6-only exactly for IPv6 hosts, so a wildcard IPv6 listener does not take over the
  IPv4 port of another one. The listener of the j-th \<open>--path\<close> holds the Unix socket bound at the
  canonical path, whose place was checked to be free, carries that path, or for an empty one the
  address the system chose, and was told not to remove the path when it is closed.
\<close>

theorem configured_ports_bound:
  assumes "runSetup w su = (Inr rs, effs)"
  shows "length (rs_listeners rs) = length (ports (w_starter w)) + length (paths (w_starter w)) \<and>
    (\<forall>i < length (ports (w_starter w)).
      \<exists>t h. parsePortTarget (ports (w_starter w) ! i) = Inr t \<and>
        su_bind su i (t_network t) (joinHostPort (t_host t) (itoa (t_port t))) = Inr h \<and>
        l_host (rs_listeners rs ! i) = t_host t \<and> l_port (rs_listeners rs ! i) = t_port t \<and>
        (if hasPrefix (t_network t) ''udp''
         then l_packet (rs_listeners rs ! i) = Some h \<and> l_listener (rs_listeners rs ! i) = None
         else l_listener (rs_listeners rs ! i) = Some h \<and> l_packet (rs_listeners rs ! i) = None) \<and>
        listenConfig (su_windows su) (t_network t) (su_ctl su i) =
          (wantedOptions (su_windows su) (CHR '':'' \<in> set (t_host t)), None)) \<and>
    (\<forall>j < length (paths (w_starter w)).
      let path = canonicalUnixSocketPath (su_linux su) (paths (w_starter w) ! j);
          l = rs_listeners rs ! (length (ports (w_starter w)) + j) in
      \<exists>h addr. validateUnixSocketPathAvailable (su_linux su) (su_lstat su) path = None \<and>
        su_bindUnix su j unixNetwork path = Inr (h, addr) \<and> l_listener l = Some h \<and>
        l_path l = (if path = [] then addr else path) \<and> EfKeepPath h \<in> set effs \<and>
        listenConfig (su_windows su) unixNetwork (su_ctlUnix su j) = (wantedOptions (su_windows su) False, None))"
proof -
  from assms obtain targets ls1 ls2 bound where
    l2: "list_all2 (\<lambda>x y. parsePortTarget x = Inr y) (ports (w_starter w)) targets"
    and b: "bindTargets su 0 targets = (ls1, None)"
    and u: "bindPaths su 0 (map (canonicalUnixSocketPath (su_linux su)) (paths (w_starter w))) = (ls2, bound, None)"
    and rs: "rs_listeners rs = ls1 @ ls2" and len: "length ls1 = length (ports (w_starter w))"
      "length ls2 = length (paths (w_starter w))" and e: "set (bindEffects (rs_listeners rs)) \<subseteq> set effs"
    by (rule runSetup_parts)
  have "\<exists>t h. parsePortTarget (ports (w_starter w) ! i) = Inr t \<and>
        su_bind su i (t_network t) (joinHostPort (t_host t) (itoa (t_port t))) = Inr h \<and>
        l_host (rs_listeners rs ! i) = t_host t \<and> l_port (rs_listeners rs ! i) = t_port t \<and>
        (if hasPrefix (t_network t) ''udp''
         then l_packet (rs_listeners rs ! i) = Some h \<and> l_listener (rs_listeners rs ! i) = None
         else l_listener (rs_listeners rs ! i) = Some h \<and> l_packet (rs_listeners rs ! i) = None) \<and>
        listenConfig (su_windows su) (t_network t) (su_ctl su i) =
          (wantedOptions (su_windows su) (CHR '':'' \<in> set (t_host t)), None)"
    if "i < length (ports (w_starter w))" for i
  proof -
    from l2 that have i: "i < length targets" and t: "parsePortTarget (ports (w_starter w) ! i) = Inr (targets ! i)"
      by (auto dest: list_all2_lengthD list_all2_nthD)
    have "rs_listeners rs ! i = ls1 ! i" using that len rs by (simp add: nth_append)
    with bindTargets_nth [OF b i] t target_v6 [OF t] show ?thesis
      by (auto simp: targetListener_def intro!: exI [of _ "targets ! i"])
  qed
  moreover have "let path = canonicalUnixSocketPath (su_linux su) (paths (w_starter w) ! j);
          l = rs_listeners rs ! (length (ports (w_starter w)) + j) in
      \<exists>h addr. validateUnixSocketPathAvailable (su_linux su) (su_lstat su) path = None \<and>
        su_bindUnix su j unixNetwork path = Inr (h, addr) \<and> l_listener l = Some h \<and>
        l_path l = (if path = [] then addr else path) \<and> EfKeepPath h \<in> set effs \<and>
        listenConfig (su_windows su) unixNetwork (su_ctlUnix su j) = (wantedOptions (su_windows su) False, None)"
    if j: "j < length (paths (w_starter w))" for j
  proof -
    let ?l = "rs_listeners rs ! (length (ports (w_starter w)) + j)"
    have l: "?l = ls2 ! j" using len rs by (simp add: nth_append)
    have m: "?l \<in> set (rs_listeners rs)" using j len rs by (intro nth_mem) simp
    let ?path = "canonicalUnixSocketPath (su_linux su) (paths (w_starter w) ! j)"
    have pj: "map (canonicalUnixSocketPath (su_linux su)) (paths (w_starter w)) ! j = ?path" using j by simp
    from bindPaths_nth [OF u, of j] j obtain h addr where
      v: "validateUnixSocketPathAvailable (su_linux su) (su_lstat su) ?path = None"
        "su_bindUnix su j unixNetwork ?path = Inr (h, addr)"
        "listenConfig (su_windows su) unixNetwork (su_ctlUnix su j) = (wantedOptions (su_windows su) False, None)"
      and k: "?l = \<lparr>l_listener = Some h, l_packet = None, l_network = unixNetwork, l_host = [], l_port = 0,
                 l_path = (if ?path = [] then addr else ?path)\<rparr>"
      unfolding l pj by auto
    have "EfKeepPath h \<in> set effs" using e bindEffects_keep [OF m] by (auto simp: k)
    with v show ?thesis unfolding Let_def k by (intro exI [of _ h] exI [of _ addr]) simp
  qed
  ultimately show ?thesis using len rs by auto
qed

theorem configured_ports_bound_witness:
  "\<exists>rs effs. runSetup (portWorld [''8080=5'', ''u53''] [''/run/app.sock'']) calmSetup = (Inr rs, effs) \<and>
     l_packet (rs_listeners rs ! 1) = Some 1 \<and> l_port (rs_listeners rs ! 1) = 53 \<and>
     l_path (rs_listeners rs ! 2) = ''/run/app.sock'' \<and> EfKeepPath 100 \<in> set effs"
proof -
  let ?w = "portWorld [''8080=5'', ''u53''] [''/run/app.sock'']"
  have "isOk (fst (runSetup ?w calmSetup))" by code_simp
  then obtain rs effs where h: "runSetup ?w calmSetup = (Inr rs, effs)" by (metis isOk_iff prod.collapse)
  note bound = configured_ports_bound [OF h]
  have w: "ports (w_starter ?w) = [''8080=5'', ''u53'']" "paths (w_starter ?w) = [''/run/app.sock'']"
    by (simp_all add: portWorld_def)
  have c: "canonicalUnixSocketPath (su_linux calmSetup) ''/run/app.sock'' = ''/run/app.sock''" by code_simp
  have t: "parsePortTarget ''u53'' = Inr \<lparr>t_host = [], t_port = 53, t_network = ''udp4'', t_spec = ''53'', t_fd = -1\<rparr>"
    "hasPrefix ''udp4'' ''udp''" by code_simp+
  have "l_packet (rs_listeners rs ! 1) = Some 1 \<and> l_port (rs_listeners rs ! 1) = 53"
    using bound [THEN conjunct2, THEN conjunct1, rule_format, of 1] t by (auto simp: w calmSetup_def)
  moreover have "l_path (rs_listeners rs ! 2) = ''/run/app.sock'' \<and> EfKeepPath 100 \<in> set effs"
    using bound [THEN conjunct2, THEN conjunct2, rule_format, of 0] c
    by (simp add: w Let_def numeral_2_eq_2) (simp add: calmSetup_def)
  ultimately show ?thesis using h by blast
qed

subsection \<open>What a worker sees\<close>

text \<open>What a worker finds in its environment and behind its descriptors.\<close>

lemma worker_view:
  assumes "runSetup w su = (Inr rs, effs)" and "\<forall>j n q h a. su_bindUnix su j n q = Inr (h, a) \<longrightarrow> a \<noteq> []"
    and "length (rs_listeners rs) < 2 ^ 62" and "rs_listeners rs \<noteq> []"
    and "distinct_keys overlay" and "\<forall>k \<in> fst ` set overlay. CHR ''='' \<notin> set k"
    and "r_spawn (startRound s pl policy checked (rs_listeners rs) (rs_descriptors rs) overlay lookCmd g a) = Some sp"
    and "0 \<le> g" and "g + 1 < 2 ^ 63" and "mset kvs = mset (sp_env sp)"
  shows "Ports (lookupEnviron kvs) = Inr (portListOf (rs_listeners rs) (rs_descriptors rs)) \<and>
    IsUnderStartServer (lookupEnviron kvs) \<and> Generation (lookupEnviron kvs) = (g + 1, True) \<and>
    (\<forall>i < length (rs_listeners rs).
       sp_files sp ! nat (rs_descriptors rs ! i - 3) = Some (ListenerFile i) \<and>
       uint (Fd (portListOf (rs_listeners rs) (rs_descriptors rs) ! i)) = rs_descriptors rs ! i)"
proof -
  let ?ls = "rs_listeners rs" and ?ds = "rs_descriptors rs"
  let ?pl = "portListOf ?ls ?ds"
  have g: "setupGuarantee rs" using assms(1,2) by (rule runSetup_ok)
  then have len: "length ?ls = length ?ds" and ge: "\<forall>d \<in> set ?ds. 3 \<le> d" and dis: "distinct ?ds"
    and wf: "\<forall>l \<in> set ?pl. wfListener l" by (auto simp: setupGuarantee_def)
  have ne: "?pl \<noteq> []" using assms(4) len by (cases ?ls; cases ?ds) (simp_all add: portListOf_def)
  from startRound_spawn [OF assms(7)] obtain ops p t where
    files: "setupFiles a ?ls ?ds = (ops, Inr (sp_files sp))" and f: "formatPortList ?pl = Inr (p, t)"
    and env: "sp_env sp = buildWorkerEnv (a_environ a) overlay p t (g + 1)" by blast
  from f ne have fp: "FormatPorts ?pl = Inr p" "FormatSocketTypes ?pl = Inr t"
    by (auto simp: formatPortList_def split: sum.splits)
  have "Ports (lookupEnviron kvs) = Inr ?pl \<and> IsUnderStartServer (lookupEnviron kvs) \<and>
      Generation (lookupEnviron kvs) = (g + 1, True)"
    using worker_handoff [OF ne guarantee_portList [OF g assms(3)] wf fp assms(5,6) _ _ assms(10) [unfolded env]]
      assms(8,9) by simp
  moreover have "sp_files sp ! nat (?ds ! i - 3) = Some (ListenerFile i) \<and> uint (Fd (?pl ! i)) = ?ds ! i"
    if "i < length ?ls" for i
  proof -
    have "?pl ! i = starterListener (?ls ! i) (?ds ! i)" using that len by (simp add: portListOf_def)
    moreover have "3 \<le> ?ds ! i \<and> ?ds ! i < 2 ^ 64"
      using that len by (intro guarantee_range [OF g assms(3)]) simp
    ultimately show ?thesis
      using setupFiles_slots [OF files len ge dis] that
      by (simp add: Fd_starterListener uint_word_of_int take_bit_int_eq_self)
  qed
  ultimately show ?thesis by blast
qed

text \<open>
  C1: end to end. Take a run whose setup succeeded and any worker it starts, at whatever
  generation, with an envdir whose names have no \<open>=\<close>. Then the environment block of the worker,
  in whatever order it is flattened, makes the worker-side package return exactly the
  configured listeners with their descriptor numbers, the worker knows that it runs under the
  supervisor and at which generation, and the file behind each descriptor number is the socket
  of that very listener.
\<close>

theorem worker_sees_configured_listeners:
  assumes "runSetup w su = (Inr rs, effs)" and "\<forall>j n q h a. su_bindUnix su j n q = Inr (h, a) \<longrightarrow> a \<noteq> []"
    and "length (rs_listeners rs) < 2 ^ 62" and "rs_listeners rs \<noteq> []"
    and "distinct_keys overlay" and "\<forall>k \<in> fst ` set overlay. CHR ''='' \<notin> set k"
    and "r_spawn (startRound s pl policy checked (rs_listeners rs) (rs_descriptors rs) overlay lookCmd g a) = Some sp"
    and "0 \<le> g" and "g + 1 < 2 ^ 63" and "mset kvs = mset (sp_env sp)"
  shows "Ports (lookupEnviron kvs) = Inr (portListOf (rs_listeners rs) (rs_descriptors rs)) \<and>
    IsUnderStartServer (lookupEnviron kvs) \<and> Generation (lookupEnviron kvs) = (g + 1, True) \<and>
    (\<forall>i < length (rs_listeners rs).
       sp_files sp ! nat (rs_descriptors rs ! i - 3) = Some (ListenerFile i) \<and>
       uint (Fd (portListOf (rs_listeners rs) (rs_descriptors rs) ! i)) = rs_descriptors rs ! i)"
  using assms by (rule worker_view)

lemma startRound_spawns:
  assumes "\<not> a_ctxErr a" and "isOk (snd (setupFiles a ls ds))" and "isOk (formatPortList (portListOf ls ds))"
  shows "\<exists>sp. r_spawn (startRound s pl policy checked ls ds overlay lookCmd g a) = Some sp"
proof -
  obtain ops fs where "setupFiles a ls ds = (ops, Inr fs)"
    using assms(2) by (metis isOk_iff prod.collapse)
  moreover obtain p t where "formatPortList (portListOf ls ds) = Inr (p, t)"
    using assms(3) by (metis isOk_iff prod.collapse)
  ultimately show ?thesis using assms(1) by (simp add: startRound_def Let_def)
qed

theorem worker_sees_configured_listeners_witness:
  "\<exists>rs effs sp. runSetup (portWorld [''8080=5'', ''u53''] []) calmSetup = (Inr rs, effs) \<and>
     r_spawn (startRound sampleStarter Linux samplePolicy False (rs_listeners rs) (rs_descriptors rs) [] id 0 (goodAttempt 9)) = Some sp \<and>
     Ports (lookupEnviron (sp_env sp)) = Inr [TCPListener ''0.0.0.0'' 8080 5, UDPListener ''0.0.0.0'' 53 3] \<and>
     Generation (lookupEnviron (sp_env sp)) = (1, True)"
proof -
  define rs where "rs = freshRun\<lparr>rs_pidFile := True, rs_descriptors := [5, 3], rs_listeners :=
        [\<lparr>l_listener = Some 0, l_packet = None, l_network = ''tcp4'', l_host = [], l_port = 8080, l_path = []\<rparr>,
         \<lparr>l_listener = None, l_packet = Some 1, l_network = ''udp4'', l_host = [], l_port = 53, l_path = []\<rparr>]\<rparr>"
  have h: "runSetup (portWorld [''8080=5'', ''u53''] []) calmSetup = (Inr rs, [EfAcquirePidFile, EfBindSocket 0, EfBindPacket 1])"
    unfolding rs_def by (rule sample_setup)
  have c: "\<not> a_ctxErr (goodAttempt 9)" by (simp add: goodAttempt_def)
  have s: "isOk (snd (setupFiles (goodAttempt 9) (rs_listeners rs) (rs_descriptors rs)))"
    unfolding rs_def by code_simp
  have f: "isOk (formatPortList (portListOf (rs_listeners rs) (rs_descriptors rs)))"
    unfolding rs_def by code_simp
  from startRound_spawns [OF c s f] obtain sp where
    sp: "r_spawn (startRound sampleStarter Linux samplePolicy False (rs_listeners rs) (rs_descriptors rs) [] id 0 (goodAttempt 9)) = Some sp"
    by blast
  have p: "portListOf (rs_listeners rs) (rs_descriptors rs) = [TCPListener ''0.0.0.0'' 8080 5, UDPListener ''0.0.0.0'' 53 3]"
    unfolding rs_def by code_simp
  have n: "rs_listeners rs \<noteq> []" "length (rs_listeners rs) < 2 ^ 62" by (simp_all add: rs_def)
  have b: "\<forall>j n q h a. su_bindUnix calmSetup j n q = Inr (h, a) \<longrightarrow> a \<noteq> []" by (simp add: calmSetup_def)
  show ?thesis
    using worker_sees_configured_listeners [OF h b n(2,1) _ _ sp, of "sp_env sp"] h sp p by auto
qed

end
