(* ===== verification/Shutdown.thy ===== *)
theory Shutdown
  imports Supervisor
begin

text \<open>
  What the deferred calls of the loop do (\<open>shutdownWorkers\<close>, \<open>waitForWorkers\<close> and \<open>teardown\<close> of
  \<open>internal/supervisor/supervisor.go\<close>, defined in \<open>Supervisor\<close>): no live process is forgotten, and
  the shutdown ends.
\<close>

subsection \<open>Properties of the shutdown\<close>

definition tracked :: "runState \<Rightarrow> pid set" where
  "tracked rs = fst ` set (rs_oldWorkers rs) \<union> set_option (rs_p rs)"

lemma tracked_retire: "fst ` set (rs_oldWorkers (retireCurrent rs)) = tracked rs"
  by (auto simp: tracked_def keys_update split: option.splits)

lemma waitForWorkers_facts:
  assumes "waitForWorkers g evs old = Some (ok, left, effs)"
  shows "(ok \<longrightarrow> left = []) \<and> (\<not> ok \<longrightarrow> TimedOut \<in> set evs) \<and> fst ` set left \<subseteq> fst ` set old \<and>
    (\<forall>q \<in> fst ` set old. q \<in> fst ` set left \<or> Exited q \<in> set evs) \<and> (\<forall>e \<in> set effs. \<exists>m. e = EfStatus m)"
  using assms
proof (induction g evs old arbitrary: ok left effs rule: waitForWorkers.induct)
  case (4 g pid evs o' os)
  then obtain ok' left' effs' where w: "waitForWorkers g evs (AList.delete pid (o' # os)) = Some (ok', left', effs')"
    and r: "ok = ok'" "left = left'" "effs = EfStatus (StatusMap (AList.delete pid (o' # os)) 0 g) # effs'"
    by (auto simp: Let_def)
  have k: "fst ` set (AList.delete pid (o' # os)) = fst ` set (o' # os) - {pid}" by (rule keys_delete)
  note IH = 4(1) [OF refl w, unfolded k]
  from IH have "\<forall>q \<in> fst ` set (o' # os). q \<in> fst ` set left' \<or> Exited q \<in> set (Exited pid # evs)"
    by (metis DiffI list.set_intros(1,2) singletonD)
  with IH r show ?case by auto
qed auto

lemma waitForWorkers_ends: "TimedOut \<in> set evs \<Longrightarrow> waitForWorkers g evs old \<noteq> None"
  by (induction g evs old rule: waitForWorkers.induct) (auto simp: Let_def)

lemma signalAll_member: "q \<in> fst ` set old \<Longrightarrow> findOk q \<Longrightarrow> f q \<in> set (signalAll findOk f old)"
  by (force simp: signalAll_def)

lemma shutdownWorkers_Some:
  assumes "shutdownWorkers sd rs = Some (rs', effs)"
  obtains (ended) sent e1 where "waitForWorkers (rs_generation rs) (sd_wait sd) (rs_oldWorkers rs) = Some (True, [], e1)"
      "rs' = rs\<lparr>rs_oldWorkers := []\<rparr>" "effs = sent @ e1"
      "\<And>q sig. q \<in> fst ` set (rs_oldWorkers rs) \<Longrightarrow> rs_sigToSend rs = Some sig \<Longrightarrow> sd_findOk sd q \<Longrightarrow> EfSignal q sig \<in> set sent"
  | (forced) sent left e1 ok2 left2 e2 where
      "waitForWorkers (rs_generation rs) (sd_wait sd) (rs_oldWorkers rs) = Some (False, left, e1)"
      "waitForWorkers (rs_generation rs) (sd_wait2 sd) left = Some (ok2, left2, e2)"
      "rs' = rs\<lparr>rs_oldWorkers := left2\<rparr>" "effs = sent @ e1 @ signalAll (sd_findOk2 sd) EfKill left @ e2"
      "\<And>q sig. q \<in> fst ` set (rs_oldWorkers rs) \<Longrightarrow> rs_sigToSend rs = Some sig \<Longrightarrow> sd_findOk sd q \<Longrightarrow> EfSignal q sig \<in> set sent"
proof -
  let ?sent = "case rs_sigToSend rs of
      Some sig \<Rightarrow> signalAll (sd_findOk sd) (\<lambda>pid. EfSignal pid sig) (rs_oldWorkers rs) | None \<Rightarrow> []"
  have sent: "EfSignal q sig \<in> set ?sent"
    if "q \<in> fst ` set (rs_oldWorkers rs)" "rs_sigToSend rs = Some sig" "sd_findOk sd q" for q sig
    using that signalAll_member [of q "rs_oldWorkers rs" "sd_findOk sd" "\<lambda>pid. EfSignal pid sig"] by simp
  from assms obtain ok left e1 where w1: "waitForWorkers (rs_generation rs) (sd_wait sd) (rs_oldWorkers rs) = Some (ok, left, e1)"
    by (auto simp: shutdownWorkers_def Let_def split: option.splits)
  show thesis
  proof (cases ok)
    case True
    with waitForWorkers_facts [OF w1] have "left = []" by simp
    with assms w1 True show thesis by (intro ended [OF _ _ _ sent]) (auto simp: shutdownWorkers_def Let_def)
  next
    case False
    with assms w1 obtain ok2 left2 e2 where "waitForWorkers (rs_generation rs) (sd_wait2 sd) left = Some (ok2, left2, e2)"
      by (auto simp: shutdownWorkers_def Let_def split: option.splits)
    with assms w1 False show thesis by (intro forced [OF _ _ _ _ sent]) (auto simp: shutdownWorkers_def Let_def)
  qed
qed

lemma shutdownWorkers_facts:
  assumes "shutdownWorkers sd rs = Some (rs', effs)"
  shows "(\<exists>left. rs' = rs\<lparr>rs_oldWorkers := left\<rparr>) \<and>
    (\<forall>q \<in> fst ` set (rs_oldWorkers rs). \<forall>sig. rs_sigToSend rs = Some sig \<longrightarrow> sd_findOk sd q \<longrightarrow> EfSignal q sig \<in> set effs) \<and>
    (\<forall>q \<in> fst ` set (rs_oldWorkers rs). Exited q \<in> set (sd_wait sd) \<or> (sd_findOk2 sd q \<longrightarrow> EfKill q \<in> set effs)) \<and>
    (\<forall>q \<in> fst ` set (rs_oldWorkers rs). Exited q \<in> set (sd_wait sd @ sd_wait2 sd) \<or> q \<in> fst ` set (rs_oldWorkers rs')) \<and>
    (rs_oldWorkers rs' \<noteq> [] \<longrightarrow> TimedOut \<in> set (sd_wait sd) \<and> TimedOut \<in> set (sd_wait2 sd))"
  using assms
proof (cases rule: shutdownWorkers_Some)
  case (ended sent e1)
  then have "\<forall>q \<in> fst ` set (rs_oldWorkers rs). Exited q \<in> set (sd_wait sd)"
    using waitForWorkers_facts [OF ended(1)] by simp
  with ended(2-4) show ?thesis by (intro conjI exI [of _ "[]"]) simp_all
next
  case (forced sent left e1 ok2 left2 e2)
  note f1 = waitForWorkers_facts [OF forced(1)] and f2 = waitForWorkers_facts [OF forced(2)]
  have old: "rs_oldWorkers rs' = left2" using forced(3) by simp
  have left: "q \<in> fst ` set left \<or> Exited q \<in> set (sd_wait sd)" if "q \<in> fst ` set (rs_oldWorkers rs)" for q
    using f1 that by blast
  have left2: "q \<in> fst ` set left2 \<or> Exited q \<in> set (sd_wait2 sd)" if "q \<in> fst ` set left" for q
    using f2 that by blast
  have kill: "EfKill q \<in> set effs" if "q \<in> fst ` set left" "sd_findOk2 sd q" for q
    using that signalAll_member [of q left "sd_findOk2 sd" EfKill] forced(4) by simp
  have "\<forall>q \<in> fst ` set (rs_oldWorkers rs). Exited q \<in> set (sd_wait sd) \<or> (sd_findOk2 sd q \<longrightarrow> EfKill q \<in> set effs)"
    using left kill by blast
  moreover have "\<forall>q \<in> fst ` set (rs_oldWorkers rs). Exited q \<in> set (sd_wait sd @ sd_wait2 sd) \<or> q \<in> fst ` set (rs_oldWorkers rs')"
    unfolding old set_append using left left2 by blast
  moreover have "left2 \<noteq> [] \<longrightarrow> TimedOut \<in> set (sd_wait sd) \<and> TimedOut \<in> set (sd_wait2 sd)"
    using f1 [THEN conjunct2, THEN conjunct1] f2 [THEN conjunct1] f2 [THEN conjunct2, THEN conjunct1] by blast
  moreover have "\<forall>q \<in> fst ` set (rs_oldWorkers rs). \<forall>sig. rs_sigToSend rs = Some sig \<longrightarrow> sd_findOk sd q \<longrightarrow> EfSignal q sig \<in> set effs"
    unfolding forced(4) using forced(5) by simp
  ultimately show ?thesis unfolding old using forced(3) by blast
qed

lemma finishLoop_Some:
  assumes "finishLoop w sd rs = Some (rs', effs)"
  obtains rs1 work where "shutdownWorkers sd (retireCurrent rs) = Some (rs1, work)"
    and "effs = work @ [EfCloseStateDone] @ (if rs_timer rs1 then [EfStopTimer] else []) @
           (if rs_pidFile rs1 then [EfClosePidFile] else []) @ teardown w rs1 @ [EfCloseDone]"
    and "rs' = rs1\<lparr>rs_ctrl := closeDone (rs_ctrl rs1)\<rparr>"
  using assms by (auto simp: finishLoop_def releaseAll_def split: option.splits)

text \<open>An iteration that returns leaves every live process under the supervisor's control.\<close>

lemma restartStep_Return:
  assumes "restartStep w an rs = Some (Return rs', effs)"
  shows "newWorkers effs = [] \<and> rs_sigToSend rs' = Some (signalOnTERM (w_starter w)) \<and> tracked rs' = tracked rs \<and>
    rs_pidFile rs' = rs_pidFile rs \<and> rs_listeners rs' = rs_listeners rs \<and> (\<exists>e. ctl_err (rs_ctrl rs') = Some e)"
proof -
  from assms have "bringUp w an ((retireCurrent rs)\<lparr>rs_p := None\<rparr>) = Some (Inl rs', effs)"
    by (auto simp: restartStep_def split: option.splits prod.splits sum.splits)
  from bringUp_Inl [OF this] tracked_retire [of rs] show ?thesis
    by (auto simp: tracked_def)
qed

lemma loopIter_Return:
  assumes "loopIter w ev (sy_rs s) = Some (Return rs', effs)" and "sysInv s" and "exitsLive ev (sy_live s)"
  shows "rs_sigToSend rs' = Some (signalOnTERM (w_starter w)) \<and>
    tracked rs' = set (afterExit ev (sy_live s)) \<and> rs_pidFile rs' = rs_pidFile (sy_rs s) \<and>
    rs_listeners rs' = rs_listeners (sy_rs s) \<and> (\<exists>e. ctl_err (rs_ctrl rs') = Some e)"
proof -
  let ?rs = "sy_rs s"
  from assms(1) obtain effs' where "selectStep w ev ?rs = Some (Return rs', effs')" by (auto simp: loopIter_def)
  moreover from assms(2) obtain p where p: "rs_p ?rs = Some p" "p \<notin> fst ` set (rs_oldWorkers ?rs)"
      "set (sy_live s) = tracked ?rs"
    by (auto simp: sysInv_def Let_def tracked_def split: option.splits)
  ultimately show ?thesis
  proof (cases rule: selectStep_cases)
    case (failed pid an rs1)
    with bringUp_Inl [OF failed(3)] p show ?thesis by (auto simp: tracked_def)
  next
    case (restart an rs0)
    with restartStep_Return [OF restart(3)] p show ?thesis by (auto simp: tracked_def restartsFrom_def)
  qed (use p in \<open>auto simp: failWith_def tracked_def\<close>)
qed

text \<open>
  C3: stopping leaves no orphan. When the loop returns from a reachable state, for whatever
  reason, and its deferred calls have run, every process that was live has been sent the
  configured termination signal (if it could be found), everyone who did not exit within the
  first grace period has been killed, and the run's error is available to \<open>Wait\<close>. The effects
  end in a fixed order: the pid file is released after all work on the workers, then the status
  file is removed and the sockets are closed, and the done channel is closed last.
\<close>

theorem stop_signals_every_worker:
  assumes "reachable (sysInit w) (sysStep w) s" and "exitsLive ev (sy_live s)"
    and "loopIter w ev (sy_rs s) = Some (Return rs1, effs1)" and "finishLoop w sd rs1 = Some (rs2, effs2)"
  shows "(\<forall>q \<in> set (afterExit ev (sy_live s)).
       (sd_findOk sd q \<longrightarrow> EfSignal q (signalOnTERM (w_starter w)) \<in> set effs2) \<and>
       (Exited q \<in> set (sd_wait sd) \<or> (sd_findOk2 sd q \<longrightarrow> EfKill q \<in> set effs2))) \<and>
    (\<exists>e. Wait (rs_ctrl rs2) = Some (Some e)) \<and>
    (\<exists>work. (\<forall>x \<in> set effs2. isSignal x \<longrightarrow> x \<in> set work) \<and>
       effs2 = work @ (if rs_pidFile (sy_rs s) then [EfClosePidFile] else []) @ teardown w (sy_rs s) @ [EfCloseDone])"
  using assms(4)
proof (rule finishLoop_Some)
  fix rs3 work
  assume sh: "shutdownWorkers sd (retireCurrent rs1) = Some (rs3, work)"
    and e: "effs2 = work @ [EfCloseStateDone] @ (if rs_timer rs3 then [EfStopTimer] else []) @
           (if rs_pidFile rs3 then [EfClosePidFile] else []) @ teardown w rs3 @ [EfCloseDone]"
    and rs2: "rs2 = rs3\<lparr>rs_ctrl := closeDone (rs_ctrl rs3)\<rparr>"
  note r = loopIter_Return [OF assms(3) supervisor.reachable_inv [OF assms(1)] assms(2)]
  note f = shutdownWorkers_facts [OF sh]
  from f obtain left where rs3: "rs3 = (retireCurrent rs1)\<lparr>rs_oldWorkers := left\<rparr>" by blast
  have old: "fst ` set (rs_oldWorkers (retireCurrent rs1)) = set (afterExit ev (sy_live s))"
    unfolding tracked_retire using r by simp
  have sig: "rs_sigToSend (retireCurrent rs1) = Some (signalOnTERM (w_starter w))" using r by simp
  have td: "teardown w rs3 = teardown w (sy_rs s)" using r rs3 by (simp add: teardown_def)
  have quiet: "\<not> isSignal x" if "x \<in> set (teardown w rs')" for x rs'
    using that by (auto simp: teardown_def split: if_splits option.splits)
  let ?work = "work @ [EfCloseStateDone] @ (if rs_timer rs3 then [EfStopTimer] else [])"
  have "effs2 = ?work @ (if rs_pidFile (sy_rs s) then [EfClosePidFile] else []) @ teardown w (sy_rs s) @ [EfCloseDone]"
    using e r rs3 td by simp
  moreover from this have "\<forall>x \<in> set effs2. isSignal x \<longrightarrow> x \<in> set ?work"
    using quiet by (auto split: if_splits)
  moreover have "\<forall>q \<in> set (afterExit ev (sy_live s)).
       (sd_findOk sd q \<longrightarrow> EfSignal q (signalOnTERM (w_starter w)) \<in> set effs2) \<and>
       (Exited q \<in> set (sd_wait sd) \<or> (sd_findOk2 sd q \<longrightarrow> EfKill q \<in> set effs2))"
    using f sig e unfolding old [symmetric] by auto
  moreover have "\<exists>e. Wait (rs_ctrl rs2) = Some (Some e)"
    using r rs2 rs3 by (auto simp: Wait_def Err_def)
  ultimately show ?thesis by blast
qed

definition calmShutdown :: shutdownAnswers where
  "calmShutdown = \<lparr>sd_findOk = (\<lambda>_. True), sd_wait = [TimedOut], sd_findOk2 = (\<lambda>_. True), sd_wait2 = [Exited 9]\<rparr>"

theorem stop_signals_every_worker_witness:
  "\<exists>rs rs1 effs1 rs2 effs2. loopIter sampleWorld CtxDone rs = Some (Return rs1, effs1) \<and>
     finishLoop sampleWorld calmShutdown rs1 = Some (rs2, effs2) \<and>
     EfSignal 9 SIGTERM \<in> set effs2 \<and> EfKill 9 \<in> set effs2"
proof -
  obtain s where i: "sysInit sampleWorld s" and p: "rs_p (sy_rs s) = Some 9" and l: "sy_live s = [9]"
    using sample_init by blast
  from i have r: "reachable (sysInit sampleWorld) (sysStep sampleWorld) s" by (rule reach_init)
  have old: "rs_oldWorkers (sy_rs s) = []"
    using supervisor.reachable_inv [OF r] p l
    by (cases "rs_oldWorkers (sy_rs s)") (auto simp: sysInv_def Let_def)
  obtain rs1 effs1 where c: "loopIter sampleWorld CtxDone (sy_rs s) = Some (Return rs1, effs1)"
    by (simp add: loopIter_def selectStep_def)
  then have rs1: "rs_p rs1 = Some 9" "rs_oldWorkers rs1 = []"
    using p old by (auto simp: loopIter_def selectStep_def failWith_def)
  then have o: "rs_oldWorkers (retireCurrent rs1) = [(9, rs_generation rs1)]" by simp
  have "\<exists>r. shutdownWorkers calmShutdown (retireCurrent rs1) = Some r"
    unfolding shutdownWorkers_def o by (simp add: calmShutdown_def Let_def del: retireCurrent_simps)
  then obtain rs2 effs2 where f: "finishLoop sampleWorld calmShutdown rs1 = Some (rs2, effs2)"
    by (auto simp: finishLoop_def releaseAll_def)
  have "exitsLive CtxDone (sy_live s)" by (simp add: exitsLive_def)
  note r = stop_signals_every_worker [OF r this c f]
  have "9 \<in> set (afterExit CtxDone (sy_live s))" "sd_findOk calmShutdown 9" "sd_findOk2 calmShutdown 9"
    "Exited 9 \<notin> set (sd_wait calmShutdown)" "signalOnTERM (w_starter sampleWorld) = SIGTERM"
    using l by (simp_all add: calmShutdown_def afterExit_def sampleWorld_def sampleStarter_def)
  with r have "EfSignal 9 SIGTERM \<in> set effs2 \<and> EfKill 9 \<in> set effs2" by metis
  with c f show ?thesis by blast
qed

text \<open>
  C21: the shutdown ends. Once both grace periods expire, at the latest, the deferred calls run to
  completion, whichever workers have exited by then and in whatever order.
\<close>

theorem shutdown_terminates:
  assumes "TimedOut \<in> set (sd_wait sd)" and "TimedOut \<in> set (sd_wait2 sd)"
  shows "\<exists>rs' effs. finishLoop w sd rs = Some (rs', effs) \<and> ctl_done (rs_ctrl rs')"
proof -
  let ?rs = "retireCurrent rs"
  obtain ok left e1 where w1: "waitForWorkers (rs_generation ?rs) (sd_wait sd) (rs_oldWorkers ?rs) = Some (ok, left, e1)"
    using waitForWorkers_ends [OF assms(1)] by (metis not_None_eq prod_cases3)
  obtain ok2 left2 e2 where "waitForWorkers (rs_generation ?rs) (sd_wait2 sd) left = Some (ok2, left2, e2)"
    using waitForWorkers_ends [OF assms(2)] by (metis not_None_eq prod_cases3)
  with w1 have "shutdownWorkers sd ?rs \<noteq> None"
    by (cases ok) (simp_all add: shutdownWorkers_def Let_def del: retireCurrent_simps)
  then show ?thesis by (auto simp: finishLoop_def releaseAll_def)
qed

theorem shutdown_terminates_witness:
  "\<exists>rs' effs. finishLoop sampleWorld \<lparr>sd_findOk = (\<lambda>_. False), sd_wait = [Exited 9, TimedOut],
      sd_findOk2 = (\<lambda>_. False), sd_wait2 = [TimedOut]\<rparr> (runningState 11 2 [(9, 1)] False False) = Some (rs', effs) \<and>
     ctl_done (rs_ctrl rs')"
  by (rule shutdown_terminates) simp_all

end
