(* ===== verification/Lifecycle.thy ===== *)
theory Lifecycle
  imports Run Shutdown
begin

text \<open>
  The whole life of a run: \<open>loop\<close> of \<open>internal/supervisor/supervisor.go\<close> from the start of the first
  worker to the last deferred call, for any sequence of events and requests, and \<open>run\<close> around
  it, with the startup check. What a run acquires it gives back, whichever way it ends.
\<close>

subsection \<open>The loop from start to end\<close>

text \<open>
  What reaches a running loop: a hangup request of another goroutine, which fills the buffer of
  the channel, or an event that wins the \<open>select\<close>. \<open>None\<close> means that the loop still runs when
  the inputs are used up.
\<close>

datatype loopInput = InRequest | InEvent event

fun loopFrom :: "world \<Rightarrow> shutdownAnswers \<Rightarrow> loopInput list \<Rightarrow> runState \<Rightarrow> (runState \<times> effect list) option" where
  "loopFrom w sd [] rs = None"
| "loopFrom w sd (InRequest # ins) rs = loopFrom w sd ins (rs\<lparr>rs_ctrl := Hangup (rs_ctrl rs)\<rparr>)"
| "loopFrom w sd (InEvent ev # ins) rs =
     (case loopIter w ev rs of
        None \<Rightarrow> None
      | Some (Return rs1, effs) \<Rightarrow>
          map_option (\<lambda>(rs2, effs2). (rs2, effs @ effs2)) (finishLoop w sd rs1)
      | Some (Continue rs1, effs) \<Rightarrow>
          map_option (\<lambda>(rs2, effs2). (rs2, effs @ effs2)) (loopFrom w sd ins rs1))"

text \<open>What is left of the loop once its start is over; \<open>Inl\<close> has returned already.\<close>

definition loopRest ::
  "world \<Rightarrow> shutdownAnswers \<Rightarrow> loopInput list \<Rightarrow> runState + runState \<Rightarrow> (runState \<times> effect list) option" where
  "loopRest w sd ins r =
     (case r of Inl rs \<Rightarrow> Some (rs, []) | Inr rs \<Rightarrow> loopFrom w sd ins rs)"

definition loop ::
  "world \<Rightarrow> startAnswers \<Rightarrow> shutdownAnswers \<Rightarrow> loopInput list \<Rightarrow> bool \<Rightarrow> runState \<Rightarrow> (runState \<times> effect list) option" where
  "loop w sa sd ins waitForStartup rs =
     (case loopStart w sa waitForStartup rs of
        None \<Rightarrow> None
      | Some (r, effs) \<Rightarrow>
          map_option (\<lambda>(rs2, effs2). (rs2, effs @ effs2)) (loopRest w sd ins r))"

subsection \<open>Run\<close>

text \<open>The verdict that arrives on the startup channel.\<close>

fun startupVerdict :: "effect list \<Rightarrow> run_error option" where
  "startupVerdict [] = None"
| "startupVerdict (EfStartup v # effs) = v"
| "startupVerdict (_ # effs) = startupVerdict effs"

text \<open>
  Without the startup check the controller is returned as soon as the setup is done. With it the
  verdict decides, and an error is returned only after the done channel has been closed, that
  is after the loop has run to its end. \<open>Inr\<close> is the state the loop has when \<open>run\<close> returns.
\<close>

definition run ::
  "world \<Rightarrow> setupAnswers \<Rightarrow> startAnswers \<Rightarrow> shutdownAnswers \<Rightarrow> loopInput list \<Rightarrow> bool \<Rightarrow>
     ((run_error + runState) \<times> effect list) option" where
  "run w su sa sd ins waitForStartup =
     (case runSetup w su of
        (Inl e, effs) \<Rightarrow> Some (Inl e, effs)
      | (Inr rs, effs) \<Rightarrow>
          if \<not> waitForStartup then Some (Inr rs, effs)
          else (case loopStart w sa True rs of
                  None \<Rightarrow> None
                | Some (r, effs2) \<Rightarrow>
                    (case startupVerdict effs2 of
                       None \<Rightarrow> Some (Inr (case r of Inl rs' \<Rightarrow> rs' | Inr rs' \<Rightarrow> rs'), effs @ effs2)
                     | Some e \<Rightarrow>
                         map_option (\<lambda>(rs', effs3). (Inl e, effs @ effs2 @ effs3)) (loopRest w sd ins r))))"

definition Starter_Run ::
  "world \<Rightarrow> setupAnswers \<Rightarrow> startAnswers \<Rightarrow> shutdownAnswers \<Rightarrow> loopInput list \<Rightarrow> ((run_error + runState) \<times> effect list) option" where
  "Starter_Run w su sa sd ins = run w su sa sd ins False"

definition RunWithStartupCheck ::
  "world \<Rightarrow> setupAnswers \<Rightarrow> startAnswers \<Rightarrow> shutdownAnswers \<Rightarrow> loopInput list \<Rightarrow> ((run_error + runState) \<times> effect list) option" where
  "RunWithStartupCheck w su sa sd ins = run w su sa sd ins True"

subsection \<open>Facts of every iteration\<close>

text \<open>An effect that neither acquires nor releases a resource of the run.\<close>

definition neutral :: "effect \<Rightarrow> bool" where
  "neutral e \<longleftrightarrow> \<not> isRelease e \<and> acquired [e] = [] \<and> e \<noteq> EfCloseDone"

lemma neutral_list:
  "\<forall>e \<in> set effs. neutral e \<Longrightarrow> filter isRelease effs = [] \<and> acquired effs = [] \<and> EfCloseDone \<notin> set effs"
proof (induction effs)
  case (Cons e effs)
  have "acquired ([e] @ effs) = acquired [e] @ acquired effs" by (rule acquired_append)
  with Cons show ?case by (auto simp: neutral_def)
qed simp

lemma neutral_simps [simp]:
  "neutral (EfStatus m)" "neutral (EfRounds r)" "neutral (EfWorker p g)" "neutral EfResetTimer" "neutral EfStopTimer"
  "neutral (EfSleep d)" "neutral (EfSignal p sig)" "neutral (EfKeepPath h)" "neutral (EfKill p)" "neutral EfCloseStateDone" "neutral (EfStartup v)"
  by (simp_all add: neutral_def)

lemma neutral_parts [simp]:
  "e \<in> set (writeStatus rs) \<Longrightarrow> neutral e" "e \<in> set (resetTimer rs) \<Longrightarrow> neutral e"
  "e \<in> set (killOldWorkers w findOk rs) \<Longrightarrow> neutral e"
  by (auto simp: writeStatus_def resetTimer_def killOldWorkers_def split: if_splits)

definition stateOf :: "flow \<Rightarrow> runState" where
  "stateOf fl = (case fl of Continue rs \<Rightarrow> rs | Return rs \<Rightarrow> rs)"

lemma stateOf_simps [simp]: "stateOf (Continue rs) = rs" "stateOf (Return rs) = rs"
  by (simp_all add: stateOf_def)

text \<open>
  What an iteration keeps: it acquires and releases nothing, it knows the same resources, no
  worker gets lost but by its exit, and an iteration that returns leaves an error and the
  termination signal behind.
\<close>

definition keepsRun :: "world \<Rightarrow> pid set \<Rightarrow> runState \<Rightarrow> flow \<Rightarrow> effect list \<Rightarrow> bool" where
  "keepsRun w gone rs fl effs \<longleftrightarrow>
     (let rs' = stateOf fl in
      (\<forall>e \<in> set effs. neutral e) \<and> rs_pidFile rs' = rs_pidFile rs \<and> rs_listeners rs' = rs_listeners rs \<and>
      rs_timer rs' = rs_timer rs \<and> tracked rs \<union> set (newWorkers effs) \<subseteq> tracked rs' \<union> gone \<and>
      (\<forall>rs1. fl = Return rs1 \<longrightarrow> rs_sigToSend rs1 = Some (signalOnTERM (w_starter w)) \<and>
         (\<exists>e. ctl_err (rs_ctrl rs1) = Some e)))"

lemma bringUp_neutral: "bringUp w an rs = Some (r, effs) \<Longrightarrow> e \<in> set effs \<Longrightarrow> neutral e"
  by (auto simp: bringUp_def Let_def split: sum.splits option.splits)

lemma restartStep_keeps:
  assumes "restartStep w an rs = Some (fl, effs)"
  shows "keepsRun w {} rs fl effs"
proof (cases fl)
  case (Continue rs')
  from assms [unfolded Continue] show ?thesis
    by (rule restartStep_Continue) (auto simp: Continue keepsRun_def tracked_def keys_update split: option.splits)
next
  case (Return rs')
  from assms Return have b: "bringUp w an ((retireCurrent rs)\<lparr>rs_p := None\<rparr>) = Some (Inl rs', effs)"
    by (auto simp: restartStep_def split: option.splits prod.splits sum.splits)
  from bringUp_Inl [OF b] bringUp_neutral [OF b] tracked_retire [of rs] show ?thesis
    by (auto simp: Return keepsRun_def tracked_def)
qed

lemma keepsRun_mono:
  assumes "keepsRun w {} rs0 fl effs" and "rs_pidFile rs0 = rs_pidFile rs" and "rs_listeners rs0 = rs_listeners rs"
    and "rs_timer rs0 = rs_timer rs" and "tracked rs \<subseteq> tracked rs0 \<union> gone"
  shows "keepsRun w gone rs fl effs"
  using assms by (auto simp: keepsRun_def Let_def)

lemma selectStep_keeps:
  assumes "selectStep w ev rs = Some (fl, effs)"
  shows "keepsRun w (exitOf ev) rs fl effs"
  using assms
proof (cases rule: selectStep_cases)
  case (replaced pid an rs1 effs1)
  from replaced(3) show ?thesis
    by (rule bringUp_Inr) (use replaced(1,2,4,5) in \<open>auto simp: keepsRun_def tracked_def\<close>)
next
  case (failed pid an rs1)
  with bringUp_Inl [OF failed(3)] bringUp_neutral [OF failed(3)] show ?thesis
    by (auto simp: keepsRun_def tracked_def)
next
  case (restart an rs0)
  from restartStep_keeps [OF restart(3)] show ?thesis
    by (rule keepsRun_mono) (use restart(2) in \<open>auto simp: restartsFrom_def tracked_def\<close>)
qed (auto simp: keepsRun_def failWith_def tracked_def keys_delete)

lemma loopIter_keeps:
  assumes "loopIter w ev rs = Some (fl, effs)"
  shows "keepsRun w (exitOf ev) rs fl effs"
proof -
  from assms obtain effs' where "selectStep w ev rs = Some (fl, effs')" "effs = writeStatus rs @ effs'"
    by (auto simp: loopIter_def)
  with selectStep_keeps [of w ev rs fl effs'] show ?thesis by (auto simp: keepsRun_def Let_def)
qed

subsection \<open>The way out\<close>

lemma set_newWorkers: "set (newWorkers effs) = {p. \<exists>g. EfWorker p g \<in> set effs}"
  by (induction effs rule: newWorkers.induct) auto

text \<open>The effects of a way out: work on the workers, then everything is released, then done.\<close>

definition endsRun :: "world \<Rightarrow> runState \<Rightarrow> effect list \<Rightarrow> bool" where
  "endsRun w rs effs \<longleftrightarrow>
     (\<exists>work. (\<forall>e \<in> set work. neutral e) \<and> effs = work @ abortSetup w rs @ [EfCloseDone])"

lemma endsRun_prepend:
  assumes "endsRun w rs' effs" and "\<forall>e \<in> set pre. neutral e" and "rs_pidFile rs' = rs_pidFile rs"
    and "rs_listeners rs' = rs_listeners rs"
  shows "endsRun w rs (pre @ effs)"
proof -
  have a: "abortSetup w rs' = abortSetup w rs" using assms(3,4) by (simp add: abortSetup_def teardown_def)
  from assms(1) obtain work where n: "\<forall>e \<in> set work. neutral e" and e: "effs = work @ abortSetup w rs @ [EfCloseDone]"
    unfolding endsRun_def a by blast
  show ?thesis unfolding endsRun_def by (rule exI [of _ "pre @ work"]) (use n e assms(2) in auto)
qed

lemma abortSetup_open: "EfCloseDone \<notin> set (abortSetup w rs)" "EfWorker p g \<notin> set (abortSetup w rs)"
  by (auto simp: abortSetup_def teardown_def split: if_splits option.splits)

lemma endsRun_releases:
  assumes "endsRun w rs effs"
  shows "filter isRelease effs = (if rs_pidFile rs then [EfClosePidFile] else []) @ acquired (bindEffects (rs_listeners rs)) \<and>
    acquired effs = [] \<and> (\<exists>before. effs = before @ [EfCloseDone] \<and> EfCloseDone \<notin> set before)"
proof -
  from assms obtain work where n: "\<forall>e \<in> set work. neutral e" and e: "effs = work @ abortSetup w rs @ [EfCloseDone]"
    by (auto simp: endsRun_def)
  from neutral_list [OF n] show ?thesis
    using abortSetup_open(1) by (auto simp: e filter_release_abort acquired_release intro!: exI [of _ "work @ abortSetup w rs"])
qed

text \<open>The effects of the shutdown start no worker either.\<close>

fun isWorker :: "effect \<Rightarrow> bool" where
  "isWorker (EfWorker p g) = True"
| "isWorker _ = False"

lemma signalAll_quiet: "\<forall>p. P (f p) \<Longrightarrow> \<forall>x \<in> set (signalAll findOk f old). P x"
  by (auto simp: signalAll_def)

lemma waitForWorkers_quiet:
  "waitForWorkers g evs old = Some (ok, left, es) \<Longrightarrow> \<forall>x \<in> set es. neutral x \<and> \<not> isWorker x"
  using waitForWorkers_facts by fastforce

lemma shutdownWorkers_quiet:
  assumes "shutdownWorkers sd rs = Some (rs', effs)"
  shows "\<forall>e \<in> set effs. neutral e \<and> \<not> isWorker e"
proof -
  let ?quiet = "\<lambda>es. \<forall>e \<in> set es. neutral e \<and> \<not> isWorker e"
  obtain ok left e1 where w1: "waitForWorkers (rs_generation rs) (sd_wait sd) (rs_oldWorkers rs) = Some (ok, left, e1)"
    using assms by (cases "waitForWorkers (rs_generation rs) (sd_wait sd) (rs_oldWorkers rs)")
      (auto simp: shutdownWorkers_def Let_def)
  define sent where "sent = (case rs_sigToSend rs of
      Some sig \<Rightarrow> signalAll (sd_findOk sd) (\<lambda>pid. EfSignal pid sig) (rs_oldWorkers rs) | None \<Rightarrow> [])"
  have q: "?quiet sent" by (auto simp: sent_def signalAll_def split: option.splits)
  show ?thesis
  proof (cases ok)
    case True
    with assms w1 have "effs = sent @ e1" by (simp add: shutdownWorkers_def Let_def sent_def)
    with q waitForWorkers_quiet [OF w1] show ?thesis by auto
  next
    case False
    obtain ok2 left2 e2 where w2: "waitForWorkers (rs_generation rs) (sd_wait2 sd) left = Some (ok2, left2, e2)"
      using assms w1 False by (cases "waitForWorkers (rs_generation rs) (sd_wait2 sd) left")
        (auto simp: shutdownWorkers_def Let_def)
    have "?quiet (signalAll (sd_findOk2 sd) EfKill left)" by (rule signalAll_quiet) simp
    moreover have "effs = sent @ e1 @ signalAll (sd_findOk2 sd) EfKill left @ e2"
      using assms w1 w2 False by (simp add: shutdownWorkers_def Let_def sent_def)
    ultimately show ?thesis using q waitForWorkers_quiet [OF w1] waitForWorkers_quiet [OF w2] by auto
  qed
qed

lemma finishLoop_ends:
  assumes "finishLoop w sd rs = Some (rs', effs)" and "rs_sigToSend rs = Some sig"
  shows "endsRun w rs effs \<and> ctl_done (rs_ctrl rs') \<and> ctl_err (rs_ctrl rs') = ctl_err (rs_ctrl rs) \<and>
    newWorkers effs = [] \<and>
    (\<forall>q \<in> tracked rs. (sd_findOk sd q \<longrightarrow> EfSignal q sig \<in> set effs) \<and>
       (Exited q \<in> set (sd_wait sd) \<or> (sd_findOk2 sd q \<longrightarrow> EfKill q \<in> set effs)))"
  using assms(1)
proof (rule finishLoop_Some)
  fix rs1 work
  assume sh: "shutdownWorkers sd (retireCurrent rs) = Some (rs1, work)"
    and e: "effs = work @ [EfCloseStateDone] @ (if rs_timer rs1 then [EfStopTimer] else []) @
           (if rs_pidFile rs1 then [EfClosePidFile] else []) @ teardown w rs1 @ [EfCloseDone]"
    and r: "rs' = rs1\<lparr>rs_ctrl := closeDone (rs_ctrl rs1)\<rparr>"
  note f = shutdownWorkers_facts [OF sh] and n = shutdownWorkers_quiet [OF sh]
  from f obtain left where rs1: "rs1 = (retireCurrent rs)\<lparr>rs_oldWorkers := left\<rparr>" by blast
  let ?work = "work @ [EfCloseStateDone] @ (if rs_timer rs1 then [EfStopTimer] else [])"
  have e': "effs = ?work @ abortSetup w rs @ [EfCloseDone]" using e rs1 by (simp add: abortSetup_def teardown_def)
  moreover have w: "\<forall>x \<in> set ?work. neutral x \<and> \<not> isWorker x" using n by auto
  ultimately have "endsRun w rs effs" unfolding endsRun_def by blast
  moreover have "newWorkers effs = []"
  proof -
    have "EfWorker p g \<notin> set ?work" for p g using w by (metis isWorker.simps(1))
    then have "set (newWorkers effs) = {}" unfolding set_newWorkers e' using abortSetup_open(2) [of _ _ w rs] by auto
    then show ?thesis by simp
  qed
  moreover have "\<forall>q \<in> tracked rs. (sd_findOk sd q \<longrightarrow> EfSignal q sig \<in> set effs) \<and>
       (Exited q \<in> set (sd_wait sd) \<or> (sd_findOk2 sd q \<longrightarrow> EfKill q \<in> set effs))"
    using f assms(2) e unfolding tracked_retire [symmetric] by auto
  ultimately show ?thesis using r rs1 by simp
qed

text \<open>What became of a worker when the loop has ended.\<close>

definition seenOff :: "world \<Rightarrow> shutdownAnswers \<Rightarrow> loopInput list \<Rightarrow> effect list \<Rightarrow> pid \<Rightarrow> bool" where
  "seenOff w sd ins effs q \<longleftrightarrow>
     (\<exists>an. InEvent (WorkerExit q an) \<in> set ins) \<or>
     (sd_findOk sd q \<longrightarrow> EfSignal q (signalOnTERM (w_starter w)) \<in> set effs) \<and>
     (Exited q \<in> set (sd_wait sd) \<or> (sd_findOk2 sd q \<longrightarrow> EfKill q \<in> set effs))"

lemma seenOff_mono:
  "seenOff w sd ins effs q \<Longrightarrow> set ins \<subseteq> set ins' \<Longrightarrow> set effs \<subseteq> set effs' \<Longrightarrow> seenOff w sd ins' effs' q"
  by (auto simp: seenOff_def)

lemma loopFrom_ends:
  assumes "loopFrom w sd ins rs = Some (rs', effs)"
  shows "endsRun w rs effs \<and> ctl_done (rs_ctrl rs') \<and> (\<exists>e. ctl_err (rs_ctrl rs') = Some e) \<and>
    (\<forall>q \<in> tracked rs \<union> set (newWorkers effs). seenOff w sd ins effs q)"
  using assms
proof (induction w sd ins rs arbitrary: effs rule: loopFrom.induct)
  case (1 w sd rs)
  then show ?case by simp
next
  case (2 w sd ins rs)
  from 2(1) [of effs] 2(2) show ?case
    by (auto simp: tracked_def endsRun_def abortSetup_def teardown_def seenOff_def)
next
  case (3 w sd ev ins rs)
  from 3(2) obtain fl pre where i: "loopIter w ev rs = Some (fl, pre)" by (auto split: option.splits)
  note k = loopIter_keeps [OF i, unfolded keepsRun_def Let_def]
  have gone: "seenOff w sd (InEvent ev # ins) effs q" if "q \<in> exitOf ev" for q
    using that by (auto simp: exitOf_def seenOff_def split: event.splits)
  show ?case
  proof (cases fl)
    case (Return rs1)
    with 3(2) i obtain post where f: "finishLoop w sd rs1 = Some (rs', post)" and e: "effs = pre @ post" by auto
    have sig: "rs_sigToSend rs1 = Some (signalOnTERM (w_starter w))" using k Return by simp
    note n = finishLoop_ends [OF f sig]
    have "seenOff w sd (InEvent ev # ins) effs q" if "q \<in> tracked rs1" for q
      using n that by (auto simp: seenOff_def e)
    moreover have "tracked rs \<union> set (newWorkers effs) \<subseteq> tracked rs1 \<union> exitOf ev"
      using k n Return e by simp
    ultimately have "\<forall>q \<in> tracked rs \<union> set (newWorkers effs). seenOff w sd (InEvent ev # ins) effs q"
      using gone by blast
    moreover have "endsRun w rs effs" unfolding e
      by (rule endsRun_prepend [where rs' = rs1]) (use n k Return in simp_all)
    moreover have "\<exists>e. ctl_err (rs_ctrl rs') = Some e" using n k Return by simp
    ultimately show ?thesis using n by blast
  next
    case (Continue rs1)
    with 3(2) i obtain post where f: "loopFrom w sd ins rs1 = Some (rs', post)" and e: "effs = pre @ post" by auto
    note n = 3(1) [OF i [unfolded Continue] refl refl f]
    have "seenOff w sd (InEvent ev # ins) effs q" if "q \<in> tracked rs1 \<union> set (newWorkers post)" for q
      using n that by (auto simp: e intro: seenOff_mono [where ins = ins and effs = post])
    moreover have "tracked rs \<union> set (newWorkers effs) \<subseteq> tracked rs1 \<union> set (newWorkers post) \<union> exitOf ev"
      using k Continue e by auto
    ultimately have "\<forall>q \<in> tracked rs \<union> set (newWorkers effs). seenOff w sd (InEvent ev # ins) effs q"
      using gone by blast
    moreover have "endsRun w rs effs" unfolding e
      by (rule endsRun_prepend [where rs' = rs1]) (use n k Continue in simp_all)
    ultimately show ?thesis using n by blast
  qed
qed

subsection \<open>From setup to the end\<close>

lemma runSetup_acquires:
  assumes "runSetup w su = (Inr rs, effs)"
  shows "acquired effs = (if rs_pidFile rs then [EfClosePidFile] else []) @ acquired (bindEffects (rs_listeners rs)) \<and>
    filter isRelease effs = [] \<and> newWorkers effs = [] \<and> ctl_err (rs_ctrl rs) = None"
proof -
  from assms obtain targets canonical ds where
    a: "acquireAndBind w su targets canonical (freshRun\<lparr>rs_descriptors := ds\<rparr>) = (Inr rs, effs)"
    by (auto simp: runSetup_def Let_def split: sum.splits option.splits)
  have binds: "newWorkers (bindEffects ls) = []" for ls
    by (induction ls) (auto simp: bindEffects_def split: option.splits)
  have o: "effs' = bindEffects (rs_listeners rs') \<and> rs_pidFile rs' = rs_pidFile rs0 \<and> rs_ctrl rs' = rs_ctrl rs0"
    if "openSockets w su targets canonical rs0 = (Inr rs', effs')" for rs0 rs' effs'
    using that by (auto simp: openSockets_def reloadEnvdir_def Let_def split: prod.splits option.splits sum.splits)
  show ?thesis
  proof (cases "pidFile (w_starter w) = []")
    case True
    with a have "openSockets w su targets canonical (freshRun\<lparr>rs_descriptors := ds\<rparr>) = (Inr rs, effs)"
      by (simp add: acquireAndBind_def)
    from o [OF this] show ?thesis by (simp add: filter_release_bind binds freshRun_def newController_def)
  next
    case False
    with a obtain effs' where e: "effs = EfAcquirePidFile # effs'"
      and "openSockets w su targets canonical (freshRun\<lparr>rs_descriptors := ds, rs_pidFile := True\<rparr>) = (Inr rs, effs')"
      by (auto simp: acquireAndBind_def split: option.splits prod.splits)
    from o [OF this(2)] show ?thesis by (simp add: e filter_release_bind binds freshRun_def newController_def)
  qed
qed

text \<open>The start of the loop: it has returned and given everything back, or a worker is running.\<close>

lemma loopStart_returned:
  assumes "loopStart w sa wait rs = Some (Inl rs', effs)"
  shows "endsRun w rs effs \<and> newWorkers effs = [] \<and> ctl_done (rs_ctrl rs') \<and>
    (\<exists>e. ctl_err (rs_ctrl rs') = Some e) \<and> (wait \<longrightarrow> startupVerdict effs \<noteq> None)"
proof -
  from assms obtain r e where r: "startWorker (w_starter w) (w_platform w) (w_policy w) wait (rs_listeners rs)
      (rs_descriptors rs) (rs_overlay rs) (w_lookCmd w) (rs_generation rs) (sa_attempts sa) = Some r"
    and e: "st_result r = Inl e"
    by (auto simp: loopStart_def Let_def split: option.splits sum.splits)
  define pre where "pre = EfRounds (st_rounds r) #
    (if wait then [EfStartup (Some (if workerStartCanceled (sa_ctxErr sa) e then RunCtx else RunStart e))] else [])"
  have effs: "effs = pre @ abortSetup w rs @ [EfCloseDone]"
    and c: "ctl_done (rs_ctrl rs')" "\<exists>e. ctl_err (rs_ctrl rs') = Some e"
    using assms by (auto simp: loopStart_def r e pre_def releaseAll_def abortSetup_def teardown_def Let_def)
  have "\<forall>x \<in> set pre. neutral x \<and> \<not> isWorker x" by (simp add: pre_def)
  then have "endsRun w rs effs" and "newWorkers pre = []" unfolding endsRun_def effs by (blast, simp add: pre_def)
  moreover have "set (newWorkers (abortSetup w rs)) = {}" unfolding set_newWorkers using abortSetup_open(2) [of _ _ w rs] by auto
  moreover have "wait \<longrightarrow> startupVerdict effs \<noteq> None" by (simp add: effs pre_def)
  ultimately show ?thesis using c effs by simp
qed

lemma loopStart_running:
  assumes "loopStart w sa wait rs = Some (Inr rs', effs)"
  shows "(\<forall>e \<in> set effs. neutral e) \<and> rs_pidFile rs' = rs_pidFile rs \<and> rs_listeners rs' = rs_listeners rs \<and>
    rs_ctrl rs' = rs_ctrl rs \<and> (\<exists>pid. rs_p rs' = Some pid \<and> tracked rs' = {pid} \<and> newWorkers effs = [pid]) \<and>
    (wait \<longrightarrow> startupVerdict effs = (if sa_ctxErr sa then Some RunCtx else None))"
  using assms by (auto simp: loopStart_def tracked_def Let_def split: option.splits sum.splits prod.splits)

lemma loop_ends:
  assumes "loopStart w sa wait rs = Some (r, effs1)" and "loopRest w sd ins r = Some (rs', effs2)"
  shows "endsRun w rs (effs1 @ effs2) \<and> ctl_done (rs_ctrl rs') \<and> (\<exists>e. ctl_err (rs_ctrl rs') = Some e) \<and>
    (\<forall>q \<in> set (newWorkers (effs1 @ effs2)). seenOff w sd ins (effs1 @ effs2) q)"
proof (cases r)
  case (Inl rs1)
  with assms(2) have "rs' = rs1" "effs2 = []" by (simp_all add: loopRest_def)
  with loopStart_returned [OF assms(1) [unfolded Inl]] show ?thesis by simp
next
  case (Inr rs1)
  note l = loopStart_running [OF assms(1) [unfolded Inr]]
  from assms(2) Inr have "loopFrom w sd ins rs1 = Some (rs', effs2)" by (simp add: loopRest_def)
  note f = loopFrom_ends [OF this]
  have "endsRun w rs (effs1 @ effs2)"
    by (rule endsRun_prepend [where rs' = rs1]) (use f l in simp_all)
  moreover have "\<forall>q \<in> set (newWorkers (effs1 @ effs2)). seenOff w sd ins (effs1 @ effs2) q"
    using f l by (auto intro: seenOff_mono [where ins = ins and effs = effs2])
  ultimately show ?thesis using f by blast
qed

text \<open>The balance of a setup followed by a whole loop.\<close>

lemma setup_balance:
  assumes "runSetup w su = (Inr rs, effs0)" and "endsRun w rs effs"
  shows "mset (filter isRelease (effs0 @ effs)) = mset (acquired (effs0 @ effs))"
  using runSetup_acquires [OF assms(1)] endsRun_releases [OF assms(2)] by simp

text \<open>
  C10: a run gives back what it took. Take a run whose setup succeeded and any sequence of exits,
  requests, timer ticks and cancellation after which the loop has returned. Then the pid file and
  every socket the setup acquired have been released, and each once; the done channel was closed
  once and as the very last thing; \<open>Wait\<close> returns an error; and every worker that was ever
  started has exited, or has been sent the termination signal and, unless it exited within the
  grace period, has been killed.
\<close>

theorem lifecycle_releases:
  assumes "runSetup w su = (Inr rs, effs0)" and "loop w sa sd ins wait rs = Some (rs', effs)"
  shows "mset (filter isRelease (effs0 @ effs)) = mset (acquired (effs0 @ effs)) \<and>
    (\<exists>before. effs = before @ [EfCloseDone] \<and> EfCloseDone \<notin> set before) \<and>
    (\<exists>e. Wait (rs_ctrl rs') = Some (Some e)) \<and>
    (\<forall>q \<in> set (newWorkers effs). seenOff w sd ins effs q)"
proof -
  from assms(2) obtain r effs1 effs2 where l: "loopStart w sa wait rs = Some (r, effs1)"
    and f: "loopRest w sd ins r = Some (rs', effs2)" and e: "effs = effs1 @ effs2"
    by (auto simp: loop_def split: option.splits)
  note n = loop_ends [OF l f, folded e]
  then have "endsRun w rs effs" by blast
  from setup_balance [OF assms(1) this] endsRun_releases [OF this] n show ?thesis
    by (simp add: Wait_def Err_def)
qed

theorem lifecycle_releases_witness:
  "\<exists>rs effs0 rs' effs. runSetup (portWorld [''8080=5''] []) calmSetup = (Inr rs, effs0) \<and>
     loop (portWorld [''8080=5''] []) \<lparr>sa_attempts = [goodAttempt 9], sa_ctxErr = False\<rparr> calmShutdown
       [InRequest, InEvent CtxDone] False rs = Some (rs', effs) \<and>
     mset (filter isRelease (effs0 @ effs)) = mset (acquired (effs0 @ effs)) \<and> newWorkers effs = [9] \<and>
     EfSignal 9 SIGTERM \<in> set effs \<and> EfKill 9 \<in> set effs"
proof -
  let ?w = "portWorld [''8080=5''] []"
  let ?loop = "loop ?w \<lparr>sa_attempts = [goodAttempt 9], sa_ctxErr = False\<rparr> calmShutdown [InRequest, InEvent CtxDone] False"
  have c: "case runSetup ?w calmSetup of (Inr rs, effs0) \<Rightarrow>
      (case ?loop rs of Some (rs', effs) \<Rightarrow> newWorkers effs = [9] | None \<Rightarrow> False) | _ \<Rightarrow> False"
    by code_simp
  then obtain rs effs0 rs' effs where su: "runSetup ?w calmSetup = (Inr rs, effs0)"
    and l: "?loop rs = Some (rs', effs)" and n: "newWorkers effs = [9]"
    by (auto split: prod.splits sum.splits option.splits)
  note r = lifecycle_releases [OF su l]
  from r n have "seenOff ?w calmShutdown [InRequest, InEvent CtxDone] effs 9" by simp
  then have "EfSignal 9 SIGTERM \<in> set effs" "EfKill 9 \<in> set effs"
    by (auto simp: seenOff_def calmShutdown_def portWorld_def sampleStarter_def)
  with r su l n show ?thesis by blast
qed

lemma startup_check:
  assumes "RunWithStartupCheck w su sa sd ins = Some (r, effs)"
  shows "(isOk r \<longleftrightarrow> \<not> sa_ctxErr sa \<and>
       (\<exists>rs effs0 rs' effs1. runSetup w su = (Inr rs, effs0) \<and> loopStart w sa True rs = Some (Inr rs', effs1))) \<and>
    (\<forall>rs'. r = Inr rs' \<longrightarrow> filter isRelease effs = [] \<and> Err (rs_ctrl rs') = None \<and>
       (\<exists>pid. rs_p rs' = Some pid \<and> newWorkers effs = [pid])) \<and>
    (\<forall>e. r = Inl e \<longrightarrow> mset (filter isRelease effs) = mset (acquired effs) \<and>
       (\<forall>q \<in> set (newWorkers effs). seenOff w sd ins effs q))"
proof (cases "runSetup w su")
  case (Pair x effs0)
  show ?thesis
  proof (cases x)
    case (Inl e)
    with assms Pair have r: "r = Inl e" "effs = effs0" by (simp_all add: RunWithStartupCheck_def run_def)
    have f: "runSetup w su = (Inl e, effs)" using Pair Inl r by simp
    from runSetup_failure_balance [OF f] runSetup_failure_workers [OF f] f r show ?thesis by simp
  next
    case (Inr rs)
    with Pair have su: "runSetup w su = (Inr rs, effs0)" by simp
    note a = runSetup_acquires [OF su]
    from assms su obtain r1 effs1 where l: "loopStart w sa True rs = Some (r1, effs1)"
      by (auto simp: RunWithStartupCheck_def run_def split: option.splits)
    have err: ?thesis if v: "startupVerdict effs1 = Some e" and no: "\<not> (\<not> sa_ctxErr sa \<and> (\<exists>rs'. r1 = Inr rs'))" for e
    proof -
      from assms su l v obtain rs' effs2 where f: "loopRest w sd ins r1 = Some (rs', effs2)"
        and r: "r = Inl e" "effs = effs0 @ effs1 @ effs2"
        by (auto simp: RunWithStartupCheck_def run_def)
      note n = loop_ends [OF l f]
      have "\<forall>q \<in> set (newWorkers effs). seenOff w sd ins effs q"
        using n a r(2) by (auto intro: seenOff_mono [where ins = ins and effs = "effs1 @ effs2"])
      moreover have "mset (filter isRelease effs) = mset (acquired effs)"
        unfolding r(2) using n by (intro setup_balance [OF su]) blast
      ultimately show ?thesis using r su l no by auto
    qed
    show ?thesis
    proof (cases r1)
      case (Inl rs1)
      with err loopStart_returned [OF l [unfolded Inl]] show ?thesis by auto
    next
      case (Inr rs1)
      note run = loopStart_running [OF l [unfolded Inr]]
      show ?thesis
      proof (cases "sa_ctxErr sa")
        case True
        with err run show ?thesis by auto
      next
        case False
        with assms su l Inr run have r: "r = Inr rs1" "effs = effs0 @ effs1"
          by (auto simp: RunWithStartupCheck_def run_def)
        with a run neutral_list [of effs1] su l Inr False show ?thesis by (auto simp: Err_def)
      qed
    qed
  qed
qed

text \<open>
  C11: the startup check reports the truth. \<open>RunWithStartupCheck\<close> returns a controller exactly when
  the setup succeeded, the first worker was started and the context is still live; then that
  worker is running and nothing has been released. When it returns an error instead, for
  whatever reason, everything that was acquired has been released, once, and every worker that
  was started meanwhile has been seen off.
\<close>

theorem startup_check_truthful:
  assumes "RunWithStartupCheck w su sa sd ins = Some (r, effs)"
  shows "(isOk r \<longleftrightarrow> \<not> sa_ctxErr sa \<and>
       (\<exists>rs effs0 rs' effs1. runSetup w su = (Inr rs, effs0) \<and> loopStart w sa True rs = Some (Inr rs', effs1))) \<and>
    (\<forall>rs'. r = Inr rs' \<longrightarrow> filter isRelease effs = [] \<and> Err (rs_ctrl rs') = None \<and>
       (\<exists>pid. rs_p rs' = Some pid \<and> newWorkers effs = [pid])) \<and>
    (\<forall>e. r = Inl e \<longrightarrow> mset (filter isRelease effs) = mset (acquired effs) \<and>
       (\<forall>q \<in> set (newWorkers effs). seenOff w sd ins effs q))"
  using assms by (rule startup_check)

theorem startup_check_truthful_witness:
  "\<exists>e effs. RunWithStartupCheck (portWorld [''8080=5''] []) calmSetup \<lparr>sa_attempts = [goodAttempt 9], sa_ctxErr = True\<rparr>
       calmShutdown [InEvent CtxDone] = Some (Inl e, effs) \<and> newWorkers effs = [9] \<and>
     mset (filter isRelease effs) = mset (acquired effs) \<and> EfSignal 9 SIGTERM \<in> set effs"
proof -
  let ?w = "portWorld [''8080=5''] []"
  let ?run = "RunWithStartupCheck ?w calmSetup \<lparr>sa_attempts = [goodAttempt 9], sa_ctxErr = True\<rparr> calmShutdown [InEvent CtxDone]"
  have "case ?run of Some (Inl e, effs) \<Rightarrow> newWorkers effs = [9] | _ \<Rightarrow> False" by code_simp
  then obtain e effs where r: "?run = Some (Inl e, effs)" and n: "newWorkers effs = [9]"
    by (auto split: option.splits prod.splits sum.splits)
  note t = startup_check_truthful [OF r]
  from t n have "seenOff ?w calmShutdown [InEvent CtxDone] effs 9" by simp
  then have "EfSignal 9 SIGTERM \<in> set effs"
    by (auto simp: seenOff_def calmShutdown_def portWorld_def sampleStarter_def)
  with t r n show ?thesis by blast
qed

subsection \<open>The auto-restart timer\<close>

text \<open>The timer exists exactly when the option is on, in every state the loop reaches.\<close>

lemma loopStart_timer: "loopStart w sa wait rs = Some (Inr rs', effs) \<Longrightarrow> rs_timer rs' = enableAutoRestart (w_starter w)"
  by (auto simp: loopStart_def Let_def split: option.splits sum.splits prod.splits)

interpretation timer: invariant_system "sysInit w" "sysStep w" "\<lambda>s. rs_timer (sy_rs s) = enableAutoRestart (w_starter w)" for w
proof
  fix s
  assume "sysInit w s"
  then show "rs_timer (sy_rs s) = enableAutoRestart (w_starter w)" by (auto simp: sysInit_def dest: loopStart_timer)
next
  fix s t
  assume "rs_timer (sy_rs s) = enableAutoRestart (w_starter w)" and "sysStep w s t"
  from this(2,1) show "rs_timer (sy_rs t) = enableAutoRestart (w_starter w)"
    by (cases rule: sysStep.cases) (auto simp: keepsRun_def Let_def dest: loopIter_keeps)
qed

text \<open>
  C14: automatic restarts keep coming. When the timer of a reachable state fires and the loop goes
  on, the option is on and the timer has been armed again. If no old worker was draining, a
  worker of a later generation has replaced the current one, which is the one old worker now and
  has been sent the hangup signal (if it could be found); otherwise nothing has changed, and in
  particular no third generation was started.
\<close>

theorem auto_restart:
  assumes "reachable (sysInit w) (sysStep w) s" and "loopIter w (RestartTimer an) (sy_rs s) = Some (Continue rs', effs)"
  shows "enableAutoRestart (w_starter w) \<and> rs_timer rs' \<and> EfResetTimer \<in> set effs \<and>
    (if rs_oldWorkers (sy_rs s) = [] then
       \<exists>p q. rs_p (sy_rs s) = Some p \<and> rs_p rs' = Some q \<and> rs_generation (sy_rs s) < rs_generation rs' \<and>
         rs_oldWorkers rs' = [(p, rs_generation (sy_rs s))] \<and> newWorkers effs = [q] \<and>
         (an_findOk an p \<longrightarrow> EfSignal p (signalOnHUP (w_starter w)) \<in> set effs)
     else rs' = sy_rs s \<and> newWorkers effs = [])"
proof -
  let ?rs = "sy_rs s"
  from assms(2) obtain effs' where sel: "selectStep w (RestartTimer an) ?rs = Some (Continue rs', effs')"
    and e: "effs = writeStatus ?rs @ effs'" by (auto simp: loopIter_def)
  have on: "rs_timer ?rs" using sel by (auto simp: selectStep_def split: if_splits)
  have opt: "enableAutoRestart (w_starter w)" using on timer.reachable_inv [OF assms(1)] by simp
  obtain p where p: "rs_p ?rs = Some p"
    using supervisor.reachable_inv [OF assms(1)] by (auto simp: sysInv_def Let_def split: option.splits)
  show ?thesis
  proof (cases "rs_oldWorkers ?rs = []")
    case True
    with sel on have "restartStep w an ?rs = Some (Continue rs', effs')" by (simp add: selectStep_def)
    then show ?thesis
    proof (rule restartStep_Continue)
      fix pid g ov rounds
      assume "rs' = (started pid g ov ((retireCurrent ?rs)\<lparr>rs_p := None\<rparr>))\<lparr>rs_ctrl := drainHangup (rs_ctrl ?rs)\<rparr>"
        and "rs_generation ?rs < g"
        and "effs' = [EfRounds rounds, EfWorker pid g] @ resetTimer ?rs @ killOldWorkers w (an_findOk an) (retireCurrent ?rs)"
      with True p on opt e killOld_all [of p "retireCurrent ?rs" "an_findOk an" w] show ?thesis
        by (simp add: resetTimer_def)
    qed
  next
    case False
    with sel on have "rs' = ?rs \<and> effs' = resetTimer ?rs" by (auto simp: selectStep_def)
    with e on opt False show ?thesis by (auto simp: resetTimer_def)
  qed
qed

definition autoWorld :: world where
  "autoWorld = sampleWorld\<lparr>w_starter := sampleStarter\<lparr>enableAutoRestart := True\<rparr>\<rparr>"

theorem auto_restart_witness:
  "\<exists>s rs' effs. reachable (sysInit autoWorld) (sysStep autoWorld) s \<and>
     loopIter autoWorld (RestartTimer (calmAnswers 11)) (sy_rs s) = Some (Continue rs', effs) \<and>
     rs_oldWorkers rs' = [(9, 1)] \<and> newWorkers effs = [11] \<and> EfSignal 9 SIGTERM \<in> set effs"
proof -
  let ?start = "loopStart autoWorld \<lparr>sa_attempts = [goodAttempt 9], sa_ctxErr = False\<rparr> False sampleRun"
  have c: "case ?start of Some (Inr rs, effs) \<Rightarrow> newWorkers effs = [9] \<and> rs_p rs = Some 9 \<and> rs_generation rs = 1 \<and> rs_oldWorkers rs = [] \<and>
      (case loopIter autoWorld (RestartTimer (calmAnswers 11)) rs of Some (Continue rs', effs') \<Rightarrow> newWorkers effs' = [11] | _ \<Rightarrow> False) | _ \<Rightarrow> False"
    by code_simp
  from c obtain x effs where "?start = Some (x, effs)" by (cases ?start) auto
  with c obtain rs where st0: "?start = Some (Inr rs, effs)" by (cases x) auto
  with c have st: "?start = Some (Inr rs, effs)" "newWorkers effs = [9]"
    and rs: "rs_p rs = Some 9" "rs_generation rs = 1" "rs_oldWorkers rs = []" by simp_all
  from c st obtain fl effs' where "loopIter autoWorld (RestartTimer (calmAnswers 11)) rs = Some (fl, effs')"
    by (cases "loopIter autoWorld (RestartTimer (calmAnswers 11)) rs") auto
  with c st obtain rs' where it: "loopIter autoWorld (RestartTimer (calmAnswers 11)) rs = Some (Continue rs', effs')"
    "newWorkers effs' = [11]" by (cases fl) auto
  let ?s = "\<lparr>sy_rs = rs, sy_live = [9]\<rparr>"
  have "sysInit autoWorld ?s" unfolding sysInit_def using st by (auto simp: sampleRun_def intro!: exI)
  then have r: "reachable (sysInit autoWorld) (sysStep autoWorld) ?s" by (rule reach_init)
  have "loopIter autoWorld (RestartTimer (calmAnswers 11)) (sy_rs ?s) = Some (Continue rs', effs')" using it by simp
  note a = auto_restart [OF r this]
  have "an_findOk (calmAnswers 11) 9" "signalOnHUP (w_starter autoWorld) = SIGTERM"
    by (simp_all add: calmAnswers_def autoWorld_def sampleStarter_def)
  with a rs it r show ?thesis by (intro exI [of _ ?s] exI [of _ rs'] exI [of _ effs']) simp
qed

end
