(* ===== verification/Logs.thy ===== *)
theory Logs
  imports Lifecycle
begin

text \<open>
  The lines in which the supervisor names its workers (\<open>printWorkerPIDs\<close> and the two places of
  \<open>loop\<close> and \<open>shutdownWorkers\<close> in \<open>internal/supervisor/supervisor.go\<close> that announce signals). Other
  log lines are left out.
\<close>

text \<open>The loop over the pids, which counts to know where a comma goes.\<close>

fun printPIDs :: "nat \<Rightarrow> nat \<Rightarrow> pid list \<Rightarrow> string" where
  "printPIDs i n [] = []"
| "printPIDs i n (p # ps) =
     itoa p @ (if Suc i < n then '','' else []) @ printPIDs (Suc i) n ps"

definition printWorkerPIDs :: "(pid \<times> int) list \<Rightarrow> string" where
  "printWorkerPIDs old =
     (if old = [] then ''none'' @ [newline]
      else printPIDs 0 (length old) (map fst old) @ [newline])"

text \<open>Division of durations truncates towards zero.\<close>

definition wholeSeconds :: "duration \<Rightarrow> int" where
  "wholeSeconds d = sgn d * (\<bar>d\<bar> div 1000000000)"

text \<open>What a restart says once the new worker runs, up to the signals themselves.\<close>

definition restartLog :: "bool \<Rightarrow> duration \<Rightarrow> runState \<Rightarrow> string" where
  "restartLog windows delay rs =
     ''new worker is now running, sending '' @ signame windows (rs_sigToSend rs) @ '' to old workers:'' @
     (if rs_oldWorkers rs = [] then ''none'' @ [newline]
      else printPIDs 0 (length (rs_oldWorkers rs)) (map fst (rs_oldWorkers rs)) @ [newline] @
           ''sleep '' @ itoa (wholeSeconds delay) @ '' secs'' @ [newline] @
           ''killing old workers'' @ [newline])"

text \<open>What the shutdown says before and while it signals; \<open>sigErr\<close> is the error of a signal.\<close>

definition shutdownLog :: "bool \<Rightarrow> (pid \<Rightarrow> bool) \<Rightarrow> (pid \<Rightarrow> string option) \<Rightarrow> runState \<Rightarrow> string" where
  "shutdownLog windows findOk sigErr rs =
     ''sending '' @ signame windows (rs_sigToSend rs) @ '' to all workers:'' @ printWorkerPIDs (rs_oldWorkers rs) @
     concat (map (\<lambda>(p, g). case sigErr p of
         Some e \<Rightarrow> ''failed to signal worker '' @ itoa p @ '': '' @ e @ [newline]
       | None \<Rightarrow> []) (filter (\<lambda>(p, g). findOk p) (rs_oldWorkers rs)))"

subsection \<open>The list of workers can be read back\<close>

lemma printPIDs_join: "i + length ps = n \<Longrightarrow> printPIDs i n ps = goJoin (CHR '','') (map itoa ps)"
proof (induction i n ps rule: printPIDs.induct)
  case (2 i n p ps)
  then show ?case by (cases ps) auto
qed simp

lemma itoa_positive:
  assumes "0 < p"
  shows "CHR '','' \<notin> set (itoa p) \<and> newline \<notin> set (itoa p)"
proof -
  have "list_all isDigit (itoa p)" using assms by (simp add: itoa_nonneg formatUint_digits)
  moreover have "\<not> isDigit (CHR '','')" "\<not> isDigit newline" by (simp_all add: isDigit_def)
  ultimately show ?thesis by (auto simp: list_all_iff)
qed

interpretation pids: sep_codec "CHR '',''" itoa atoi id "\<lambda>p. 0 < p \<and> in64 p"
  by unfold_locales (simp_all add: itoa_positive atoi_itoa)

text \<open>
  The announcement of a shutdown is complete. When the loop of a reachable state is left, the
  pids in the line can be read back from the log, and they are exactly the live processes, the
  current worker included.
\<close>

theorem shutdown_announces_workers:
  assumes "reachable (sysInit w) (sysStep w) s" and "\<forall>q \<in> set (sy_live s). q < 2 ^ 63"
  shows "\<exists>line qs. printWorkerPIDs (rs_oldWorkers (retireCurrent (sy_rs s))) = line @ [newline] \<and>
    mapE atoi (goSplit (CHR '','') line) = Inr qs \<and> set qs = set (sy_live s)"
proof -
  let ?old = "rs_oldWorkers (retireCurrent (sy_rs s))"
  from supervisor.reachable_inv [OF assms(1)] obtain p where p: "rs_p (sy_rs s) = Some p" "0 < p"
    and live: "set (sy_live s) = insert p (fst ` set (rs_oldWorkers (sy_rs s)))"
    and pos: "\<forall>(q, g) \<in> set (rs_oldWorkers (sy_rs s)). 0 < q \<and> 0 < g \<and> g < rs_generation (sy_rs s)"
    by (auto simp: sysInv_def Let_def split: option.splits)
  have keys: "fst ` set ?old = set (sy_live s)" using p live by (simp add: keys_update)
  then have ne: "?old \<noteq> []" using live by auto
  have "0 < q \<and> in64 q" if "q \<in> set (map fst ?old)" for q
    using that keys live p(2) pos assms(2) by (auto simp: in64_def)
  then have "mapE atoi (goSplit (CHR '','') (goJoin (CHR '','') (map itoa (map fst ?old)))) = Inr (map id (map fst ?old))"
    using ne by (intro pids.decode_list) auto
  moreover have "printWorkerPIDs ?old = goJoin (CHR '','') (map itoa (map fst ?old)) @ [newline]"
    using ne by (simp add: printWorkerPIDs_def printPIDs_join)
  ultimately show ?thesis using keys
    by (intro exI [of _ "goJoin (CHR '','') (map itoa (map fst ?old))"] exI [of _ "map fst ?old"]) simp
qed

theorem shutdown_announces_workers_witness:
  "\<exists>s line. reachable (sysInit sampleWorld) (sysStep sampleWorld) s \<and> sy_live s = [9] \<and>
     printWorkerPIDs (rs_oldWorkers (retireCurrent (sy_rs s))) = line @ [newline] \<and>
     (\<exists>qs. mapE atoi (goSplit (CHR '','') line) = Inr qs \<and> set qs = {9})"
proof -
  obtain s where i: "sysInit sampleWorld s" and l: "sy_live s = [9]" using sample_init by blast
  from i have r: "reachable (sysInit sampleWorld) (sysStep sampleWorld) s" by (rule reach_init)
  from shutdown_announces_workers [OF r] l show ?thesis using r by auto
qed

text \<open>
  The line of a restart by the timer names no signal, or that of an earlier restart: the
  variable it reads is not assigned in that case, although the signal is sent.
\<close>

lemma timer_restart_keeps_sigToSend:
  assumes "loopIter w (RestartTimer an) rs = Some (Continue rs', effs)"
  shows "rs_sigToSend rs' = rs_sigToSend rs"
proof -
  from assms obtain effs' where "selectStep w (RestartTimer an) rs = Some (Continue rs', effs')"
    by (auto simp: loopIter_def)
  then consider "restartStep w an rs = Some (Continue rs', effs')" | "rs' = rs"
    by (auto simp: selectStep_def split: if_splits)
  then show ?thesis
  proof cases
    case 1
    then show ?thesis by (rule restartStep_Continue) simp
  qed simp
qed

lemma first_timer_restart_logs_unknown:
  assumes "loopStart w sa wait rs0 = Some (Inr rs, effs0)" and "loopIter w (RestartTimer an) rs = Some (Continue rs', effs)"
  shows "\<exists>rest. restartLog windows delay rs' = ''new worker is now running, sending UNKNOWN to old workers:'' @ rest"
proof -
  have "rs_sigToSend rs = None"
    using assms(1) by (auto simp: loopStart_def Let_def split: option.splits sum.splits prod.splits)
  then have "signame windows (rs_sigToSend rs') = ''UNKNOWN''"
    using timer_restart_keeps_sigToSend [OF assms(2)] by (simp add: signame_def)
  then show ?thesis by (simp add: restartLog_def)
qed

end
