(* ===== verification/PublishedStatus.thy ===== *)
theory PublishedStatus
  imports Supervisor
begin

text \<open>
  The table the loop publishes in every iteration (\<open>writeStatus\<close> of \<open>Supervisor\<close> with
  \<open>StatusMap\<close> and \<open>WriteStatus\<close> of \<open>internal/statefile/status.go\<close>), as a reader of the status
  file finds it.
\<close>

subsection \<open>The published status\<close>

lemma length_update_le: "length (AList.update k v m) \<le> Suc (length m)"
  by (induction m) auto

lemma length_StatusMap: "length (StatusMap old cur g) \<le> Suc (length old)"
proof -
  have "length (fold (\<lambda>(pid, gen) m. AList.update gen pid m) old m) \<le> length old + length m" for m
  proof (induction old arbitrary: m)
    case (Cons e old)
    obtain p h where "e = (p, h)" by (cases e)
    with Cons [of "AList.update h p m"] length_update_le [of h p m] show ?case by simp
  qed simp
  from this [of "[]"] show ?thesis
    using length_update_le [of g cur "fold (\<lambda>(pid, gen) m. AList.update gen pid m) old []"]
    by (simp add: StatusMap_def Let_def)
qed

lemma length_statusText:
  assumes "\<forall>(g, p) \<in> set es. 0 \<le> g \<and> g < 2 ^ 63 \<and> 0 \<le> p \<and> p < 2 ^ 63"
  shows "length (statusText es) \<le> 42 * length es"
  using assms
proof (induction es)
  case (Cons e es)
  obtain g p where e: "e = (g, p)" by (cases e)
  with Cons.prems have "0 \<le> g" "g < 10 ^ 20" "0 \<le> p" "p < 10 ^ 20" by simp_all
  then have "length (itoa g) \<le> 20" "length (itoa p) \<le> 20" by (simp_all add: itoa_nonneg length_formatUint)
  with Cons e show ?case by (simp add: statusText_def statusLine_def)
qed (simp add: statusText_def)

lemma status_small:
  assumes "\<forall>(q, g) \<in> set ((p, gen) # old). 0 < q \<and> q < 2 ^ 63 \<and> 0 < g \<and> g < 2 ^ 63" and "length old \<le> 1"
    and "distinct (map snd old)" and "gen \<notin> snd ` set old"
  shows "int (length (statusText (statusEntries (StatusMap old p gen)))) \<le> maxStatusFileSize"
proof -
  let ?m = "StatusMap old p gen"
  have "length (statusText (statusEntries ?m)) \<le> 42 * length (statusEntries ?m)"
  proof (rule length_statusText)
    have "set (statusEntries ?m) = set ?m" by (simp add: statusEntries_set StatusMap_distinct)
    with assms(1) StatusMap_set [OF assms(3,4), of p]
    show "\<forall>(g, q) \<in> set (statusEntries ?m). 0 \<le> g \<and> g < 2 ^ 63 \<and> 0 \<le> q \<and> q < 2 ^ 63" by auto
  qed
  also have "length (statusEntries ?m) \<le> 2"
    using length_StatusMap [of old p gen] assms(2) by (simp add: statusEntries_def)
  finally show ?thesis by (simp add: maxStatusFileSize_def)
qed

text \<open>
  C17: the status file tells the truth. In every reachable state, once the table of the loop has
  been written without an error, a reader of the file gets exactly the live processes, the
  current worker under the current generation and the old one under an earlier one. The numbers
  must fit 64 bits; that the file stays far below the reader's size limit is part of the proof.
\<close>

theorem status_lists_live_workers:
  assumes "reachable (sysInit w) (sysStep w) s" and "rs_generation (sy_rs s) < 2 ^ 63"
    and "\<forall>q \<in> set (sy_live s). q < 2 ^ 63"
    and "EfStatus m \<in> set (writeStatus (sy_rs s))" and "WriteStatus io fn m fs = (tr, fs', None)"
    and "fn \<noteq> []" and "w_tmp io \<noteq> fn" and "fs (w_tmp io) = None"
  shows "\<exists>data status. fs' fn = Some data \<and> ReadStatus (healthyFile data) = Inr status \<and>
    sorted (map fst status) \<and> snd ` set status = set (sy_live s) \<and>
    (rs_generation (sy_rs s), currentPID (sy_rs s)) \<in> set status \<and>
    (\<forall>(g, p) \<in> set status. g \<le> rs_generation (sy_rs s))"
proof -
  let ?rs = "sy_rs s" and ?cur = "currentPID (sy_rs s)"
  from supervisor.reachable_inv [OF assms(1)] obtain p where p: "rs_p ?rs = Some p" "0 < p"
      and live: "set (sy_live s) = insert p (fst ` set (rs_oldWorkers ?rs))"
      and len: "length (rs_oldWorkers ?rs) \<le> 1" and gen: "0 < rs_generation ?rs"
      and old: "\<forall>(q, g) \<in> set (rs_oldWorkers ?rs). 0 < q \<and> 0 < g \<and> g < rs_generation ?rs"
    by (auto simp: sysInv_def Let_def split: option.splits)
  from p have cur: "?cur = p" by (simp add: currentPID_def)
  have m: "m = StatusMap (rs_oldWorkers ?rs) p (rs_generation ?rs)"
    using assms(4) cur by (simp add: writeStatus_def)
  have d: "distinct (map snd (rs_oldWorkers ?rs))" using len by (cases "rs_oldWorkers ?rs") auto
  have n: "rs_generation ?rs \<notin> snd ` set (rs_oldWorkers ?rs)" using old by auto
  have in64: "\<forall>(q, g) \<in> set ((p, rs_generation ?rs) # rs_oldWorkers ?rs). 0 < q \<and> q < 2 ^ 63 \<and> 0 < g \<and> g < 2 ^ 63"
  proof -
    have "q < 2 ^ 63" if "(q, g) \<in> set (rs_oldWorkers ?rs)" for q g
    proof -
      from that have "q \<in> set (sy_live s)" unfolding live by force
      with assms(3) show ?thesis by blast
    qed
    moreover have "p < 2 ^ 63" using assms(3) live by blast
    moreover have "0 < q \<and> 0 < g \<and> g < 2 ^ 63" if "(q, g) \<in> set (rs_oldWorkers ?rs)" for q g
      using old that assms(2) by (auto dest: order.strict_trans)
    ultimately show ?thesis using assms(2) p(2) gen by auto
  qed
  have small: "int (length (statusText (statusEntries m))) \<le> maxStatusFileSize"
    unfolding m using in64 len d n by (rule status_small)
  have w: "\<forall>(q, g) \<in> set ((p, rs_generation ?rs) # rs_oldWorkers ?rs). in64 q \<and> in64 g"
    using in64 by (auto simp: in64_def)
  obtain data status where r: "fs' fn = Some data" "ReadStatus (healthyFile data) = Inr status"
      "sorted (map fst status)"
      "set status = {(g, q). (q, g) \<in> set (rs_oldWorkers ?rs)} \<union> (if p = 0 then {} else {(rs_generation ?rs, p)})"
    using status_read_back [OF d n w assms(5) [unfolded m] assms(6-8) small [unfolded m]] by blast
  have "snd ` {(g, q). (q, g) \<in> set (rs_oldWorkers ?rs)} = fst ` set (rs_oldWorkers ?rs)" by force
  then have "snd ` set status = set (sy_live s)" using r(4) live p(2) by (simp add: image_Un)
  moreover have "\<forall>(g, q) \<in> set status. g \<le> rs_generation ?rs" using r(4) old p(2) by auto
  ultimately show ?thesis using r p(2) cur by auto
qed

theorem status_lists_live_workers_witness:
  "\<exists>s tr fs' data status m. reachable (sysInit sampleWorld) (sysStep sampleWorld) s \<and>
     WriteStatus (quietIO ''st.1'') ''st'' m Map.empty = (tr, fs', None) \<and> fs' ''st'' = Some data \<and>
     ReadStatus (healthyFile data) = Inr status \<and> snd ` set status = {9}"
proof -
  obtain s where i: "sysInit sampleWorld s" and p: "rs_p (sy_rs s) = Some 9" and l: "sy_live s = [9]"
    and g: "rs_generation (sy_rs s) = 1" using sample_init by blast
  from i have r: "reachable (sysInit sampleWorld) (sysStep sampleWorld) s" by (rule reach_init)
  let ?m = "StatusMap (rs_oldWorkers (sy_rs s)) (currentPID (sy_rs s)) (rs_generation (sy_rs s))"
  obtain tr fs' e where h: "WriteStatus (quietIO ''st.1'') ''st'' ?m Map.empty = (tr, fs', e)" by (metis prod_cases3)
  then have e: "e = None" by (rule WriteStatus_quiet)
  have "EfStatus ?m \<in> set (writeStatus (sy_rs s))" by (simp add: writeStatus_def)
  from status_lists_live_workers [OF r _ _ this h [unfolded e]] g l
  have "\<exists>data status. fs' ''st'' = Some data \<and> ReadStatus (healthyFile data) = Inr status \<and> snd ` set status = {9}"
    by (auto simp: quietIO_def)
  with r h [unfolded e] show ?thesis by blast
qed

end
