(* ===== verification/PidPath.thy ===== *)
theory PidPath
  imports GoLib "HOL-Library.Multiset"
begin

text \<open>
  The trusted path to a pid file (\<open>internal/statefile/pidfile_unix.go\<close>): before a control
  command believes a pid file it walks down from the root directory, refuses symbolic links and
  every directory in which an untrusted user could put another file in place, and keeps a
  descriptor of the parent directory. There are two walkers, one for systems that can open a
  directory for searching only and one that resolves every name from a retained root.
\<close>

unbundle bit_operations_syntax

type_synonym uid = "32 word"

datatype fileKind = KDirectory | KSymlink | KRegular | KOther

record stat =
  st_uid :: uid
  st_perm :: "32 word"
  st_sticky :: bool
  st_kind :: fileKind

text \<open>
  The directory tree as the walkers see it, by the list of components below the root:
  \<open>fstatat\<close> without following links, \<open>open\<close> of a directory, and \<open>fstat\<close> of the opened one.
  Every prefix of such a list was checked to be a directory, so the list determines the file.
\<close>

record tree =
  t_lstat :: "string list \<Rightarrow> string + stat"
  t_openErr :: "string list \<Rightarrow> string option"
  t_fstat :: "string list \<Rightarrow> string + stat"

datatype pidpath_error =
    ErrPathSys string
  | ErrUntrustedAncestor uid
  | ErrAncestorReplaceable
  | ErrUntrustedParent uid
  | ErrParentReplaceable
  | ErrSymlinkComponent string
  | ErrNotDirectory string

subsection \<open>The policy\<close>

text \<open>Permissions are the low nine bits of the mode; octal 022 is 18.\<close>

definition validatePIDControlPathEntryMetadata ::
  "uid \<Rightarrow> uid \<Rightarrow> 32 word \<Rightarrow> bool \<Rightarrow> uid \<Rightarrow> pidpath_error option" where
  "validatePIDControlPathEntryMetadata trustedUID parentUID parentPermissions parentSticky entryUID =
     (if parentUID \<noteq> 0 \<and> parentUID \<noteq> trustedUID then Some (ErrUntrustedAncestor parentUID)
      else if parentPermissions AND 18 = 0 then None
      else if parentSticky \<and> (entryUID = 0 \<or> entryUID = trustedUID) then None
      else Some ErrAncestorReplaceable)"

definition validatePIDControlPathEntry :: "tree \<Rightarrow> uid \<Rightarrow> string list \<Rightarrow> uid \<Rightarrow> pidpath_error option" where
  "validatePIDControlPathEntry t euid parent entryUID =
     (case t_fstat t parent of
        Inl e \<Rightarrow> Some (ErrPathSys e)
      | Inr st \<Rightarrow> validatePIDControlPathEntryMetadata euid (st_uid st) (st_perm st) (st_sticky st) entryUID)"

definition validatePIDControlDirectoryMetadata :: "uid \<Rightarrow> uid \<Rightarrow> 32 word \<Rightarrow> pidpath_error option" where
  "validatePIDControlDirectoryMetadata trustedUID parentUID parentPermissions =
     (if parentUID \<noteq> 0 \<and> parentUID \<noteq> trustedUID then Some (ErrUntrustedParent parentUID)
      else if parentPermissions AND 18 \<noteq> 0 then Some ErrParentReplaceable
      else None)"

definition validatePIDControlDirectory :: "tree \<Rightarrow> uid \<Rightarrow> string list \<Rightarrow> pidpath_error option" where
  "validatePIDControlDirectory t euid parent =
     (case t_fstat t parent of
        Inl e \<Rightarrow> Some (ErrPathSys e)
      | Inr st \<Rightarrow> validatePIDControlDirectoryMetadata euid (st_uid st) (st_perm st))"

subsection \<open>The walkers\<close>

definition pathComponents :: "string \<Rightarrow> string list" where
  "pathComponents path = filter (\<lambda>part. part \<noteq> [] \<and> part \<noteq> ''.'') (goSplit (CHR ''/'') path)"

text \<open>Descriptors are named by the directory they are of; the log records opens and closes.\<close>

datatype dirEvent = DirOpen "string list" | DirClose "string list"

fun walkDirectories ::
  "tree \<Rightarrow> uid \<Rightarrow> string list list \<Rightarrow> dirEvent list \<Rightarrow> string list \<Rightarrow>
   dirEvent list \<times> (pidpath_error + string list list)" where
  "walkDirectories t euid directories ev [] = (ev, Inr directories)"
| "walkDirectories t euid directories ev (name # components) =
     (if name = ''..'' then
        (if length directories > 1
         then walkDirectories t euid (butlast directories) (ev @ [DirClose (last directories)]) components
         else walkDirectories t euid directories ev components)
      else
        (let current = last directories; entry = current @ [name];
             closeDirectories = map DirClose directories in
         case t_lstat t entry of Inl e \<Rightarrow> (ev @ closeDirectories, Inl (ErrPathSys e)) | Inr st \<Rightarrow>
         case validatePIDControlPathEntry t euid current (st_uid st) of
           Some e \<Rightarrow> (ev @ closeDirectories, Inl e)
         | None \<Rightarrow>
         if st_kind st = KSymlink then (ev @ closeDirectories, Inl (ErrSymlinkComponent name))
         else
         case t_openErr t entry of Some e \<Rightarrow> (ev @ closeDirectories, Inl (ErrPathSys e)) | None \<Rightarrow>
         case t_fstat t entry of
           Inl e \<Rightarrow> (ev @ [DirOpen entry, DirClose entry] @ closeDirectories, Inl (ErrPathSys e))
         | Inr info \<Rightarrow>
             if st_kind info \<noteq> KDirectory
             then (ev @ [DirOpen entry, DirClose entry] @ closeDirectories, Inl (ErrNotDirectory name))
             else walkDirectories t euid (directories @ [entry]) (ev @ [DirOpen entry]) components))"

definition openDirectoryPath :: "tree \<Rightarrow> uid \<Rightarrow> string \<Rightarrow> dirEvent list \<times> (pidpath_error + string list)" where
  "openDirectoryPath t euid path =
     (case t_openErr t [] of Some e \<Rightarrow> ([], Inl (ErrPathSys e)) | None \<Rightarrow>
      case walkDirectories t euid [[]] [DirOpen []] (pathComponents path) of
        (ev, Inl e) \<Rightarrow> (ev, Inl e)
      | (ev, Inr directories) \<Rightarrow>
          (case validatePIDControlDirectory t euid (last directories) of
             Some e \<Rightarrow> (ev @ map DirClose directories, Inl e)
           | None \<Rightarrow> (ev @ map DirClose (butlast directories), Inr (last directories))))"

text \<open>The root-anchored walker keeps names only; its parent is looked up again at every step.\<close>

fun resolveComponents :: "tree \<Rightarrow> uid \<Rightarrow> string list \<Rightarrow> string list \<Rightarrow> pidpath_error + string list" where
  "resolveComponents t euid resolved [] = Inr resolved"
| "resolveComponents t euid resolved (name # components) =
     (if name = ''..'' then
        resolveComponents t euid (if resolved \<noteq> [] then butlast resolved else resolved) components
      else
        case t_lstat t resolved of Inl e \<Rightarrow> Inl (ErrPathSys e) | Inr parent \<Rightarrow>
        case t_lstat t (resolved @ [name]) of Inl e \<Rightarrow> Inl (ErrPathSys e) | Inr entry \<Rightarrow>
        case validatePIDControlPathEntryMetadata euid (st_uid parent) (st_perm parent) (st_sticky parent)
               (st_uid entry) of
          Some e \<Rightarrow> Inl e
        | None \<Rightarrow>
            if st_kind entry = KSymlink then Inl (ErrSymlinkComponent name)
            else if st_kind entry \<noteq> KDirectory then Inl (ErrNotDirectory name)
            else resolveComponents t euid (resolved @ [name]) components)"

definition openRootAnchoredDirectoryPath ::
  "tree \<Rightarrow> uid \<Rightarrow> string \<Rightarrow> dirEvent list \<times> (pidpath_error + string list)" where
  "openRootAnchoredDirectoryPath t euid path =
     (case t_openErr t [] of Some e \<Rightarrow> ([], Inl (ErrPathSys e)) | None \<Rightarrow>
      case resolveComponents t euid [] (pathComponents path) of
        Inl e \<Rightarrow> ([DirOpen [], DirClose []], Inl e)
      | Inr resolved \<Rightarrow>
          (case t_lstat t resolved of
             Inl e \<Rightarrow> ([DirOpen [], DirClose []], Inl (ErrPathSys e))
           | Inr parent \<Rightarrow>
               (case validatePIDControlDirectoryMetadata euid (st_uid parent) (st_perm parent) of
                  Some e \<Rightarrow> ([DirOpen [], DirClose []], Inl e)
                | None \<Rightarrow> ([DirOpen []], Inr resolved))))"

text \<open>\<open>filepath.Split\<close> of an absolute path: everything up to the last slash, and the name.\<close>

definition filepathSplit :: "string \<Rightarrow> string \<times> string" where
  "filepathSplit p =
     (case goCutLast (CHR ''/'') p of Some (d, n) \<Rightarrow> (d @ ''/'', n) | None \<Rightarrow> ([], p))"

text \<open>
  The build constants of the four groups of Unix systems: the flag with which a directory is opened,
  and whether the root-anchored walker is used. A build without a flag that asks for less than
  reading opens only the root.
\<close>

datatype unixBuild = BuildLinux | BuildDarwin | BuildSearch | BuildOther

datatype accessFlag = AccessPath | AccessEvtOnly | AccessSearch | AccessReadOnly

fun directoryAccessFlag :: "unixBuild \<Rightarrow> accessFlag" where
  "directoryAccessFlag BuildLinux = AccessPath"
| "directoryAccessFlag BuildDarwin = AccessEvtOnly"
| "directoryAccessFlag BuildSearch = AccessSearch"
| "directoryAccessFlag BuildOther = AccessReadOnly"

fun useRootAnchoredDirectoryPath :: "unixBuild \<Rightarrow> bool" where
  "useRootAnchoredDirectoryPath BuildOther = True"
| "useRootAnchoredDirectoryPath _ = False"

text \<open>The retained directory, by its components, and the name that is opened relative to it.\<close>

record runningPIDPath =
  rp_path :: string
  rp_parent :: "string list"
  rp_name :: string

definition prepareRunningPIDPath ::
  "bool \<Rightarrow> tree \<Rightarrow> uid \<Rightarrow> string + string \<Rightarrow> string \<Rightarrow> dirEvent list \<times> (pidpath_error + runningPIDPath)" where
  "prepareRunningPIDPath useRootAnchored t euid getwd path =
     (case (if isAbsPath path then Inr path
            else (case getwd of Inl e \<Rightarrow> Inl (ErrPathSys e) | Inr wd \<Rightarrow> Inr (wd @ ''/'' @ path))) of
        Inl e \<Rightarrow> ([], Inl e)
      | Inr absPath \<Rightarrow>
          (case filepathSplit absPath of (parentPath, name) \<Rightarrow>
             if useRootAnchored then
               (case openRootAnchoredDirectoryPath t euid parentPath of
                  (ev, Inl e) \<Rightarrow> (ev, Inl e)
                | (ev, Inr rel) \<Rightarrow>
                    (ev, Inr \<lparr>rp_path = path, rp_parent = [],
                              rp_name = filepathJoin (goJoin (CHR ''/'') rel) name\<rparr>))
             else
               (case openDirectoryPath t euid parentPath of
                  (ev, Inl e) \<Rightarrow> (ev, Inl e)
                | (ev, Inr parent) \<Rightarrow>
                    (ev, Inr \<lparr>rp_path = path, rp_parent = parent, rp_name = name\<rparr>))))"

subsection \<open>The walkers: lemmas\<close>

lemma prefixes_snoc_last [simp]: "last (prefixes d) = d" "prefixes d \<noteq> []"
  by (induction d rule: rev_induct) (auto simp: prefixes_snoc)

lemma butlast_prefixes: "d \<noteq> [] \<Longrightarrow> butlast (prefixes d) = prefixes (butlast d)"
  by (induction d rule: rev_induct) (auto simp: prefixes_snoc)

lemma length_prefixes_gt: "Suc 0 < length (prefixes d) \<longleftrightarrow> d \<noteq> []"
  by (cases d) auto

text \<open>What was checked of every component of an accepted directory.\<close>

definition trustedStep :: "tree \<Rightarrow> uid \<Rightarrow> string list \<Rightarrow> string \<Rightarrow> bool" where
  "trustedStep t euid p n \<longleftrightarrow>
     (\<exists>sp se sd. t_fstat t p = Inr sp \<and> t_lstat t (p @ [n]) = Inr se \<and> t_fstat t (p @ [n]) = Inr sd \<and>
        validatePIDControlPathEntryMetadata euid (st_uid sp) (st_perm sp) (st_sticky sp) (st_uid se) = None \<and>
        st_kind se \<noteq> KSymlink \<and> st_kind sd = KDirectory)"

definition trustedChain :: "tree \<Rightarrow> uid \<Rightarrow> string list \<Rightarrow> bool" where
  "trustedChain t euid d \<longleftrightarrow> (\<forall>p n. prefix (p @ [n]) d \<longrightarrow> trustedStep t euid p n)"

lemma trustedChain_Nil [simp]: "trustedChain t euid []"
  by (simp add: trustedChain_def)

lemma trustedChain_snoc: "trustedChain t euid (d @ [n]) \<longleftrightarrow> trustedChain t euid d \<and> trustedStep t euid d n"
  by (auto simp: trustedChain_def)

lemma trustedChain_butlast: "trustedChain t euid d \<Longrightarrow> trustedChain t euid (butlast d)"
  by (cases d rule: rev_cases) (auto simp: trustedChain_snoc)

lemma walk_sound:
  "walkDirectories t euid (prefixes d) ev cs = (ev', Inr ds) \<Longrightarrow> trustedChain t euid d \<Longrightarrow>
   \<exists>d'. ds = prefixes d' \<and> trustedChain t euid d' \<and> set d' \<subseteq> set d \<union> set cs"
proof (induction cs arbitrary: d ev)
  case (Cons n cs)
  show ?case
  proof (cases "n = ''..''")
    case True
    show ?thesis
    proof (cases "d = []")
      case False
      with True Cons.prems have "walkDirectories t euid (prefixes (butlast d)) (ev @ [DirClose d]) cs = (ev', Inr ds)"
        by (simp add: butlast_prefixes length_prefixes_gt)
      from Cons.IH [OF this trustedChain_butlast [OF Cons.prems(2)]] show ?thesis
        by (auto dest: in_set_butlastD)
    next
      case nil: True
      with True Cons.prems have "walkDirectories t euid (prefixes d) ev cs = (ev', Inr ds)" by simp
      from Cons.IH [OF this Cons.prems(2)] show ?thesis by auto
    qed
  next
    case False
    with Cons.prems(1) have s: "trustedStep t euid d n"
      and w: "walkDirectories t euid (prefixes (d @ [n])) (ev @ [DirOpen (d @ [n])]) cs = (ev', Inr ds)"
      by (auto simp: trustedStep_def validatePIDControlPathEntry_def Let_def prefixes_snoc
          split: sum.splits option.splits if_splits)
    from Cons.IH [OF w] Cons.prems(2) s show ?thesis by (auto simp: trustedChain_snoc)
  qed
qed auto

definition opens :: "dirEvent list \<Rightarrow> string list multiset" where
  "opens ev = mset (concat (map (\<lambda>x. case x of DirOpen p \<Rightarrow> [p] | DirClose _ \<Rightarrow> []) ev))"

definition closes :: "dirEvent list \<Rightarrow> string list multiset" where
  "closes ev = mset (concat (map (\<lambda>x. case x of DirOpen _ \<Rightarrow> [] | DirClose p \<Rightarrow> [p]) ev))"

lemma events_simps [simp]:
  "opens [] = {#}" "closes [] = {#}"
  "opens (DirOpen p # ev) = add_mset p (opens ev)" "opens (DirClose p # ev) = opens ev"
  "closes (DirOpen p # ev) = closes ev" "closes (DirClose p # ev) = add_mset p (closes ev)"
  "opens (a @ b) = opens a + opens b" "closes (a @ b) = closes a + closes b"
  by (simp_all add: opens_def closes_def)

lemma close_all [simp]: "opens (map DirClose ds) = {#}" "closes (map DirClose ds) = mset ds"
  by (induction ds) auto

lemma mset_butlast_last: "ds \<noteq> [] \<Longrightarrow> add_mset (last ds) (mset (butlast ds)) = mset ds"
  by (metis append_butlast_last_id mset.simps add_mset_add_single mset_append)

lemma walk_balance:
  "walkDirectories t euid ds ev cs = (ev', r) \<Longrightarrow> ds \<noteq> [] \<Longrightarrow> opens ev = closes ev + mset ds \<Longrightarrow>
   opens ev' = closes ev' + (case r of Inl _ \<Rightarrow> {#} | Inr ds' \<Rightarrow> mset ds') \<and>
   (case r of Inl _ \<Rightarrow> True | Inr ds' \<Rightarrow> ds' \<noteq> [])"
proof (induction cs arbitrary: ds ev)
  case (Cons n cs)
  show ?case
  proof (cases "n = ''..''")
    case True
    show ?thesis
    proof (cases "length ds > 1")
      case l: True
      then have "butlast ds \<noteq> []" by (cases ds rule: rev_cases) auto
      moreover have "opens (ev @ [DirClose (last ds)]) = closes (ev @ [DirClose (last ds)]) + mset (butlast ds)"
        using Cons.prems(2,3) mset_butlast_last [of ds] by (simp add: union_assoc)
      ultimately show ?thesis using Cons.IH Cons.prems(1) True l by simp
    next
      case False
      with True Cons show ?thesis by simp
    qed
  next
    case False
    let ?e = "last ds @ [n]"
    show ?thesis
    proof (cases "walkDirectories t euid (ds @ [?e]) (ev @ [DirOpen ?e]) cs = (ev', r)")
      case True
      then show ?thesis using Cons.IH [OF True] Cons.prems by simp
    next
      case f: False
      with False Cons.prems show ?thesis
        by (auto simp: Let_def split: sum.splits option.splits if_splits)
    qed
  qed
qed auto

subsection \<open>What an accepted path guarantees\<close>

text \<open>
  Who can put another entry in place of an existing one: the owner of the directory, who can
  change its permissions, and with group or other write permission everybody, except that in a
  sticky directory only the owner of the entry can (the superuser is trusted anyway).
\<close>

definition mayReplace :: "uid \<Rightarrow> stat \<Rightarrow> uid \<Rightarrow> bool" where
  "mayReplace u d entryUID \<longleftrightarrow>
     u = st_uid d \<or> (st_perm d AND 18 \<noteq> 0 \<and> (st_sticky d \<longrightarrow> u = entryUID))"

lemma entry_policy:
  "validatePIDControlPathEntryMetadata euid (st_uid d) (st_perm d) (st_sticky d) entryUID = None \<longleftrightarrow>
   st_uid d \<in> {0, euid} \<and> (st_perm d AND 18 = 0 \<or> (st_sticky d \<and> entryUID \<in> {0, euid}))"
  by (auto simp: validatePIDControlPathEntryMetadata_def)

lemma directory_policy:
  "validatePIDControlDirectoryMetadata euid (st_uid d) (st_perm d) = None \<longleftrightarrow>
   st_uid d \<in> {0, euid} \<and> st_perm d AND 18 = 0"
  by (auto simp: validatePIDControlDirectoryMetadata_def)

lemma openDirectoryPath_cases:
  assumes "openDirectoryPath t euid path = (ev, r)"
  shows "opens ev = closes ev + (case r of Inl _ \<Rightarrow> {#} | Inr d \<Rightarrow> {#d#})"
    and "r = Inr d \<Longrightarrow> trustedChain t euid d \<and> set d \<subseteq> set (pathComponents path) \<and>
           (\<exists>sd. t_fstat t d = Inr sd \<and> validatePIDControlDirectoryMetadata euid (st_uid sd) (st_perm sd) = None)"
proof -
  obtain ev' w where w: "walkDirectories t euid [[]] [DirOpen []] (pathComponents path) = (ev', w)"
    by (metis surj_pair)
  have b: "opens ev' = closes ev' + (case w of Inl _ \<Rightarrow> {#} | Inr ds' \<Rightarrow> mset ds') \<and>
     (case w of Inl _ \<Rightarrow> True | Inr ds' \<Rightarrow> ds' \<noteq> [])"
    using walk_balance [OF w] by simp
  show "opens ev = closes ev + (case r of Inl _ \<Rightarrow> {#} | Inr d \<Rightarrow> {#d#})"
    using assms w b
    by (auto simp: openDirectoryPath_def union_assoc mset_butlast_last [symmetric] split: option.splits sum.splits)
  assume r: "r = Inr d"
  then obtain ds where ds: "w = Inr ds" "d = last ds" "validatePIDControlDirectory t euid d = None"
    using assms w by (auto simp: openDirectoryPath_def split: option.splits sum.splits)
  have "walkDirectories t euid (prefixes []) [DirOpen []] (pathComponents path) = (ev', Inr ds)"
    using w ds(1) by simp
  from walk_sound [OF this] obtain d' where "ds = prefixes d'" "trustedChain t euid d'"
    "set d' \<subseteq> set (pathComponents path)" by auto
  with ds show "trustedChain t euid d \<and> set d \<subseteq> set (pathComponents path) \<and>
      (\<exists>sd. t_fstat t d = Inr sd \<and> validatePIDControlDirectoryMetadata euid (st_uid sd) (st_perm sd) = None)"
    by (auto simp: validatePIDControlDirectory_def split: sum.splits)
qed

text \<open>
  C34: a pid file's directory is accepted only if no user other than root and the caller can put
  a different file in place anywhere on the way: every component is a directory and not a
  symbolic link, no untrusted user can replace it in its parent, and none can replace any entry
  of the accepted directory itself. Exactly one descriptor stays open on success, that of the
  accepted directory, and none after a failure.
\<close>

theorem trusted_directory:
  assumes "openDirectoryPath t euid path = (ev, r)"
  shows "(case r of Inl _ \<Rightarrow> opens ev = closes ev | Inr d \<Rightarrow> opens ev = closes ev + {#d#}) \<and>
    (\<forall>d u. r = Inr d \<and> u \<notin> {0, euid} \<longrightarrow>
      (\<forall>p n. prefix (p @ [n]) d \<longrightarrow>
         (\<exists>sp se sd. t_fstat t p = Inr sp \<and> t_lstat t (p @ [n]) = Inr se \<and> t_fstat t (p @ [n]) = Inr sd \<and>
            \<not> mayReplace u sp (st_uid se) \<and> st_kind se \<noteq> KSymlink \<and> st_kind sd = KDirectory)) \<and>
      (\<exists>sd. t_fstat t d = Inr sd \<and> (\<forall>entryUID. \<not> mayReplace u sd entryUID)))"
proof (intro conjI allI impI)
  show "case r of Inl _ \<Rightarrow> opens ev = closes ev | Inr d \<Rightarrow> opens ev = closes ev + {#d#}"
    using openDirectoryPath_cases(1) [OF assms] by (cases r) auto
next
  fix d u p n
  assume r: "r = Inr d \<and> u \<notin> {0, euid}" and p: "prefix (p @ [n]) d"
  then have "trustedStep t euid p n"
    using openDirectoryPath_cases(2) [OF assms] by (auto simp: trustedChain_def)
  then show "\<exists>sp se sd. t_fstat t p = Inr sp \<and> t_lstat t (p @ [n]) = Inr se \<and> t_fstat t (p @ [n]) = Inr sd \<and>
      \<not> mayReplace u sp (st_uid se) \<and> st_kind se \<noteq> KSymlink \<and> st_kind sd = KDirectory"
    using r unfolding trustedStep_def entry_policy mayReplace_def by auto
next
  fix d u
  assume r: "r = Inr d \<and> u \<notin> {0, euid}"
  then show "\<exists>sd. t_fstat t d = Inr sd \<and> (\<forall>entryUID. \<not> mayReplace u sd entryUID)"
    using openDirectoryPath_cases(2) [OF assms] unfolding directory_policy mayReplace_def by auto
qed

text \<open>A tree with a sticky world-writable directory that holds a private one.\<close>

definition sampleStat :: "string list \<Rightarrow> string + stat" where
  "sampleStat p =
     (if p = [] then Inr \<lparr>st_uid = 0, st_perm = 493, st_sticky = False, st_kind = KDirectory\<rparr>
      else if p = [''tmp''] then Inr \<lparr>st_uid = 0, st_perm = 511, st_sticky = True, st_kind = KDirectory\<rparr>
      else if p = [''tmp'', ''run''] then Inr \<lparr>st_uid = 1000, st_perm = 448, st_sticky = False, st_kind = KDirectory\<rparr>
      else Inl ''ENOENT'')"

definition sampleTree :: tree where
  "sampleTree = \<lparr>t_lstat = sampleStat, t_openErr = (\<lambda>_. None), t_fstat = sampleStat\<rparr>"

lemma sample_walk:
  "openDirectoryPath sampleTree 1000 ''/tmp/../tmp/./run/'' =
     ([DirOpen [], DirOpen [''tmp''], DirClose [''tmp''], DirOpen [''tmp''], DirOpen [''tmp'', ''run''],
       DirClose [], DirClose [''tmp'']], Inr [''tmp'', ''run''])"
  by code_simp

theorem trusted_directory_witness:
  "\<exists>ev. openDirectoryPath sampleTree 1000 ''/tmp/../tmp/./run/'' = (ev, Inr [''tmp'', ''run'']) \<and>
     (\<exists>sd. t_fstat sampleTree [''tmp'', ''run''] = Inr sd \<and> (\<forall>entryUID. \<not> mayReplace 1001 sd entryUID)) \<and>
     fst (openDirectoryPath sampleTree 1001 ''/tmp/run'') \<noteq> []"
proof -
  have "(1001 :: uid) \<notin> {0, 1000}" by simp
  with trusted_directory [OF sample_walk] have "\<exists>sd. t_fstat sampleTree [''tmp'', ''run''] = Inr sd \<and> (\<forall>entryUID. \<not> mayReplace 1001 sd entryUID)"
    by blast
  moreover have "fst (openDirectoryPath sampleTree 1001 ''/tmp/run'') \<noteq> []" by code_simp
  ultimately show ?thesis using sample_walk by blast
qed

subsection \<open>The two walkers agree\<close>

text \<open>
  A tree that nobody changes while it is walked, and whose directories can be opened for
  searching.
\<close>

definition staticTree :: "tree \<Rightarrow> bool" where
  "staticTree t \<longleftrightarrow> t_openErr t [] = None \<and>
     (\<forall>p. t_fstat t p = t_lstat t p) \<and>
     (\<forall>p st. t_lstat t p = Inr st \<and> st_kind st = KDirectory \<longrightarrow> t_openErr t p = None)"

lemma walk_resolve:
  assumes "staticTree t"
  shows "snd (walkDirectories t euid (prefixes d) ev cs) = Inr ds \<longleftrightarrow>
    (\<exists>d'. resolveComponents t euid d cs = Inr d' \<and> ds = prefixes d')"
proof (induction cs arbitrary: d ev)
  case (Cons n cs)
  show ?case
  proof (cases "n = ''..''")
    case True
    then show ?thesis
      using Cons.IH [of "butlast d"] Cons.IH [of d]
      by (cases "d = []") (simp_all add: butlast_prefixes length_prefixes_gt)
  next
    case False
    have s: "t_fstat t p = t_lstat t p" "t_lstat t p = Inr st \<Longrightarrow> st_kind st = KDirectory \<Longrightarrow> t_openErr t p = None"
      for p st using assms by (auto simp: staticTree_def)
    show ?thesis
      using False Cons.IH [of "d @ [n]"] s(2) [of "d @ [n]"]
      by (auto simp: Let_def s(1) validatePIDControlPathEntry_def prefixes_snoc
          split: sum.splits option.splits)
  qed
qed auto

lemma prefixes_inj: "prefixes a = prefixes b \<Longrightarrow> a = b"
  by (metis prefixes_snoc_last(1))

lemma walkers_agree_directory:
  assumes "staticTree t"
  shows "snd (openDirectoryPath t euid path) = Inr d \<longleftrightarrow> snd (openRootAnchoredDirectoryPath t euid path) = Inr d"
proof -
  have s: "t_fstat t p = t_lstat t p" "t_openErr t [] = None" for p using assms by (auto simp: staticTree_def)
  obtain ev w where w: "walkDirectories t euid [[]] [DirOpen []] (pathComponents path) = (ev, w)"
    by (metis surj_pair)
  have e: "w = Inr ds \<longleftrightarrow> (\<exists>d'. resolveComponents t euid [] (pathComponents path) = Inr d' \<and> ds = prefixes d')" for ds
    using walk_resolve [OF assms, of euid "[]" "[DirOpen []]" "pathComponents path" ds] w by simp
  show ?thesis
  proof (cases "resolveComponents t euid [] (pathComponents path)")
    case (Inl err)
    with e have "\<nexists>ds. w = Inr ds" by simp
    then show ?thesis using Inl w by (cases w) (simp_all add: openDirectoryPath_def openRootAnchoredDirectoryPath_def s)
  next
    case (Inr d')
    with e have "w = Inr (prefixes d')" by simp
    then show ?thesis using Inr w
      by (simp add: openDirectoryPath_def openRootAnchoredDirectoryPath_def s validatePIDControlDirectory_def
          split: sum.splits option.splits)
  qed
qed

lemma cleanElems_proper:
  "\<forall>n \<in> set ns. n \<noteq> [] \<and> n \<noteq> ''.'' \<and> n \<noteq> ''..'' \<Longrightarrow> cleanElems rooted st ns = rev st @ ns"
  by (induction ns arbitrary: st) auto

definition properName :: "string \<Rightarrow> bool" where
  "properName n \<longleftrightarrow> n \<noteq> [] \<and> n \<noteq> ''.'' \<and> n \<noteq> ''..'' \<and> CHR ''/'' \<notin> set n"

lemma filepathClean_proper:
  assumes "ns \<noteq> []" and "\<forall>n \<in> set ns. properName n"
  shows "filepathClean (goJoin (CHR ''/'') ns) = goJoin (CHR ''/'') ns"
proof -
  have "goSplit (CHR ''/'') (goJoin (CHR ''/'') ns) = ns"
    using assms by (intro goSplit_goJoin) (auto simp: properName_def)
  moreover obtain n ns' where ns: "ns = n # ns'" using assms(1) by (cases ns) auto
  moreover have "\<not> isAbsPath (goJoin (CHR ''/'') ns)"
    using assms(2) unfolding ns by (cases n; cases ns') (auto simp: properName_def isAbsPath_def hasPrefix_iff)
  moreover have "goJoin (CHR ''/'') ns \<noteq> []"
    using assms(2) unfolding ns by (cases n; cases ns') (auto simp: properName_def)
  ultimately show ?thesis
    using assms(2) by (simp add: filepathClean_def cleanElems_proper properName_def)
qed

lemma pathComponents_join:
  assumes "ns \<noteq> []" and "\<forall>n \<in> set ns. properName n"
  shows "pathComponents (goJoin (CHR ''/'') ns) = ns"
proof -
  have "goSplit (CHR ''/'') (goJoin (CHR ''/'') ns) = ns"
    using assms by (intro goSplit_goJoin) (auto simp: properName_def)
  with assms show ?thesis by (auto simp: pathComponents_def properName_def intro!: filter_True)
qed

lemma goJoin_snoc: "ns \<noteq> [] \<Longrightarrow> goJoin c (ns @ [n]) = goJoin c ns @ c # n"
  by (induction c ns rule: goJoin.induct) auto

lemma filepathJoin_proper:
  assumes "\<forall>n \<in> set ns. properName n" and "properName n"
  shows "pathComponents (filepathJoin (goJoin (CHR ''/'') ns) n) = ns @ [n]"
proof (cases "ns = []")
  case True
  with assms(2) show ?thesis
    using filepathClean_proper [of "[n]"] pathComponents_join [of "[n]"]
    by (simp add: filepathJoin_def properName_def)
next
  case False
  then have "goJoin (CHR ''/'') ns \<noteq> []"
    using assms(1) by (cases ns; cases "tl ns") (auto simp: properName_def)
  then have "filepathJoin (goJoin (CHR ''/'') ns) n = goJoin (CHR ''/'') (ns @ [n])"
    using assms False filepathClean_proper [of "ns @ [n]"] by (simp add: filepathJoin_def goJoin_snoc)
  then show ?thesis using assms pathComponents_join [of "ns @ [n]"] by simp
qed

lemma resolve_proper:
  "resolveComponents t euid d cs = Inr d' \<Longrightarrow> ''..'' \<notin> set d \<Longrightarrow> set d' \<subseteq> set d \<union> set cs \<and> ''..'' \<notin> set d'"
proof (induction cs arbitrary: d)
  case (Cons n cs)
  show ?case
  proof (cases "n = ''..''")
    case True
    then have "resolveComponents t euid (if d \<noteq> [] then butlast d else d) cs = Inr d'"
      using Cons.prems(1) by simp
    moreover have "set (if d \<noteq> [] then butlast d else d) \<subseteq> set d" by (auto dest: in_set_butlastD)
    ultimately show ?thesis
      using Cons.IH [of "if d \<noteq> [] then butlast d else d"] Cons.prems(2) by auto
  next
    case False
    with Cons.prems have "resolveComponents t euid (d @ [n]) cs = Inr d'"
      by (auto split: sum.splits option.splits if_splits)
    from Cons.IH [OF this] False Cons.prems(2) show ?thesis by auto
  qed
qed auto

lemma pathComponents_parts: "n \<in> set (pathComponents p) \<Longrightarrow> n \<noteq> [] \<and> n \<noteq> ''.'' \<and> CHR ''/'' \<notin> set n"
  by (auto simp: pathComponents_def dest: goSplit_parts_no_sep)

lemma rootAnchored_proper:
  "snd (openRootAnchoredDirectoryPath t euid path) = Inr d \<Longrightarrow> \<forall>n \<in> set d. properName n"
proof -
  assume "snd (openRootAnchoredDirectoryPath t euid path) = Inr d"
  then have "resolveComponents t euid [] (pathComponents path) = Inr d"
    by (auto simp: openRootAnchoredDirectoryPath_def split: option.splits sum.splits)
  from resolve_proper [OF this] show ?thesis
    using pathComponents_parts [of _ path] unfolding properName_def by fastforce
qed

lemma walkers_same:
  assumes "staticTree t" and "properName (snd (filepathSplit absPath))" and "isAbsPath absPath"
  shows "(isOk (snd (prepareRunningPIDPath True t euid wd absPath)) \<longleftrightarrow>
          isOk (snd (prepareRunningPIDPath False t euid wd absPath))) \<and>
    (snd (prepareRunningPIDPath True t euid wd absPath) = Inr p \<and>
     snd (prepareRunningPIDPath False t euid wd absPath) = Inr q \<longrightarrow>
       pathComponents (rp_name p) = rp_parent q @ [rp_name q] \<and> rp_parent p = [])"
proof -
  obtain par name where s: "filepathSplit absPath = (par, name)" by (metis surj_pair)
  obtain e1 r1 e2 r2 where o: "openRootAnchoredDirectoryPath t euid par = (e1, r1)"
    "openDirectoryPath t euid par = (e2, r2)" by (metis surj_pair)
  have eq: "r2 = Inr d \<longleftrightarrow> r1 = Inr d" for d using walkers_agree_directory [OF assms(1), of euid par d] o by simp
  have n: "properName name" using assms(2) s by simp
  show ?thesis
  proof (cases r1)
    case (Inl e)
    with eq have "\<nexists>d. r2 = Inr d" by simp
    then show ?thesis using Inl s o assms(3) by (cases r2) (simp_all add: prepareRunningPIDPath_def)
  next
    case (Inr d)
    with eq have "r2 = Inr d" by simp
    moreover have "\<forall>n \<in> set d. properName n" using rootAnchored_proper [of t euid par d] o Inr by simp
    ultimately show ?thesis
      using Inr s o assms(3) n by (auto simp: prepareRunningPIDPath_def filepathJoin_proper)
  qed
qed

text \<open>
  So the choice a build makes is no matter of trust: every Unix build accepts the same pid files, and
  only a build that cannot open a directory without the right to read it resolves names from the root.
\<close>

lemma builds_agree:
  assumes "staticTree t" and "properName (snd (filepathSplit absPath))" and "isAbsPath absPath"
  shows "isOk (snd (prepareRunningPIDPath (useRootAnchoredDirectoryPath b) t euid wd absPath)) \<longleftrightarrow>
         isOk (snd (prepareRunningPIDPath (useRootAnchoredDirectoryPath b') t euid wd absPath))"
    and "useRootAnchoredDirectoryPath b \<longleftrightarrow> directoryAccessFlag b = AccessReadOnly"
  using walkers_same [OF assms] by (cases b; cases b'; simp) (cases b; simp)

text \<open>
  C35: on a tree that does not change, the walker for systems without search-only directory
  descriptors accepts exactly the pid files that the descriptor-based walker accepts, and both
  then open the same file.
\<close>

theorem walkers_agree:
  assumes "staticTree t" and "properName (snd (filepathSplit absPath))" and "isAbsPath absPath"
  shows "(isOk (snd (prepareRunningPIDPath True t euid wd absPath)) \<longleftrightarrow>
          isOk (snd (prepareRunningPIDPath False t euid wd absPath))) \<and>
    (snd (prepareRunningPIDPath True t euid wd absPath) = Inr p \<and>
     snd (prepareRunningPIDPath False t euid wd absPath) = Inr q \<longrightarrow>
       pathComponents (rp_name p) = rp_parent q @ [rp_name q] \<and> rp_parent p = [])"
  by (rule walkers_same [OF assms])

theorem walkers_agree_witness:
  "\<exists>p q. snd (prepareRunningPIDPath True sampleTree 1000 (Inr []) ''/tmp/../tmp/run/app.pid'') = Inr p \<and>
     snd (prepareRunningPIDPath False sampleTree 1000 (Inr []) ''/tmp/../tmp/run/app.pid'') = Inr q \<and>
     pathComponents (rp_name p) = rp_parent q @ [rp_name q] \<and> rp_parent q = [''tmp'', ''run'']"
proof -
  let ?f = "''/tmp/../tmp/run/app.pid''"
  let ?q = "\<lparr>rp_path = ?f, rp_parent = [''tmp'', ''run''], rp_name = ''app.pid''\<rparr>"
  have st: "staticTree sampleTree" by (simp add: staticTree_def sampleTree_def)
  have pn: "properName (snd (filepathSplit ?f))" and ab: "isAbsPath ?f" by code_simp+
  have q: "snd (prepareRunningPIDPath False sampleTree 1000 (Inr []) ?f) = Inr ?q" by code_simp
  from walkers_agree [OF st pn ab, of 1000 "Inr []"] q obtain p
    where "snd (prepareRunningPIDPath True sampleTree 1000 (Inr []) ?f) = Inr p"
    by (auto simp: isOk_iff)
  with walkers_agree [OF st pn ab, of 1000 "Inr []" p ?q] q show ?thesis by auto
qed

end
