(* ===== verification/PidFile.thy ===== *)
theory PidFile
  imports PidPath StatusFile
begin

text \<open>
  Reading a live pid file (\<open>internal/statefile/pidfile.go\<close>, \<open>pidfile_unix.go\<close>,
  \<open>pidfile_lock_linux.go\<close>, \<open>pidfile_lock_unix.go\<close>): the owner of the kernel's lock, the
  validated reference to a running supervisor that the control commands use, and the test of
  whether it has exited.
\<close>

definition pidTextSize :: int where
  "pidTextSize = 64"

subsection \<open>The kernel's table of locks\<close>

text \<open>\<open>strings.Fields\<close>: the text up to the next white space, and what follows it.\<close>

fun cutField :: "string \<Rightarrow> string \<times> string" where
  "cutField [] = ([], [])"
| "cutField (c # cs) =
     (if cutAny spaceSeqs (c # cs) \<noteq> None then ([], c # cs)
      else (case cutField cs of (f, r) \<Rightarrow> (c # f, r)))"

lemma cutField_length: "length (snd (cutField s)) \<le> length s"
  by (induction s) (auto split: prod.splits)

lemma stripSeqs_length: "length (stripSeqs ps s) \<le> length s"
  by (metis stripSeqs_suffix length_append le_add2)

function goFields :: "string \<Rightarrow> string list" where
  "goFields s =
     (let t = stripSeqs spaceSeqs s in
      if fst (cutField t) = [] then []
      else fst (cutField t) # goFields (snd (cutField t)))"
  by pat_completeness auto

lemma cutField_shorter: "fst (cutField t) \<noteq> [] \<Longrightarrow> length (snd (cutField t)) < length t"
  using cutField_length by (cases t) (auto split: prod.splits if_splits simp: less_Suc_eq_le, metis snd_conv)

termination goFields
proof (relation "measure length")
  fix s t
  assume "t = stripSeqs spaceSeqs s" and "fst (cutField t) \<noteq> []"
  then show "(snd (cutField t), s) \<in> measure length"
    using cutField_shorter [of t] stripSeqs_length [of spaceSeqs s] by simp
qed simp

text \<open>The identity of a file: device numbers and inode.\<close>

record fileID =
  id_major :: int
  id_minor :: int
  id_ino :: int

text \<open>
  Whether the system is Linux, and what it then answers while the table is read, by lines. Other
  Unix systems have no such table.
\<close>

record procLocks =
  pl_linux :: bool
  pl_statErr :: "string option"
  pl_openErr :: "string option"
  pl_lines :: "string list"
  pl_scanErr :: "string option"

datatype lock_error =
    ErrLockSys string
  | ErrLockNoOwner
  | ErrLockOwnerPID string

text \<open>
  One line: \<open>None\<close> when it is skipped, otherwise the text of the owner's pid.
\<close>

definition flockLineOwner :: "fileID \<Rightarrow> string \<Rightarrow> string option" where
  "flockLineOwner f line =
     (let fields = goFields line in
      if length fields < 8 \<or> fields ! 1 \<noteq> ''FLOCK'' \<or> fields ! 3 \<noteq> ''WRITE'' then None
      else
        (case goSplit (CHR '':'') (fields ! 5) of
           [a, b, c] \<Rightarrow>
             if parseUint 16 64 a = Inr (id_major f) \<and> parseUint 16 64 b = Inr (id_minor f) \<and>
                parseUint 10 64 c = Inr (id_ino f)
             then Some (fields ! 4) else None
         | _ \<Rightarrow> None))"

fun scanLocks :: "fileID \<Rightarrow> string option \<Rightarrow> string list \<Rightarrow> lock_error + pid" where
  "scanLocks f scanErr [] = (case scanErr of Some e \<Rightarrow> Inl (ErrLockSys e) | None \<Rightarrow> Inr 0)"
| "scanLocks f scanErr (line # rest) =
     (case flockLineOwner f line of
        None \<Rightarrow> scanLocks f scanErr rest
      | Some owner \<Rightarrow>
          (case atoi owner of
             Inl _ \<Rightarrow> Inl (ErrLockOwnerPID owner)
           | Inr p \<Rightarrow> if p \<le> 0 then Inl (ErrLockOwnerPID owner) else Inr p))"

definition linuxFlockOwnerAt :: "procLocks \<Rightarrow> fileID \<Rightarrow> lock_error + pid" where
  "linuxFlockOwnerAt l f =
     (case pl_statErr l of Some e \<Rightarrow> Inl (ErrLockSys e) | None \<Rightarrow>
      case pl_openErr l of Some e \<Rightarrow> Inl (ErrLockSys e) | None \<Rightarrow>
      scanLocks f (pl_scanErr l) (pl_lines l))"

text \<open>The answer of \<open>fcntl(F_GETLK)\<close>: an error, no conflicting lock, or a lock and its owner.\<close>

datatype getlk = GetlkErr string | GetlkUnlocked | GetlkHeld pid

definition lockOwnerPID_linux :: "getlk \<Rightarrow> procLocks \<Rightarrow> fileID \<Rightarrow> lock_error + pid" where
  "lockOwnerPID_linux g l f =
     (case g of
        GetlkErr e \<Rightarrow> Inl (ErrLockSys e)
      | GetlkHeld p \<Rightarrow> if p \<le> 0 then Inl ErrLockNoOwner else Inr p
      | GetlkUnlocked \<Rightarrow> linuxFlockOwnerAt l f)"

definition lockOwnerPID_other :: "getlk \<Rightarrow> lock_error + pid" where
  "lockOwnerPID_other g =
     (case g of
        GetlkErr e \<Rightarrow> Inl (ErrLockSys e)
      | GetlkUnlocked \<Rightarrow> Inr 0
      | GetlkHeld p \<Rightarrow> if p \<le> 0 then Inl ErrLockNoOwner else Inr p)"

text \<open>The function that the build for the system selects.\<close>

definition lockOwnerPID :: "getlk \<Rightarrow> procLocks \<Rightarrow> fileID \<Rightarrow> lock_error + pid" where
  "lockOwnerPID g l f = (if pl_linux l then lockOwnerPID_linux g l f else lockOwnerPID_other g)"

lemmas lockOwnerPID_defs = lockOwnerPID_def lockOwnerPID_linux_def lockOwnerPID_other_def

lemma lockOwnerPID_simps:
  "0 < p \<Longrightarrow> lockOwnerPID (GetlkHeld p) l f = Inr p"
  "lockOwnerPID GetlkUnlocked l f = (if pl_linux l then linuxFlockOwnerAt l f else Inr 0)"
  by (simp_all add: lockOwnerPID_defs)

text \<open>The answer of a non-blocking shared \<open>flock\<close>: \<open>TryBusy\<close> is EWOULDBLOCK and \<open>TryAccess\<close> EACCES.\<close>

datatype tryLock = TryLocked | TryBusy | TryAccess | TryErr string

definition lockNoLongerOwnedByPID ::
  "getlk \<Rightarrow> procLocks \<Rightarrow> tryLock \<Rightarrow> fileID \<Rightarrow> pid \<Rightarrow> lock_error + bool" where
  "lockNoLongerOwnedByPID g l tlk f p =
     (case lockOwnerPID g l f of
        Inl e \<Rightarrow> Inl e
      | Inr owner \<Rightarrow>
          if owner > 0 then Inr (owner \<noteq> p)
          else (case tlk of
                  TryLocked \<Rightarrow> Inr True
                | TryBusy \<Rightarrow> Inr False
                | TryAccess \<Rightarrow> Inr False
                | TryErr e \<Rightarrow> Inl (ErrLockSys e)))"

subsection \<open>A running supervisor\<close>

datatype pid_error =
    ErrPidPath pidpath_error
  | ErrPidOpen string
  | ErrPidStat string
  | ErrPidNotRegular
  | ErrPidLinks nat
  | ErrPidRead string
  | ErrPidTooLarge
  | ErrPidInvalid
  | ErrPidInspect lock_error
  | ErrPidMismatch pid pid
  | ErrPidUnverified
  | ErrPidReplaced
  | ErrPidReparse

text \<open>One \<open>openat\<close> of the pid file and the \<open>fstat\<close> of the result.\<close>

record openAnswer =
  oa_openErr :: "string option"
  oa_statErr :: "string option"
  oa_regular :: bool
  oa_nlink :: nat
  oa_id :: fileID

text \<open>
  The descriptors of an inspection: the directories on the way, the file that the reference
  keeps, and the second handle through which the path is checked again.
\<close>

datatype pidHandle = ControlFile | PathFile

datatype pidEvent =
    PeDir dirEvent
  | PeOpen pidHandle
  | PeClose pidHandle
  | PeCloseParent

definition runningPIDPath_open :: "pidHandle \<Rightarrow> openAnswer \<Rightarrow> pidEvent list \<times> (pid_error + fileID)" where
  "runningPIDPath_open h a =
     (case oa_openErr a of Some e \<Rightarrow> ([], Inl (ErrPidOpen e)) | None \<Rightarrow>
      case oa_statErr a of Some e \<Rightarrow> ([PeOpen h, PeClose h], Inl (ErrPidStat e)) | None \<Rightarrow>
      if \<not> oa_regular a then ([PeOpen h, PeClose h], Inl ErrPidNotRegular)
      else if oa_nlink a \<noteq> 1 then ([PeOpen h, PeClose h], Inl (ErrPidLinks (oa_nlink a)))
      else ([PeOpen h], Inr (oa_id a)))"

text \<open>What the system answers to \<open>OpenRunningPID\<close>, in the order of the calls.\<close>

record pidAnswers =
  pa_open :: openAnswer
  pa_data :: string
  pa_readErr :: "string option"
  pa_getlk :: getlk
  pa_locks :: procLocks
  pa_statErr :: "string option"
  pa_reopen :: openAnswer
  pa_restatErr :: "string option"

definition runningPIDPath_validate :: "pidAnswers \<Rightarrow> fileID \<Rightarrow> pidEvent list \<times> pid_error option" where
  "runningPIDPath_validate a f =
     (case pa_statErr a of Some e \<Rightarrow> ([], Some (ErrPidStat e)) | None \<Rightarrow>
      case runningPIDPath_open PathFile (pa_reopen a) of
        (ev, Inl e) \<Rightarrow> (ev, Some e)
      | (ev, Inr pathFile) \<Rightarrow>
          (case pa_restatErr a of Some e \<Rightarrow> (ev @ [PeClose PathFile], Some (ErrPidStat e)) | None \<Rightarrow>
           if f \<noteq> pathFile then (ev @ [PeClose PathFile], Some ErrPidReplaced)
           else (ev @ [PeClose PathFile], None)))"

record RunningPID =
  run_file :: fileID
  run_pid :: pid

definition closeWithError :: "pidEvent list \<Rightarrow> pid_error \<Rightarrow> pidEvent list \<times> (pid_error + 'a)" where
  "closeWithError ev err = (ev @ [PeClose ControlFile], Inl err)"

text \<open>The part of \<open>OpenRunningPID\<close> between opening the file and returning it.\<close>

definition checkRunningPID :: "pidAnswers \<Rightarrow> fileID \<Rightarrow> pidEvent list \<times> (pid_error + RunningPID)" where
  "checkRunningPID a f =
     (case pa_readErr a of Some e \<Rightarrow> closeWithError [] (ErrPidRead e) | None \<Rightarrow>
      let data = limitRead (pidTextSize + 1) (pa_data a) in
      if int (length data) > pidTextSize then closeWithError [] ErrPidTooLarge
      else
      case parseInt 32 (trimSpace data) of Inl _ \<Rightarrow> closeWithError [] ErrPidInvalid | Inr p \<Rightarrow>
      if p \<le> 0 then closeWithError [] ErrPidInvalid
      else
      case lockOwnerPID (pa_getlk a) (pa_locks a) f of Inl e \<Rightarrow> closeWithError [] (ErrPidInspect e) | Inr owner \<Rightarrow>
      if owner > 0 then
        (if owner \<noteq> p then closeWithError [] (ErrPidMismatch p owner)
         else (case runningPIDPath_validate a f of
                 (ev, Some e) \<Rightarrow> closeWithError ev e
               | (ev, None) \<Rightarrow> (ev, Inr \<lparr>run_file = f, run_pid = p\<rparr>)))
      else closeWithError [] ErrPidUnverified)"

definition OpenRunningPID ::
  "bool \<Rightarrow> tree \<Rightarrow> uid \<Rightarrow> string + string \<Rightarrow> string \<Rightarrow> pidAnswers \<Rightarrow> pidEvent list \<times> (pid_error + RunningPID)" where
  "OpenRunningPID useRootAnchored t euid getwd path a =
     (case prepareRunningPIDPath useRootAnchored t euid getwd path of
        (ev, Inl e) \<Rightarrow> (map PeDir ev, Inl (ErrPidPath e))
      | (ev, Inr prepared) \<Rightarrow>
          (case runningPIDPath_open ControlFile (pa_open a) of
             (ev', Inl e) \<Rightarrow> (map PeDir ev @ ev' @ [PeCloseParent], Inl e)
           | (ev', Inr f) \<Rightarrow>
               (case checkRunningPID a f of
                  (ev'', r) \<Rightarrow> (map PeDir ev @ ev' @ ev'' @ [PeCloseParent], r))))"

definition PID :: "RunningPID \<Rightarrow> pid" where
  "PID r = run_pid r"

definition Exited :: "getlk \<Rightarrow> procLocks \<Rightarrow> tryLock \<Rightarrow> RunningPID \<Rightarrow> lock_error + bool" where
  "Exited g l tlk r = lockNoLongerOwnedByPID g l tlk (run_file r) (run_pid r)"

subsection \<open>What a validated reference means\<close>

lemma lockOwnerPID_pos: "lockOwnerPID g l f = Inr p \<Longrightarrow> p \<noteq> 0 \<Longrightarrow> 0 < p"
proof -
  have "scanLocks f e ls = Inr p \<Longrightarrow> 0 \<le> p" for e ls
    by (induction ls) (auto split: option.splits sum.splits if_splits)
  then show "lockOwnerPID g l f = Inr p \<Longrightarrow> p \<noteq> 0 \<Longrightarrow> 0 < p"
    by (force simp: lockOwnerPID_defs linuxFlockOwnerAt_def split: getlk.splits option.splits if_splits)
qed

definition soundOpen :: "openAnswer \<Rightarrow> bool" where
  "soundOpen a \<longleftrightarrow> oa_openErr a = None \<and> oa_statErr a = None \<and> oa_regular a \<and> oa_nlink a = 1"

lemma open_Inr: "snd (runningPIDPath_open h a) = Inr f \<longleftrightarrow> soundOpen a \<and> f = oa_id a"
  by (auto simp: runningPIDPath_open_def soundOpen_def split: option.splits)

lemma checkRunningPID_Inr:
  "snd (checkRunningPID a f) = Inr r \<longleftrightarrow>
     pa_readErr a = None \<and> int (length (pa_data a)) \<le> pidTextSize \<and>
     parseInt 32 (trimSpace (pa_data a)) = Inr (run_pid r) \<and> 0 < run_pid r \<and>
     lockOwnerPID (pa_getlk a) (pa_locks a) f = Inr (run_pid r) \<and>
     pa_statErr a = None \<and> soundOpen (pa_reopen a) \<and> oa_id (pa_reopen a) = f \<and> pa_restatErr a = None \<and>
     run_file r = f"
proof -
  let ?d = "limitRead (pidTextSize + 1) (pa_data a)"
  have len: "\<not> int (length ?d) > pidTextSize \<longleftrightarrow> int (length (pa_data a)) \<le> pidTextSize"
    by (simp add: limitRead_take pidTextSize_def min_def not_less)
  have d: "int (length (pa_data a)) \<le> pidTextSize \<Longrightarrow> ?d = pa_data a" by (simp add: limitRead_all)
  obtain ev o' where o: "runningPIDPath_open PathFile (pa_reopen a) = (ev, o')" by (metis surj_pair)
  have v: "snd (runningPIDPath_validate a f) = None \<longleftrightarrow>
      pa_statErr a = None \<and> soundOpen (pa_reopen a) \<and> oa_id (pa_reopen a) = f \<and> pa_restatErr a = None"
    using open_Inr [of PathFile "pa_reopen a", unfolded o]
    by (auto simp: runningPIDPath_validate_def o split: option.splits sum.splits)
  obtain w e where w: "runningPIDPath_validate a f = (w, e)" by (metis surj_pair)
  show ?thesis
  proof (cases "int (length (pa_data a)) \<le> pidTextSize")
    case True
    with len have "\<not> int (length ?d) > pidTextSize" by blast
    with True v [unfolded w] show ?thesis
      by (cases r) (auto simp: checkRunningPID_def closeWithError_def Let_def d w split: option.splits sum.splits)
  next
    case False
    with len have "int (length ?d) > pidTextSize" by blast
    with False show ?thesis by (auto simp: checkRunningPID_def closeWithError_def Let_def split: option.splits)
  qed
qed

text \<open>The events on the two handles of the pid file, in order.\<close>

definition fileEvents :: "pidEvent list \<Rightarrow> pidEvent list" where
  "fileEvents ev = filter (\<lambda>e. case e of PeOpen _ \<Rightarrow> True | PeClose _ \<Rightarrow> True | _ \<Rightarrow> False) ev"

definition eventBalance :: "pidEvent list \<Rightarrow> int" where
  "eventBalance ev =
     sum_list (map (\<lambda>e. case e of PeDir (DirOpen _) \<Rightarrow> 1 | PeDir (DirClose _) \<Rightarrow> -1
                            | PeOpen _ \<Rightarrow> 1 | PeClose _ \<Rightarrow> -1 | PeCloseParent \<Rightarrow> -1) ev)"

lemma fileEvents_simps [simp]:
  "fileEvents (a @ b) = fileEvents a @ fileEvents b" "fileEvents [] = []"
  "fileEvents (map PeDir ds) = []" "fileEvents (PeCloseParent # b) = fileEvents b"
  "fileEvents (PeOpen h # b) = PeOpen h # fileEvents b" "fileEvents (PeClose h # b) = PeClose h # fileEvents b"
  by (simp_all add: fileEvents_def)

lemma eventBalance_simps [simp]:
  "eventBalance (a @ b) = eventBalance a + eventBalance b"
  "eventBalance [] = 0" "eventBalance (PeOpen h # b) = 1 + eventBalance b"
  "eventBalance (PeClose h # b) = eventBalance b - 1" "eventBalance (PeCloseParent # b) = eventBalance b - 1"
  by (simp_all add: eventBalance_def)

text \<open>What the three steps do with their handles.\<close>

lemma open_events:
  "fst (runningPIDPath_open h a) \<in> (if isOk (snd (runningPIDPath_open h a)) then {[PeOpen h]} else {[], [PeOpen h, PeClose h]})"
  by (simp add: runningPIDPath_open_def split: option.splits)

lemma validate_events:
  "fst (runningPIDPath_validate a f) \<in>
     (if snd (runningPIDPath_validate a f) = None then {[PeOpen PathFile, PeClose PathFile]}
      else {[], [PeOpen PathFile, PeClose PathFile]})"
  using open_events [of PathFile "pa_reopen a"]
  by (auto simp: runningPIDPath_validate_def split: option.splits prod.splits sum.splits if_splits)

lemma check_events:
  "fst (checkRunningPID a f) \<in>
     (if isOk (snd (checkRunningPID a f)) then {[PeOpen PathFile, PeClose PathFile]}
      else {[PeClose ControlFile], [PeOpen PathFile, PeClose PathFile, PeClose ControlFile]})"
  using validate_events [of a f]
  by (auto simp: checkRunningPID_def closeWithError_def Let_def split: option.splits prod.splits sum.splits if_splits)

lemma eventBalance_dirs: "eventBalance (map PeDir ev) = int (size (opens ev)) - int (size (closes ev))"
  by (induction ev) (auto simp: eventBalance_def split: dirEvent.splits)

lemma prepare_balance:
  assumes "prepareRunningPIDPath ra t euid getwd path = (ev, r)"
  shows "eventBalance (map PeDir ev) = (if isOk r then 1 else 0)"
proof -
  have r: "eventBalance (map PeDir (fst (openRootAnchoredDirectoryPath t euid p))) =
      (if isOk (snd (openRootAnchoredDirectoryPath t euid p)) then 1 else 0)" for p
    by (auto simp: eventBalance_dirs openRootAnchoredDirectoryPath_def split: option.splits sum.splits)
  have d: "eventBalance (map PeDir (fst (openDirectoryPath t euid p))) =
      (if isOk (snd (openDirectoryPath t euid p)) then 1 else 0)" for p
  proof -
    obtain e x where o: "openDirectoryPath t euid p = (e, x)" by (metis surj_pair)
    from openDirectoryPath_cases(1) [OF o] show ?thesis
      by (cases x) (simp_all add: o eventBalance_dirs)
  qed
  show ?thesis
  proof (cases "if isAbsPath path then Inr path
      else (case getwd of Inl e \<Rightarrow> Inl (ErrPathSys e) | Inr wd \<Rightarrow> Inr (wd @ ''/'' @ path))")
    case (Inl e)
    with assms have "ev = []" "r = Inl e" by (simp_all add: prepareRunningPIDPath_def)
    then show ?thesis by simp
  next
    case (Inr absPath)
    obtain par name where s: "filepathSplit absPath = (par, name)" by (metis surj_pair)
    obtain e1 r1 where o1: "openRootAnchoredDirectoryPath t euid par = (e1, r1)" by (metis surj_pair)
    obtain e2 r2 where o2: "openDirectoryPath t euid par = (e2, r2)" by (metis surj_pair)
    show ?thesis
      using assms Inr s o1 o2 r [of par] d [of par]
      by (cases ra; cases r1; cases r2) (simp_all add: prepareRunningPIDPath_def, (elim conjE, hypsubst, simp)+)
  qed
qed

lemma OpenRunningPID_spec:
  "snd (OpenRunningPID ra t euid getwd path a) = Inr r \<longleftrightarrow>
      isOk (snd (prepareRunningPIDPath ra t euid getwd path)) \<and>
      soundOpen (pa_open a) \<and> pa_readErr a = None \<and> int (length (pa_data a)) \<le> pidTextSize \<and>
      parseInt 32 (trimSpace (pa_data a)) = Inr (PID r) \<and> 0 < PID r \<and>
      lockOwnerPID (pa_getlk a) (pa_locks a) (run_file r) = Inr (PID r) \<and>
      soundOpen (pa_reopen a) \<and> pa_statErr a = None \<and> pa_restatErr a = None \<and>
      run_file r = oa_id (pa_open a) \<and> run_file r = oa_id (pa_reopen a)"
proof -
  obtain ev pr where p: "prepareRunningPIDPath ra t euid getwd path = (ev, pr)" by (metis surj_pair)
  obtain ev' f where o: "runningPIDPath_open ControlFile (pa_open a) = (ev', f)" by (metis surj_pair)
  have f: "f = Inr x \<longleftrightarrow> soundOpen (pa_open a) \<and> x = oa_id (pa_open a)" for x
    using open_Inr [of ControlFile "pa_open a" x] by (simp add: o)
  have "snd (OpenRunningPID ra t euid getwd path a) = Inr r \<longleftrightarrow>
      isOk pr \<and> (\<exists>x. f = Inr x \<and> snd (checkRunningPID a x) = Inr r)"
    by (cases pr; cases f) (simp_all add: OpenRunningPID_def p o split: prod.splits)
  then show ?thesis unfolding checkRunningPID_Inr PID_def f by (auto simp: p)
qed

lemma OpenRunningPID_events:
  "fileEvents (fst (OpenRunningPID ra t euid getwd path a)) \<in>
     (if isOk (snd (OpenRunningPID ra t euid getwd path a))
      then {[PeOpen ControlFile, PeOpen PathFile, PeClose PathFile]}
      else {[], [PeOpen ControlFile, PeClose ControlFile],
            [PeOpen ControlFile, PeOpen PathFile, PeClose PathFile, PeClose ControlFile]}) \<and>
   eventBalance (fst (OpenRunningPID ra t euid getwd path a)) =
     (if isOk (snd (OpenRunningPID ra t euid getwd path a)) then 1 else 0)"
proof -
  obtain ev pr where p: "prepareRunningPIDPath ra t euid getwd path = (ev, pr)" by (metis surj_pair)
  obtain ev' f where o: "runningPIDPath_open ControlFile (pa_open a) = (ev', f)" by (metis surj_pair)
  note b = prepare_balance [OF p]
  note e = open_events [of ControlFile "pa_open a", unfolded o fst_conv snd_conv]
  show ?thesis
  proof (cases "isOk pr \<and> isOk f")
    case True
    then obtain x where x: "f = Inr x" by (auto simp: isOk_iff)
    obtain ev'' r where c: "checkRunningPID a x = (ev'', r)" by (metis surj_pair)
    have "OpenRunningPID ra t euid getwd path a = (map PeDir ev @ ev' @ ev'' @ [PeCloseParent], r)"
      using True x c by (auto simp: OpenRunningPID_def p o isOk_iff)
    then show ?thesis
      using b e True x check_events [of a x] by (cases "isOk r") (auto simp: c)
  next
    case False
    then show ?thesis using b e by (cases pr; cases f) (auto simp: OpenRunningPID_def p o)
  qed
qed

text \<open>
  C33: a control command gets a reference to a running supervisor exactly when the path is
  trusted, the file is regular with a single link, its text of at most 64 bytes is a positive
  32-bit pid, the kernel names that same pid as the owner of the lock, and the path still names
  the same file after the lock was inspected. A successful inspection opens the pid file twice
  and closes the second handle; a refusal closes every handle of the file that it opened, each
  once and after its opening. With the directories on the way counted too, one descriptor stays
  open after a success, that of the pid file, and none after a refusal.
\<close>

theorem OpenRunningPID_exact:
  "(snd (OpenRunningPID ra t euid getwd path a) = Inr r \<longleftrightarrow>
      isOk (snd (prepareRunningPIDPath ra t euid getwd path)) \<and>
      soundOpen (pa_open a) \<and> pa_readErr a = None \<and> int (length (pa_data a)) \<le> pidTextSize \<and>
      parseInt 32 (trimSpace (pa_data a)) = Inr (PID r) \<and> 0 < PID r \<and>
      lockOwnerPID (pa_getlk a) (pa_locks a) (run_file r) = Inr (PID r) \<and>
      soundOpen (pa_reopen a) \<and> pa_statErr a = None \<and> pa_restatErr a = None \<and>
      run_file r = oa_id (pa_open a) \<and> run_file r = oa_id (pa_reopen a)) \<and>
   fileEvents (fst (OpenRunningPID ra t euid getwd path a)) \<in>
     (if isOk (snd (OpenRunningPID ra t euid getwd path a))
      then {[PeOpen ControlFile, PeOpen PathFile, PeClose PathFile]}
      else {[], [PeOpen ControlFile, PeClose ControlFile],
            [PeOpen ControlFile, PeOpen PathFile, PeClose PathFile, PeClose ControlFile]}) \<and>
   eventBalance (fst (OpenRunningPID ra t euid getwd path a)) =
     (if isOk (snd (OpenRunningPID ra t euid getwd path a)) then 1 else 0)"
  using OpenRunningPID_spec OpenRunningPID_events by blast

text \<open>
  What the poll for the end of a supervisor reports. It says that the supervisor has exited
  only when the kernel names another owner of the lock, or names none and a shared lock on the
  same file can be taken; as long as the kernel names the recorded pid as the owner, the answer
  is that it still runs.
\<close>

theorem Exited_sound:
  "(Exited g l tlk r = Inr True \<longrightarrow>
      (\<exists>owner. lockOwnerPID g l (run_file r) = Inr owner \<and> owner \<noteq> PID r \<and> 0 < owner) \<or>
      (lockOwnerPID g l (run_file r) = Inr 0 \<and> tlk = TryLocked)) \<and>
   (lockOwnerPID g l (run_file r) = Inr (PID r) \<and> 0 < PID r \<longrightarrow> Exited g l tlk r = Inr False) \<and>
   (lockOwnerPID g l (run_file r) = Inr 0 \<and> tlk = TryLocked \<longrightarrow> Exited g l tlk r = Inr True)"
  using lockOwnerPID_pos [of g l "run_file r"]
  by (auto simp: Exited_def PID_def lockNoLongerOwnedByPID_def split: sum.splits if_splits tryLock.splits)

definition sampleID :: fileID where
  "sampleID = \<lparr>id_major = 8, id_minor = 1, id_ino = 131\<rparr>"

definition sampleOpen :: openAnswer where
  "sampleOpen = \<lparr>oa_openErr = None, oa_statErr = None, oa_regular = True, oa_nlink = 1, oa_id = sampleID\<rparr>"

text \<open>A supervisor of the older format, which holds only the \<open>flock\<close> lock.\<close>

definition sampleLocks :: procLocks where
  "sampleLocks = \<lparr>pl_linux = True, pl_statErr = None, pl_openErr = None,
     pl_lines = [''1: POSIX  ADVISORY  WRITE 77 08:01:131 0 EOF'', ''2: FLOCK  ADVISORY  WRITE 4242 08:01:131 0 EOF''],
     pl_scanErr = None\<rparr>"

definition samplePidAnswers :: pidAnswers where
  "samplePidAnswers = \<lparr>pa_open = sampleOpen, pa_data = ''4242'' @ [CHR 0x0A], pa_readErr = None,
     pa_getlk = GetlkUnlocked, pa_locks = sampleLocks, pa_statErr = None, pa_reopen = sampleOpen,
     pa_restatErr = None\<rparr>"

lemma flock_owner_found: "lockOwnerPID GetlkUnlocked sampleLocks sampleID = Inr 4242"
  by code_simp

theorem Exited_sound_witness:
  "Exited GetlkUnlocked sampleLocks TryBusy \<lparr>run_file = sampleID, run_pid = 4242\<rparr> = Inr False"
  using Exited_sound [of GetlkUnlocked sampleLocks TryBusy "\<lparr>run_file = sampleID, run_pid = 4242\<rparr>"]
  by (simp add: flock_owner_found PID_def)

theorem OpenRunningPID_exact_witness:
  "snd (OpenRunningPID False sampleTree 1000 (Inr []) ''/tmp/run/app.pid'' samplePidAnswers) =
     Inr \<lparr>run_file = sampleID, run_pid = 4242\<rparr>"
proof -
  have "isOk (snd (prepareRunningPIDPath False sampleTree 1000 (Inr []) ''/tmp/run/app.pid''))"
    "parseInt 32 (trimSpace (''4242'' @ [CHR 0x0A])) = Inr 4242" by code_simp+
  then show ?thesis
    by (subst OpenRunningPID_exact [THEN conjunct1])
       (simp add: samplePidAnswers_def sampleOpen_def soundOpen_def PID_def pidTextSize_def flock_owner_found)
qed

end
