(* ===== verification/Control.thy ===== *)
theory Control
  imports PidFile Signals
begin

text \<open>
  The control commands (\<open>internal/control/control.go\<close>): stopping a running supervisor and
  restarting its workers. Each sends one signal to the validated owner of the pid file and then
  polls every 20 milliseconds until the effect is visible or the context is cancelled. A poll is
  either the cancellation or a tick with what the system answers to it; the list of polls is
  finite, and \<open>None\<close> as the result says that the command still waits when it is used up.
\<close>

datatype 'a poll = PollCancelled string | PollTick 'a

datatype killAnswer = KillOk | KillESRCH | KillErr string

datatype control_error =
    ErrCtlCancelled string
  | ErrCtlOpen pid_error
  | ErrCtlSignal string
  | ErrCtlTimeout string
  | ErrCtlCheck lock_error
  | ErrCtlStatusRequired
  | ErrCtlStatus state_error

datatype controlEffect = CeSignal pid Signal | CeClose

definition signalError :: "killAnswer \<Rightarrow> control_error option" where
  "signalError k = (case k of KillOk \<Rightarrow> None | KillESRCH \<Rightarrow> Some (ErrCtlSignal ''ESRCH'') | KillErr e \<Rightarrow> Some (ErrCtlSignal e))"

subsection \<open>Stop\<close>

type_synonym lockPoll = "getlk \<times> procLocks \<times> tryLock"

fun stopLoop :: "RunningPID \<Rightarrow> lockPoll poll list \<Rightarrow> control_error option option" where
  "stopLoop running [] = None"
| "stopLoop running (PollCancelled e # polls) = Some (Some (ErrCtlTimeout e))"
| "stopLoop running (PollTick (g, l, tlk) # polls) =
     (case Exited g l tlk running of
        Inl e \<Rightarrow> Some (Some (ErrCtlCheck e))
      | Inr True \<Rightarrow> Some None
      | Inr False \<Rightarrow> stopLoop running polls)"

definition stopWithOpenRunningPID ::
  "string option \<Rightarrow> pid_error + RunningPID \<Rightarrow> string option \<Rightarrow> killAnswer \<Rightarrow> lockPoll poll list \<Rightarrow>
   controlEffect list \<times> control_error option option" where
  "stopWithOpenRunningPID ctxErr opened ctxErr' kill polls =
     (case ctxErr of Some e \<Rightarrow> ([], Some (Some (ErrCtlCancelled e))) | None \<Rightarrow>
      case opened of Inl e \<Rightarrow> ([], Some (Some (ErrCtlOpen e))) | Inr running \<Rightarrow>
      case ctxErr' of Some e \<Rightarrow> ([CeClose], Some (Some (ErrCtlCancelled e))) | None \<Rightarrow>
      let p = PID running in
      case (if kill = KillESRCH then None else signalError kill) of
        Some e \<Rightarrow> ([CeSignal p SIGTERM, CeClose], Some (Some e))
      | None \<Rightarrow>
          (case stopLoop running polls of
             None \<Rightarrow> ([CeSignal p SIGTERM], None)
           | Some r \<Rightarrow> ([CeSignal p SIGTERM, CeClose], Some r)))"

definition Stop ::
  "string option \<Rightarrow> bool \<Rightarrow> tree \<Rightarrow> uid \<Rightarrow> string + string \<Rightarrow> string \<Rightarrow> pidAnswers \<Rightarrow> string option \<Rightarrow>
   killAnswer \<Rightarrow> lockPoll poll list \<Rightarrow> controlEffect list \<times> control_error option option" where
  "Stop ctxErr ra t euid getwd pidPath a ctxErr' kill polls =
     stopWithOpenRunningPID ctxErr (snd (OpenRunningPID ra t euid getwd pidPath a)) ctxErr' kill polls"

text \<open>The check without a handle; the error of opening may be that the file is gone.\<close>

datatype openResult = OrMissing | OrErr string | OrOpened

datatype stopped_error = ErrStopOpen string | ErrStopLock string | ErrStopClose string

definition processStopped :: "openResult \<Rightarrow> tryLock \<Rightarrow> string option \<Rightarrow> stopped_error + bool" where
  "processStopped opened tlk closeErr =
     (case opened of
        OrMissing \<Rightarrow> Inr True
      | OrErr e \<Rightarrow> Inl (ErrStopOpen e)
      | OrOpened \<Rightarrow>
          (case tlk of
             TryErr e \<Rightarrow> Inl (ErrStopLock e)
           | TryAccess \<Rightarrow> Inl (ErrStopLock ''EACCES'')
           | _ \<Rightarrow> (case closeErr of Some e \<Rightarrow> Inl (ErrStopClose e) | None \<Rightarrow> Inr (tlk = TryLocked))))"

subsection \<open>Restart\<close>

definition generationAdvanced :: "(int \<times> pid) list \<Rightarrow> (int \<times> pid) list \<Rightarrow> bool" where
  "generationAdvanced previous current = list_ex (\<lambda>(generation, _). map_of previous generation = None) current"

text \<open>A missing key reads as the zero value.\<close>

definition oldWorkersGone :: "(int \<times> pid) list \<Rightarrow> (int \<times> pid) list \<Rightarrow> bool" where
  "oldWorkersGone previous current =
     list_all (\<lambda>(generation, p). (case map_of current generation of Some q \<Rightarrow> q | None \<Rightarrow> 0) \<noteq> p) previous"

fun restartLoop :: "(int \<times> pid) list \<Rightarrow> stateFile poll list \<Rightarrow> control_error option option" where
  "restartLoop previous [] = None"
| "restartLoop previous (PollCancelled e # polls) = Some (Some (ErrCtlTimeout e))"
| "restartLoop previous (PollTick f # polls) =
     (case ReadStatus f of
        Inl e \<Rightarrow> Some (Some (ErrCtlStatus e))
      | Inr current \<Rightarrow>
          if generationAdvanced previous current \<and> oldWorkersGone previous current then Some None
          else restartLoop previous polls)"

definition restartRunning ::
  "pid_error + RunningPID \<Rightarrow> stateFile \<Rightarrow> killAnswer \<Rightarrow> stateFile poll list \<Rightarrow>
   controlEffect list \<times> control_error option option" where
  "restartRunning opened prev kill polls =
     (case opened of Inl e \<Rightarrow> ([], Some (Some (ErrCtlOpen e))) | Inr running \<Rightarrow>
      let p = PID running in
      case ReadStatus prev of Inl e \<Rightarrow> ([CeClose], Some (Some (ErrCtlStatus e))) | Inr previous \<Rightarrow>
      case signalError kill of
        Some e \<Rightarrow> ([CeSignal p SIGHUP, CeClose], Some (Some e))
      | None \<Rightarrow>
          (case restartLoop previous polls of
             None \<Rightarrow> ([CeSignal p SIGHUP], None)
           | Some r \<Rightarrow> ([CeSignal p SIGHUP, CeClose], Some r)))"

definition Restart ::
  "string option \<Rightarrow> bool \<Rightarrow> tree \<Rightarrow> uid \<Rightarrow> string + string \<Rightarrow> string \<Rightarrow> string \<Rightarrow> pidAnswers \<Rightarrow> stateFile \<Rightarrow>
   killAnswer \<Rightarrow> stateFile poll list \<Rightarrow> controlEffect list \<times> control_error option option" where
  "Restart ctxErr ra t euid getwd pidPath statusPath a prev kill polls =
     (if statusPath = [] then ([], Some (Some ErrCtlStatusRequired))
      else (case ctxErr of Some e \<Rightarrow> ([], Some (Some (ErrCtlCancelled e))) | None \<Rightarrow>
        restartRunning (snd (OpenRunningPID ra t euid getwd pidPath a)) prev kill polls))"

subsection \<open>Polling\<close>

text \<open>
  The contract both loops share: a cancellation ends the wait with an error, a tick asks one
  question whose answer is an error, done or not yet.
\<close>

locale polling =
  fixes loop :: "'a poll list \<Rightarrow> control_error option option"
    and ask :: "'a \<Rightarrow> control_error + bool"
  assumes loop_Nil: "loop [] = None"
    and loop_cancel: "loop (PollCancelled e # polls) = Some (Some (ErrCtlTimeout e))"
    and loop_tick: "loop (PollTick x # polls) =
      (case ask x of Inl e \<Rightarrow> Some (Some e) | Inr b \<Rightarrow> if b then Some None else loop polls)"
begin

lemma success_iff:
  "loop polls = Some None \<longleftrightarrow>
     (\<exists>xs x rest. polls = map PollTick xs @ PollTick x # rest \<and> (\<forall>y \<in> set xs. ask y = Inr False) \<and> ask x = Inr True)"
proof (induction polls)
  case Nil
  then show ?case by (simp add: loop_Nil)
next
  case (Cons p polls)
  show ?case
  proof (cases p)
    case (PollCancelled e)
    then show ?thesis by (auto simp: loop_cancel append_eq_Cons_conv Cons_eq_append_conv)
  next
    case (PollTick a)
    have "loop (PollTick a # polls) = Some None \<longleftrightarrow> ask a = Inr True \<or> (ask a = Inr False \<and> loop polls = Some None)"
      by (auto simp: loop_tick split: sum.splits)
    also have "\<dots> \<longleftrightarrow> (\<exists>xs x rest. PollTick a # polls = map PollTick xs @ PollTick x # rest \<and>
        (\<forall>y \<in> set xs. ask y = Inr False) \<and> ask x = Inr True)"
    proof (rule iffI, elim disjE conjE)
      assume "ask a = Inr True"
      then show "\<exists>xs x rest. PollTick a # polls = map PollTick xs @ PollTick x # rest \<and>
        (\<forall>y \<in> set xs. ask y = Inr False) \<and> ask x = Inr True"
        by (intro exI [of _ "[]"]) simp
    next
      assume a: "ask a = Inr False" and "loop polls = Some None"
      with Cons.IH obtain xs x rest where "polls = map PollTick xs @ PollTick x # rest"
        "\<forall>y \<in> set xs. ask y = Inr False" "ask x = Inr True" by blast
      with a show "\<exists>xs x rest. PollTick a # polls = map PollTick xs @ PollTick x # rest \<and>
        (\<forall>y \<in> set xs. ask y = Inr False) \<and> ask x = Inr True"
        by (intro exI [of _ "a # xs"] exI [of _ x] exI [of _ rest]) simp
    next
      assume "\<exists>xs x rest. PollTick a # polls = map PollTick xs @ PollTick x # rest \<and>
        (\<forall>y \<in> set xs. ask y = Inr False) \<and> ask x = Inr True"
      then obtain xs x rest where x: "PollTick a # polls = map PollTick xs @ PollTick x # rest"
        "\<forall>y \<in> set xs. ask y = Inr False" "ask x = Inr True" by blast
      then show "ask a = Inr True \<or> (ask a = Inr False \<and> loop polls = Some None)"
        using Cons.IH by (cases xs) auto
    qed
    finally show ?thesis by (simp add: PollTick)
  qed
qed

lemma returns: "PollCancelled e \<in> set polls \<Longrightarrow> loop polls \<noteq> None"
proof (induction polls)
  case (Cons p polls)
  then show ?case by (cases p) (auto simp: loop_cancel loop_tick split: sum.splits)
qed simp

lemma loop_skips: "\<forall>y \<in> set xs. ask y = Inr False \<Longrightarrow> loop (map PollTick xs @ polls) = loop polls"
  by (induction xs) (simp_all add: loop_tick)

text \<open>A success is the answer to one poll: before it the loop still waited.\<close>

lemma success_at:
  assumes "loop polls = Some None"
  shows "\<exists>k < length polls. \<exists>x. polls ! k = PollTick x \<and> ask x = Inr True \<and>
    loop (take k polls) = None \<and> loop (take (Suc k) polls) = Some None"
proof -
  from assms obtain xs x rest where p: "polls = map PollTick xs @ PollTick x # rest"
    and xs: "\<forall>y \<in> set xs. ask y = Inr False" and x: "ask x = Inr True"
    unfolding success_iff by blast
  have "loop (map PollTick xs) = None" using loop_skips [OF xs, of "[]"] by (simp add: loop_Nil)
  moreover have "loop (map PollTick xs @ [PollTick x]) = Some None"
    using loop_skips [OF xs] x by (simp add: loop_tick)
  ultimately show ?thesis
    by (intro exI [of _ "length xs"]) (simp add: p x nth_append)
qed

end

definition askStop :: "RunningPID \<Rightarrow> lockPoll \<Rightarrow> control_error + bool" where
  "askStop running x =
     (case x of (g, l, tlk) \<Rightarrow> (case Exited g l tlk running of Inl e \<Rightarrow> Inl (ErrCtlCheck e) | Inr b \<Rightarrow> Inr b))"

definition askRestart :: "(int \<times> pid) list \<Rightarrow> stateFile \<Rightarrow> control_error + bool" where
  "askRestart previous f =
     (case ReadStatus f of
        Inl e \<Rightarrow> Inl (ErrCtlStatus e)
      | Inr current \<Rightarrow> Inr (generationAdvanced previous current \<and> oldWorkersGone previous current))"

interpretation stop_poll: polling "stopLoop running" "askStop running"
  by unfold_locales (auto simp: askStop_def split: prod.splits sum.splits bool.splits)

interpretation restart_poll: polling "restartLoop previous" "askRestart previous"
  by unfold_locales (auto simp: askRestart_def split: sum.splits)

subsection \<open>What the commands promise\<close>

lemma Stop_running:
  assumes "Stop None ra t euid getwd pidPath a None kill polls = (es, r)"
    and "snd (OpenRunningPID ra t euid getwd pidPath a) = Inr running"
  shows "CeSignal (PID running) SIGTERM \<in> set es" and "CeSignal q sig \<in> set es \<Longrightarrow> q = PID running \<and> sig = SIGTERM"
    and "r = Some None \<Longrightarrow> \<exists>k < length polls. \<exists>g l tlk. polls ! k = PollTick (g, l, tlk) \<and>
      Exited g l tlk running = Inr True \<and>
      snd (Stop None ra t euid getwd pidPath a None kill (take k polls)) = None \<and>
      Stop None ra t euid getwd pidPath a None kill (take (Suc k) polls) = (es, r)"
proof -
  show "CeSignal (PID running) SIGTERM \<in> set es" "CeSignal q sig \<in> set es \<Longrightarrow> q = PID running \<and> sig = SIGTERM"
    using assms by (auto simp: Stop_def stopWithOpenRunningPID_def Let_def split: option.splits if_splits)
  assume r: "r = Some None"
  then have l: "stopLoop running polls = Some None" and sent: "(if kill = KillESRCH then None else signalError kill) = None"
    and es: "es = [CeSignal (PID running) SIGTERM, CeClose]"
    using assms by (auto simp: Stop_def stopWithOpenRunningPID_def Let_def split: option.splits if_splits)
  from stop_poll.success_at [OF l] obtain k x where k: "k < length polls" "polls ! k = PollTick x"
    "askStop running x = Inr True" "stopLoop running (take k polls) = None"
    "stopLoop running (take (Suc k) polls) = Some None" by blast
  obtain g l tlk where x: "x = (g, l, tlk)" by (cases x)
  have "Exited g l tlk running = Inr True" using k(3) x by (auto simp: askStop_def split: sum.splits)
  moreover have "snd (Stop None ra t euid getwd pidPath a None kill (take k polls)) = None"
    "Stop None ra t euid getwd pidPath a None kill (take (Suc k) polls) = (es, r)"
    using k(4,5) sent es r assms(2) by (simp_all add: Stop_def stopWithOpenRunningPID_def Let_def)
  ultimately show "\<exists>k < length polls. \<exists>g l tlk. polls ! k = PollTick (g, l, tlk) \<and>
      Exited g l tlk running = Inr True \<and>
      snd (Stop None ra t euid getwd pidPath a None kill (take k polls)) = None \<and>
      Stop None ra t euid getwd pidPath a None kill (take (Suc k) polls) = (es, r)"
    using k(1,2) x by blast
qed


lemma generationAdvanced_iff:
  "generationAdvanced previous current \<longleftrightarrow> (\<exists>(g, p) \<in> set current. g \<notin> fst ` set previous)"
  by (simp add: generationAdvanced_def list_ex_iff map_of_eq_None_iff)

lemma oldWorkersGone_iff:
  assumes "distinct_keys current" and "\<forall>(g, p) \<in> set previous. p \<noteq> 0"
  shows "oldWorkersGone previous current \<longleftrightarrow> set previous \<inter> set current = {}"
proof -
  have "(case map_of current g of Some q \<Rightarrow> q | None \<Rightarrow> 0) \<noteq> p \<longleftrightarrow> (g, p) \<notin> set current"
    if "(g, p) \<in> set previous" for g p
  proof -
    from that assms(2) have "p \<noteq> 0" by auto
    then show ?thesis
      using map_of_distinct [OF assms(1), of g] by (cases "map_of current g") auto
  qed
  then show ?thesis unfolding oldWorkersGone_def list_all_iff by (auto simp: disjoint_iff)
qed

lemma readStatusLines_distinct:
  "readStatusLines m ls = Inr status \<Longrightarrow> distinct_keys m \<Longrightarrow> distinct_keys status"
  by (induction m ls rule: readStatusLines.induct) (auto split: if_splits sum.splits prod.splits)

lemma ReadStatus_distinct: "ReadStatus f = Inr status \<Longrightarrow> distinct_keys status"
  by (auto simp: ReadStatus_def split: sum.splits dest: readStatusLines_distinct)

text \<open>The restart is visible: a new generation, and no worker of the previous table is left.\<close>

definition restartVisible :: "(int \<times> pid) list \<Rightarrow> (int \<times> pid) list \<Rightarrow> bool" where
  "restartVisible previous current \<longleftrightarrow>
     (\<exists>(g, p) \<in> set current. g \<notin> fst ` set previous) \<and> set previous \<inter> set current = {}"

lemma askRestart_iff:
  assumes "\<forall>(g, p) \<in> set previous. p \<noteq> 0"
  shows "askRestart previous f = Inr b \<longleftrightarrow>
    (\<exists>current. ReadStatus f = Inr current \<and> b = restartVisible previous current)"
  using oldWorkersGone_iff [OF ReadStatus_distinct assms, of f]
  by (auto simp: askRestart_def restartVisible_def generationAdvanced_iff split: sum.splits)

lemma Restart_success:
  assumes "Restart ctxErr ra t euid getwd pidPath statusPath a prev kill polls = (es, Some None)"
    and "ReadStatus prev = Inr previous" and "\<forall>(g, p) \<in> set previous. p \<noteq> 0"
  shows "\<exists>k < length polls. \<exists>f current. polls ! k = PollTick f \<and> ReadStatus f = Inr current \<and>
    restartVisible previous current \<and>
    snd (Restart ctxErr ra t euid getwd pidPath statusPath a prev kill (take k polls)) = None \<and>
    Restart ctxErr ra t euid getwd pidPath statusPath a prev kill (take (Suc k) polls) = (es, Some None)"
proof -
  from assms(1,2) obtain running where l: "restartLoop previous polls = Some None"
    and s: "statusPath \<noteq> []" "ctxErr = None" "snd (OpenRunningPID ra t euid getwd pidPath a) = Inr running"
      "signalError kill = None" "es = [CeSignal (PID running) SIGHUP, CeClose]"
    by (auto simp: Restart_def restartRunning_def Let_def split: if_splits option.splits sum.splits)
  from restart_poll.success_at [OF l] obtain k f where k: "k < length polls" "polls ! k = PollTick f"
    "askRestart previous f = Inr True" "restartLoop previous (take k polls) = None"
    "restartLoop previous (take (Suc k) polls) = Some None" by blast
  moreover from k(3) obtain current where "ReadStatus f = Inr current" "restartVisible previous current"
    unfolding askRestart_iff [OF assms(3)] by auto
  moreover have "snd (Restart ctxErr ra t euid getwd pidPath statusPath a prev kill (take k polls)) = None"
    "Restart ctxErr ra t euid getwd pidPath statusPath a prev kill (take (Suc k) polls) = (es, Some None)"
    using k(4,5) s assms(2) by (simp_all add: Restart_def restartRunning_def Let_def)
  ultimately show ?thesis by blast
qed

text \<open>
  C37: restarting, for a previous status file that names no worker with pid zero. The effects
  are exact: once the pid file is validated and the previous status file could be read, one
  SIGHUP is issued, to the owner of the pid file, and no other signal in any case; the handle is
  closed once, last, when the command returns after opening it. The command reports success
  exactly when the signal could be sent and a later read of the status file shows a generation
  that was not there before and none of the workers that were, every earlier read having shown
  less. A cancelled context ends the wait.
\<close>

theorem Restart_correct:
  assumes "Restart ctxErr ra t euid getwd pidPath statusPath a prev kill polls = (es, r)"
    and "\<forall>previous. ReadStatus prev = Inr previous \<longrightarrow> (\<forall>(g, p) \<in> set previous. p \<noteq> 0)"
  shows "(statusPath = [] \<or> ctxErr \<noteq> None \<or> \<not> isOk (snd (OpenRunningPID ra t euid getwd pidPath a)) \<longrightarrow>
      es = [] \<and> r \<noteq> None \<and> r \<noteq> Some None) \<and>
    (\<forall>running. statusPath \<noteq> [] \<and> ctxErr = None \<and> snd (OpenRunningPID ra t euid getwd pidPath a) = Inr running \<longrightarrow>
      es = (if isOk (ReadStatus prev) then [CeSignal (PID running) SIGHUP] else []) @
           (if r = None then [] else [CeClose])) \<and>
    (r = Some None \<longleftrightarrow>
      (\<exists>previous xs f current rest. statusPath \<noteq> [] \<and> ctxErr = None \<and> kill = KillOk \<and>
         isOk (snd (OpenRunningPID ra t euid getwd pidPath a)) \<and> ReadStatus prev = Inr previous \<and>
         polls = map PollTick xs @ PollTick f # rest \<and>
         (\<forall>y \<in> set xs. \<exists>c. ReadStatus y = Inr c \<and> \<not> restartVisible previous c) \<and>
         ReadStatus f = Inr current \<and> restartVisible previous current)) \<and>
    (PollCancelled e \<in> set polls \<longrightarrow> r \<noteq> None)"
proof -
  let ?o = "snd (OpenRunningPID ra t euid getwd pidPath a)"
  show ?thesis
  proof (cases "statusPath \<noteq> [] \<and> ctxErr = None \<and> kill = KillOk \<and> isOk ?o \<and> isOk (ReadStatus prev)")
    case True
    then obtain running previous where o: "?o = Inr running" and p: "ReadStatus prev = Inr previous"
      by (auto simp: isOk_iff)
    let ?l = "restartLoop previous polls"
    have e: "es = CeSignal (PID running) SIGHUP # (if ?l = None then [] else [CeClose])" "r = ?l"
      using assms(1) True o p
      by (auto simp: Restart_def restartRunning_def signalError_def Let_def split: option.splits)
    have nz: "\<forall>(g, p) \<in> set previous. p \<noteq> 0" using assms(2) p by blast
    have "?l = Some None \<longleftrightarrow> (\<exists>xs f current rest. polls = map PollTick xs @ PollTick f # rest \<and>
         (\<forall>y \<in> set xs. \<exists>c. ReadStatus y = Inr c \<and> \<not> restartVisible previous c) \<and>
         ReadStatus f = Inr current \<and> restartVisible previous current)"
      unfolding restart_poll.success_iff askRestart_iff [OF nz] by auto
    then show ?thesis unfolding e using True o p restart_poll.returns [of e polls previous] by auto
  next
    case False
    have n: "r \<noteq> Some None" and r: "r \<noteq> None"
      and e: "statusPath = [] \<or> ctxErr \<noteq> None \<or> \<not> isOk ?o \<longrightarrow> es = []"
      and s: "\<forall>running. statusPath \<noteq> [] \<and> ctxErr = None \<and> ?o = Inr running \<longrightarrow>
        es = (if isOk (ReadStatus prev) then [CeSignal (PID running) SIGHUP] else []) @ [CeClose]"
      using assms(1) False
      by (auto simp: Restart_def restartRunning_def signalError_def Let_def
          split: option.splits sum.splits killAnswer.splits if_splits)
    show ?thesis using n r e s False by (auto simp: isOk_iff)
  qed
qed

subsection \<open>Examples\<close>

definition sampleRunning :: RunningPID where
  "sampleRunning = \<lparr>run_file = sampleID, run_pid = 4242\<rparr>"

lemma sample_running:
  "snd (OpenRunningPID False sampleTree 1000 (Inr []) ''/tmp/run/app.pid'' samplePidAnswers) = Inr sampleRunning"
  by code_simp

definition freeLocks :: procLocks where
  "freeLocks = \<lparr>pl_linux = True, pl_statErr = None, pl_openErr = None, pl_lines = [], pl_scanErr = None\<rparr>"

lemma sample_exited:
  "Exited GetlkUnlocked sampleLocks TryBusy sampleRunning = Inr False"
  "Exited GetlkUnlocked freeLocks TryLocked sampleRunning = Inr True"
  by code_simp+


definition statusBefore :: stateFile where
  "statusBefore = healthyFile (''1:30'' @ [CHR 0x0A])"

definition statusDuring :: stateFile where
  "statusDuring = healthyFile (''1:30'' @ [CHR 0x0A] @ ''2:40'' @ [CHR 0x0A])"

definition statusAfter :: stateFile where
  "statusAfter = healthyFile (''2:40'' @ [CHR 0x0A])"

lemma sample_status:
  "ReadStatus statusBefore = Inr [(1, 30)]" "ReadStatus statusDuring = Inr [(1, 30), (2, 40)]"
  "ReadStatus statusAfter = Inr [(2, 40)]"
  by code_simp+

theorem Restart_correct_witness:
  "snd (Restart None False sampleTree 1000 (Inr []) ''/tmp/run/app.pid'' ''/tmp/run/status'' samplePidAnswers
     statusBefore KillOk [PollTick statusDuring, PollTick statusAfter]) = Some None"
proof -
  let ?polls = "[PollTick statusDuring, PollTick statusAfter]"
  obtain es r where s: "Restart None False sampleTree 1000 (Inr []) ''/tmp/run/app.pid'' ''/tmp/run/status''
      samplePidAnswers statusBefore KillOk ?polls = (es, r)" by (metis surj_pair)
  have "\<forall>previous. ReadStatus statusBefore = Inr previous \<longrightarrow> (\<forall>(g, p) \<in> set previous. p \<noteq> 0)"
    by (simp add: sample_status)
  from Restart_correct [OF s this] have "(\<exists>previous xs f current rest. ''/tmp/run/status'' \<noteq> [] \<and>
         isOk (snd (OpenRunningPID False sampleTree 1000 (Inr []) ''/tmp/run/app.pid'' samplePidAnswers)) \<and>
         ReadStatus statusBefore = Inr previous \<and> ?polls = map PollTick xs @ PollTick f # rest \<and>
         (\<forall>y \<in> set xs. \<exists>c. ReadStatus y = Inr c \<and> \<not> restartVisible previous c) \<and>
         ReadStatus f = Inr current \<and> restartVisible previous current) \<Longrightarrow> r = Some None" by blast
  moreover have "?polls = map PollTick [statusDuring] @ PollTick statusAfter # []"
    "\<forall>y \<in> set [statusDuring]. \<exists>c. ReadStatus y = Inr c \<and> \<not> restartVisible [(1, 30)] c"
    "restartVisible [(1, 30)] [(2, 40)]"
    by (simp_all add: sample_status restartVisible_def)
  moreover have "isOk (snd (OpenRunningPID False sampleTree 1000 (Inr []) ''/tmp/run/app.pid'' samplePidAnswers))"
    by (simp add: sample_running)
  ultimately have "r = Some None" using sample_status(1,3) by blast
  then show ?thesis by (simp add: s)
qed

end
