(* ===== verification/Service.thy ===== *)
theory Service
  imports Supervisor Control
begin

text \<open>
  What the supervisor's loop promises its user, as an abstract machine: a service with one
  current worker and at most one that is being drained, whose generation grows with every new
  worker. The loop of \<open>internal/supervisor/supervisor.go\<close> refines it, and what the restart
  command of \<open>internal/control/control.go\<close> concludes from two readings of the status file is
  proved on the abstract machine.
\<close>

type_synonym svcWorker = "pid \<times> int"
type_synonym service = "svcWorker \<times> svcWorker option"

text \<open>
  A restart puts a new worker beside the one it retires and needs no other worker to be drained;
  a current worker that died is replaced; the drained worker exits.
\<close>

inductive svcStep :: "service \<Rightarrow> service \<Rightarrow> bool" where
  svc_restart: "g < g' \<Longrightarrow> svcStep ((p, g), None) ((p', g'), Some (p, g))"
| svc_replace: "g < g' \<Longrightarrow> svcStep ((p, g), d) ((p', g'), d)"
| svc_drained: "svcStep (c, Some d) (c, None)"

definition svcInit :: "service \<Rightarrow> bool" where
  "svcInit a \<longleftrightarrow> snd a = None \<and> 0 < snd (fst a)"

definition serviceOf :: "sys \<Rightarrow> service" where
  "serviceOf s =
     (let rs = sy_rs s in
      ((currentPID rs, rs_generation rs),
       case rs_oldWorkers rs of [] \<Rightarrow> None | d # _ \<Rightarrow> Some d))"

fun svcWorkers :: "service \<Rightarrow> svcWorker set" where
  "svcWorkers (c, None) = {c}"
| "svcWorkers (c, Some d) = {c, d}"

subsection \<open>The loop refines the service\<close>

lemma serviceOf_eq:
  "serviceOf \<lparr>sy_rs = rs, sy_live = l\<rparr> =
     ((currentPID rs, rs_generation rs), case rs_oldWorkers rs of [] \<Rightarrow> None | d # _ \<Rightarrow> Some d)"
  by (simp add: serviceOf_def)

lemma restart_refines:
  assumes "restartStep w an rs = Some (Continue rs', effs)" and "rs_oldWorkers rs = []" and "rs_p rs = Some p"
  shows "svcStep ((p, rs_generation rs), None)
    ((currentPID rs', rs_generation rs'), case rs_oldWorkers rs' of [] \<Rightarrow> None | d # _ \<Rightarrow> Some d)"
  using assms(1)
  by (rule restartStep_Continue) (use assms(2,3) in \<open>auto simp: currentPID_def intro: svc_restart\<close>)

lemma select_refines:
  assumes "selectStep w ev rs = Some (Continue rs', effs)" and p: "rs_p rs = Some p"
    and old: "length (rs_oldWorkers rs) \<le> 1" and "\<forall>q an. ev = WorkerExit q an \<longrightarrow> q \<in> insert p (fst ` set (rs_oldWorkers rs))"
  shows "svcStep\<^sup>*\<^sup>*
    ((p, rs_generation rs), case rs_oldWorkers rs of [] \<Rightarrow> None | d # _ \<Rightarrow> Some d)
    ((currentPID rs', rs_generation rs'), case rs_oldWorkers rs' of [] \<Rightarrow> None | d # _ \<Rightarrow> Some d)"
  using assms(1)
proof (cases rule: selectStep_cases)
  case (replaced pid an rs1 effs1)
  from replaced(3) show ?thesis
    by (rule bringUp_Inr) (use replaced(2,4) p in \<open>auto simp: currentPID_def intro!: r_into_rtranclp svc_replace\<close>)
next
  case (restart an rs0)
  then have rs0: "rs_p rs0 = Some p" "rs_generation rs0 = rs_generation rs" "rs_oldWorkers rs0 = []"
    using p by (simp_all add: restartsFrom_def)
  have "svcStep\<^sup>*\<^sup>* ((p, rs_generation rs), case rs_oldWorkers rs of [] \<Rightarrow> None | d # _ \<Rightarrow> Some d) ((p, rs_generation rs), None)"
    by (cases "rs_oldWorkers rs") (simp_all add: svc_drained r_into_rtranclp)
  with restart_refines [OF restart(3) rs0(3,1)] rs0(2) show ?thesis by (simp add: rtranclp.rtrancl_into_rtrancl)
next
  case (drained pid an)
  with assms(4) p obtain g where "rs_oldWorkers rs = [(pid, g)]"
    using old by (cases "rs_oldWorkers rs") (auto simp: le_Suc_eq)
  with drained(3) p show ?thesis by (simp add: currentPID_def svc_drained r_into_rtranclp)
qed (use p in \<open>simp_all add: currentPID_def\<close>)

interpretation service: refinement "sysInit w" "sysStep w" sysInv serviceOf svcInit svcStep for w
proof unfold_locales
  fix s
  assume i: "sysInit w s"
  then have "sysInv s" by (rule supervisor.inv_init)
  moreover have "rs_oldWorkers (sy_rs s) = []" using i by (auto simp: sysInit_def elim: loopStart_Inr)
  ultimately show "svcInit (serviceOf s)" by (auto simp: svcInit_def serviceOf_def Let_def sysInv_def)
next
  fix s t
  assume inv: "sysInv s" and "sysStep w s t"
  obtain p where p: "rs_p (sy_rs s) = Some p" "length (rs_oldWorkers (sy_rs s)) \<le> 1"
      "set (sy_live s) = insert p (fst ` set (rs_oldWorkers (sy_rs s)))"
    using inv by (auto simp: sysInv_def Let_def split: option.splits)
  from \<open>sysStep w s t\<close> show "svcStep\<^sup>*\<^sup>* (serviceOf s) (serviceOf t)"
  proof cases
    case request
    then show ?thesis by (simp add: serviceOf_def currentPID_def Let_def)
  next
    case (iterate ev rs' effs live')
    obtain effs' where "selectStep w ev (sy_rs s) = Some (Continue rs', effs')"
      using iterate(2) by (auto simp: loopIter_def)
    moreover have "\<forall>q an. ev = WorkerExit q an \<longrightarrow> q \<in> insert p (fst ` set (rs_oldWorkers (sy_rs s)))"
      using iterate(3) p(3) by (auto simp: exitsLive_def)
    ultimately have
      "svcStep\<^sup>*\<^sup>* ((p, rs_generation (sy_rs s)), case rs_oldWorkers (sy_rs s) of [] \<Rightarrow> None | d # _ \<Rightarrow> Some d)
        ((currentPID rs', rs_generation rs'), case rs_oldWorkers rs' of [] \<Rightarrow> None | d # _ \<Rightarrow> Some d)"
      using p(1,2) by (intro select_refines)
    then show ?thesis using iterate(1) p(1) by (simp add: serviceOf_def Let_def currentPID_def)
  qed
qed

subsection \<open>Facts of the abstract service\<close>

abbreviation svcGen :: "service \<Rightarrow> int" where
  "svcGen a \<equiv> snd (fst a)"

lemma svcStep_workers:
  "svcStep a b \<Longrightarrow> svcWorkers b \<subseteq> svcWorkers a \<union> {(p, g). svcGen a < g} \<and> (fst a = fst b \<or> svcGen a < svcGen b)"
proof (induction rule: svcStep.induct)
  case (svc_replace g g' p d p')
  then show ?case by (cases d) auto
qed auto

lemma svcSteps_workers:
  "svcStep\<^sup>*\<^sup>* a b \<Longrightarrow> svcWorkers b \<subseteq> svcWorkers a \<union> {(p, g). svcGen a < g} \<and> (fst a = fst b \<or> svcGen a < svcGen b)"
proof (induction rule: rtranclp_induct)
  case (step b c)
  from svcStep_workers [OF step.hyps(2)] step.IH show ?case by auto
qed simp

lemma serviceOf_workers:
  assumes "sysInv s"
  shows "fst ` svcWorkers (serviceOf s) = set (sy_live s)"
    and "svcWorkers (serviceOf s) = insert (currentPID (sy_rs s), rs_generation (sy_rs s)) (set (rs_oldWorkers (sy_rs s)))"
    and "(p, g) \<in> svcWorkers (serviceOf s) \<Longrightarrow> 0 < p \<and> g \<le> rs_generation (sy_rs s)"
proof -
  obtain c where c: "rs_p (sy_rs s) = Some c" "0 < c" "length (rs_oldWorkers (sy_rs s)) \<le> 1"
      "set (sy_live s) = insert c (fst ` set (rs_oldWorkers (sy_rs s)))"
      "\<forall>(q, g) \<in> set (rs_oldWorkers (sy_rs s)). 0 < q \<and> 0 < g \<and> g < rs_generation (sy_rs s)"
    using assms by (auto simp: sysInv_def Let_def split: option.splits)
  show w: "svcWorkers (serviceOf s) = insert (currentPID (sy_rs s), rs_generation (sy_rs s)) (set (rs_oldWorkers (sy_rs s)))"
    using c(3) by (cases "rs_oldWorkers (sy_rs s)") (auto simp: serviceOf_def Let_def)
  show "fst ` svcWorkers (serviceOf s) = set (sy_live s)"
    unfolding w using c by (simp add: currentPID_def)
  show "(p, g) \<in> svcWorkers (serviceOf s) \<Longrightarrow> 0 < p \<and> g \<le> rs_generation (sy_rs s)"
    unfolding w using c by (auto simp: currentPID_def)
qed

text \<open>
  C6: the supervisor implements a rolling service. Seen through its current worker and the one
  being drained, every execution of the loop is a sequence of restarts (the new worker runs
  before the old one is told to go, and never while another one is still being drained),
  replacements of a dead worker, and completed drains. The workers of the abstraction are exactly
  the live processes, and the generation never goes back.
\<close>

theorem supervisor_refines_service:
  assumes "reachable (sysInit w) (sysStep w) s" and "(sysStep w)\<^sup>*\<^sup>* s t"
  shows "svcStep\<^sup>*\<^sup>* (serviceOf s) (serviceOf t) \<and> fst ` svcWorkers (serviceOf t) = set (sy_live t) \<and>
    rs_generation (sy_rs s) \<le> rs_generation (sy_rs t) \<and>
    (\<exists>a. svcInit a \<and> svcStep\<^sup>*\<^sup>* a (serviceOf s))"
proof (intro conjI)
  note inv = supervisor.reachable_inv [OF assms(1)]
  show st: "svcStep\<^sup>*\<^sup>* (serviceOf s) (serviceOf t)" by (rule service.abs_steps [OF assms(2) inv])
  show "fst ` svcWorkers (serviceOf t) = set (sy_live t)"
    by (rule serviceOf_workers(1) [OF supervisor.reachable_from [OF inv assms(2)]])
  show "rs_generation (sy_rs s) \<le> rs_generation (sy_rs t)"
    using svcSteps_workers [OF st] by (auto simp: serviceOf_def Let_def)
  show "\<exists>a. svcInit a \<and> svcStep\<^sup>*\<^sup>* a (serviceOf s)" by (rule service.reachable_abs [OF assms(1)])
qed

theorem supervisor_refines_service_witness:
  "\<exists>s t. reachable (sysInit sampleWorld) (sysStep sampleWorld) s \<and> (sysStep sampleWorld)\<^sup>*\<^sup>* s t \<and>
     svcStep\<^sup>*\<^sup>* (serviceOf s) (serviceOf t) \<and> fst ` svcWorkers (serviceOf t) = {9}"
proof -
  obtain s where i: "sysInit sampleWorld s" and l: "sy_live s = [9]" using sample_init by blast
  let ?t = "s\<lparr>sy_rs := (sy_rs s)\<lparr>rs_ctrl := Hangup (rs_ctrl (sy_rs s))\<rparr>\<rparr>"
  have r: "reachable (sysInit sampleWorld) (sysStep sampleWorld) s" using i by (rule reach_init)
  have "(sysStep sampleWorld)\<^sup>*\<^sup>* s ?t" by (rule r_into_rtranclp, rule request)
  with supervisor_refines_service [OF r this] r l show ?thesis by (intro exI [of _ s] exI [of _ ?t]) simp
qed

subsection \<open>The restart command and the supervisor\<close>

text \<open>A table of the status file is the one of a state of the supervisor.\<close>

definition tableOf :: "sys \<Rightarrow> (int \<times> pid) list \<Rightarrow> bool" where
  "tableOf s m \<longleftrightarrow> set m = (\<lambda>(p, g). (g, p)) ` svcWorkers (serviceOf s)"

lemma tableOf_member: "tableOf s m \<Longrightarrow> (g, p) \<in> set m \<longleftrightarrow> (p, g) \<in> svcWorkers (serviceOf s)"
  by (force simp: tableOf_def image_iff)

lemma restartVisible_service:
  assumes inv: "sysInv s" and st: "(sysStep w)\<^sup>*\<^sup>* s t" and "tableOf s previous" "tableOf t current"
    and "restartVisible previous current" and tu: "(sysStep w)\<^sup>*\<^sup>* t u"
  shows "rs_generation (sy_rs s) < rs_generation (sy_rs t) \<and> svcWorkers (serviceOf s) \<inter> svcWorkers (serviceOf u) = {}"
proof -
  have it: "sysInv t" using supervisor.reachable_from [OF inv st] .
  have gen: "svcGen (serviceOf x) = rs_generation (sy_rs x)" for x by (simp add: serviceOf_def Let_def)
  note wst = svcSteps_workers [OF service.abs_steps [OF st inv]]
  note wtu = svcSteps_workers [OF service.abs_steps [OF tu it]]
  from assms(5) obtain g p where gp: "(g, p) \<in> set current" "g \<notin> fst ` set previous"
    by (auto simp: restartVisible_def)
  then have "(p, g) \<in> svcWorkers (serviceOf t)" "(p, g) \<notin> svcWorkers (serviceOf s)"
    using tableOf_member [OF assms(4)] tableOf_member [OF assms(3), of g p] by force+
  then have "rs_generation (sy_rs s) < g" "g \<le> rs_generation (sy_rs t)"
    using wst serviceOf_workers(3) [OF it] by (auto simp: gen)
  then have lt: "rs_generation (sy_rs s) < rs_generation (sy_rs t)" by simp
  have "svcWorkers (serviceOf s) \<inter> svcWorkers (serviceOf t) = {}"
    using assms(5) tableOf_member [OF assms(3)] tableOf_member [OF assms(4)]
    by (auto simp: restartVisible_def disjoint_iff)
  moreover have "(q, h) \<notin> svcWorkers (serviceOf s)" if "rs_generation (sy_rs t) < h" for q h
    using serviceOf_workers(3) [OF inv, of q h] lt that by auto
  ultimately have "svcWorkers (serviceOf s) \<inter> svcWorkers (serviceOf u) = {}"
    using wtu by (auto simp: gen disjoint_iff)
  with lt show ?thesis by blast
qed

text \<open>
  C18: the restart command tells the truth. Let \<open>hist\<close> be the states of the supervisor at the
  observations of the command: the first reading of the status file is the table of the first
  state, and the reading of the \<open>k\<close>-th poll, if it is readable, that of the state after it, with
  any number of steps of the supervisor in between. When the command reports success, it does so
  at one of the polls, while before that poll it was still waiting, and in the state of that poll
  the supervisor has a later generation and none of the workers of the beginning is left, nor does
  any of them come back in a state it reaches afterwards.
\<close>

theorem restart_command_truthful:
  assumes "Restart ctxErr ra tr euid getwd pidPath statusPath a prev kill polls = (es, Some None)"
    and "reachable (sysInit w) (sysStep w) (hist 0)" and "\<forall>k. (sysStep w)\<^sup>*\<^sup>* (hist k) (hist (Suc k))"
    and "ReadStatus prev = Inr previous" and "tableOf (hist 0) previous"
    and "\<forall>k < length polls. \<forall>f c. polls ! k = PollTick f \<longrightarrow> ReadStatus f = Inr c \<longrightarrow> tableOf (hist (Suc k)) c"
  shows "\<exists>k < length polls.
    snd (Restart ctxErr ra tr euid getwd pidPath statusPath a prev kill (take k polls)) = None \<and>
    Restart ctxErr ra tr euid getwd pidPath statusPath a prev kill (take (Suc k) polls) = (es, Some None) \<and>
    rs_generation (sy_rs (hist 0)) < rs_generation (sy_rs (hist (Suc k))) \<and>
    (\<forall>u. (sysStep w)\<^sup>*\<^sup>* (hist (Suc k)) u \<longrightarrow> svcWorkers (serviceOf (hist 0)) \<inter> svcWorkers (serviceOf u) = {})"
proof -
  note inv = supervisor.reachable_inv [OF assms(2)]
  have nz: "\<forall>(g, p) \<in> set previous. p \<noteq> 0"
    using tableOf_member [OF assms(5)] serviceOf_workers(3) [OF inv] by fastforce
  from Restart_success [OF assms(1,4) nz] obtain k f current where
    k: "k < length polls" "polls ! k = PollTick f" "ReadStatus f = Inr current" "restartVisible previous current"
      "snd (Restart ctxErr ra tr euid getwd pidPath statusPath a prev kill (take k polls)) = None"
      "Restart ctxErr ra tr euid getwd pidPath statusPath a prev kill (take (Suc k) polls) = (es, Some None)" by blast
  then have t: "tableOf (hist (Suc k)) current" using assms(6) by blast
  note v = restartVisible_service [OF inv history_reaches [OF assms(3)] assms(5) t k(4)]
  from v [OF rtranclp.rtrancl_refl] v k show ?thesis by blast
qed

lemma sample_replaced:
  "\<exists>s t. sysInit sampleWorld s \<and> sysStep sampleWorld s t \<and> serviceOf s = ((9, 1), None) \<and> serviceOf t = ((10, 2), None)"
proof -
  let ?sa = "\<lparr>sa_attempts = [goodAttempt 9], sa_ctxErr = False\<rparr>"
  obtain r1 where "startWorker sampleStarter Linux samplePolicy False [] [] [] id 0 [goodAttempt 9] =
      Some \<lparr>st_result = Inr 9, st_generation = 1, st_rounds = r1\<rparr>"
    using sample_start_plain [of False "[]" 0 9] by auto
  then have "\<exists>rs effs. loopStart sampleWorld ?sa False sampleRun = Some (Inr rs, effs) \<and> rs_p rs = Some 9 \<and>
      newWorkers effs = [9] \<and> rs_generation rs = 1 \<and> rs_listeners rs = [] \<and> rs_descriptors rs = [] \<and> rs_oldWorkers rs = []"
    by (simp add: loopStart_def sampleWorld_def sampleRun_def Let_def)
  then obtain rs effs where l: "loopStart sampleWorld ?sa False sampleRun = Some (Inr rs, effs)" "newWorkers effs = [9]"
    and rs: "rs_p rs = Some 9" "rs_generation rs = 1" "rs_listeners rs = []" "rs_descriptors rs = []" "rs_oldWorkers rs = []"
    by blast
  let ?s = "\<lparr>sy_rs = rs, sy_live = [9]\<rparr>"
  have i: "sysInit sampleWorld ?s"
    unfolding sysInit_def using l by (intro exI conjI) (auto simp: sampleRun_def intro: l)
  obtain r2 where r2: "startWorker sampleStarter Linux samplePolicy False [] [] [] id 1 [goodAttempt 10] =
      Some \<lparr>st_result = Inr 10, st_generation = 2, st_rounds = r2\<rparr>"
    using sample_start_plain [of False "[]" 1 10] by auto
  have "envdir sampleStarter = []" by (simp add: sampleStarter_def)
  with r2 rs have "\<exists>rs' effs'. loopIter sampleWorld (WorkerExit 9 (calmAnswers 10)) rs = Some (Continue rs', effs') \<and>
      rs_p rs' = Some 10 \<and> rs_generation rs' = 2 \<and> rs_oldWorkers rs' = [] \<and> newWorkers effs' = [10]"
    by (simp add: loopIter_def selectStep_def exitStep_def bringUp_def reloadEnvdir_def reloadEnv_def sampleWorld_def
        calmAnswers_def writeStatus_def resetTimer_def)
  then obtain rs' effs' where it: "loopIter sampleWorld (WorkerExit 9 (calmAnswers 10)) rs = Some (Continue rs', effs')"
    and rs': "rs_p rs' = Some 10" "rs_generation rs' = 2" "rs_oldWorkers rs' = []" "newWorkers effs' = [10]" by blast
  have "sysStep sampleWorld ?s \<lparr>sy_rs = rs', sy_live = newWorkers effs' @ afterExit (WorkerExit 9 (calmAnswers 10)) [9]\<rparr>"
    by (rule iterate [of _ "WorkerExit 9 (calmAnswers 10)"]) (use it rs' in \<open>auto simp: exitsLive_def afterExit_def\<close>)
  with i rs rs' show ?thesis by (intro exI conjI) (auto simp: serviceOf_def Let_def currentPID_def)
qed

definition statusOf1 :: stateFile where
  "statusOf1 = healthyFile (''1:9'' @ [CHR 0x0A])"

definition statusOf2 :: stateFile where
  "statusOf2 = healthyFile (''2:10'' @ [CHR 0x0A])"

theorem restart_command_truthful_witness:
  "\<exists>s t. reachable (sysInit sampleWorld) (sysStep sampleWorld) s \<and> sysStep sampleWorld s t \<and>
     rs_generation (sy_rs s) < rs_generation (sy_rs t) \<and> svcWorkers (serviceOf s) \<inter> svcWorkers (serviceOf t) = {} \<and>
     snd (Restart None False sampleTree 1000 (Inr []) ''/tmp/run/app.pid'' ''/tmp/run/status'' samplePidAnswers
       statusOf1 KillOk [PollTick statusOf1, PollTick statusOf2]) = Some None"
proof -
  let ?polls = "[PollTick statusOf1, PollTick statusOf2]"
  let ?R = "Restart None False sampleTree 1000 (Inr []) ''/tmp/run/app.pid'' ''/tmp/run/status'' samplePidAnswers statusOf1 KillOk"
  have rd: "ReadStatus statusOf1 = Inr [(1, 9)]" "ReadStatus statusOf2 = Inr [(2, 10)]" by code_simp+
  have first: "snd (?R (take 1 ?polls)) = None"
    by (simp add: Restart_def restartRunning_def sample_running rd signalError_def Let_def generationAdvanced_def)
  obtain es r where e: "?R ?polls = (es, r)" by (metis surj_pair)
  then have r: "r = Some None"
    by (auto simp: Restart_def restartRunning_def sample_running rd signalError_def Let_def generationAdvanced_def
        oldWorkersGone_def)
  obtain s t where i: "sysInit sampleWorld s" and st: "sysStep sampleWorld s t"
    and s: "serviceOf s = ((9, 1), None)" and t: "serviceOf t = ((10, 2), None)" using sample_replaced by blast
  let ?hist = "\<lambda>k::nat. if k \<le> 1 then s else t"
  have rs: "reachable (sysInit sampleWorld) (sysStep sampleWorld) s" using i by (rule reach_init)
  have h: "reachable (sysInit sampleWorld) (sysStep sampleWorld) (?hist 0)"
    "\<forall>k. (sysStep sampleWorld)\<^sup>*\<^sup>* (?hist k) (?hist (Suc k))" "tableOf (?hist 0) [(1, 9)]"
    using rs st by (auto simp: tableOf_def s)
  have polls: "\<forall>k < length ?polls. \<forall>f c. ?polls ! k = PollTick f \<longrightarrow> ReadStatus f = Inr c \<longrightarrow> tableOf (?hist (Suc k)) c"
    by (auto simp: tableOf_def s t rd less_Suc_eq)
  from restart_command_truthful [OF e [unfolded r] h(1,2) rd(1) h(3) polls] obtain k where
    k: "k < length ?polls" "?R (take (Suc k) ?polls) = (es, Some None)"
      "rs_generation (sy_rs (?hist 0)) < rs_generation (sy_rs (?hist (Suc k)))"
      "\<forall>u. (sysStep sampleWorld)\<^sup>*\<^sup>* (?hist (Suc k)) u \<longrightarrow> svcWorkers (serviceOf (?hist 0)) \<inter> svcWorkers (serviceOf u) = {}"
    by blast
  then have "k = 1" using first by (cases k) (auto simp: less_Suc_eq)
  with k(3,4) have "rs_generation (sy_rs s) < rs_generation (sy_rs t)" "svcWorkers (serviceOf s) \<inter> svcWorkers (serviceOf t) = {}"
    by (simp_all add: rtranclp.rtrancl_refl)
  with rs st e r show ?thesis by (intro exI [of _ s] exI [of _ t]) simp
qed

end
