(* ===== verification/Settings.thy ===== *)
theory Settings
  imports Starter StatusFile
begin

text \<open>
  The options of the command line and the settings they resolve to (\<open>internal/cli/options.go\<close>,
  \<open>internal/cli/settings.go\<close>). Parsing the command line is go-flags' work: an \<open>options\<close> record is
  what it filled in, and \<open>isSet\<close> tells the flags it saw. Seconds become nanoseconds in 64-bit
  arithmetic, whose wrap-around is written out.
\<close>

definition wrap64 :: "int \<Rightarrow> int" where
  "wrap64 x = (x + 2 ^ 63) mod 2 ^ 64 - 2 ^ 63"

text \<open>\<open>time.Duration(n) * time.Second\<close>.\<close>

definition durationOfSeconds :: "int \<Rightarrow> duration" where
  "durationOfSeconds n = wrap64 (n * second)"

definition defaultAutoRestartInterval :: duration where
  "defaultAutoRestartInterval = 360 * second"

text \<open>Go divides towards zero.\<close>

definition minDurationSeconds :: int where
  "minDurationSeconds = - (2 ^ 63 div second)"

definition maxDurationSeconds :: int where
  "maxDurationSeconds = (2 ^ 63 - 1) div second"

definition defaultKillOldDelayWithAutoRestart :: duration where
  "defaultKillOldDelayWithAutoRestart = 5 * second"

record resolvedSettings =
  rs_envdir :: string
  rs_enableAutoRestart :: bool
  rs_autoRestartInterval :: duration
  rs_killOldDelay :: duration

record options =
  OptArgs :: "string list"
  OptCommand :: string
  OptDir :: string
  OptInterval :: int
  OptPorts :: "string list"
  OptPaths :: "string list"
  OptSignalOnHUP :: string
  OptSignalOnTERM :: string
  OptPidFile :: string
  OptStatusFile :: string
  OptLogFile :: string
  OptDaemonize :: bool
  OptEnvdir :: string
  OptEnableAutoRestart :: bool
  OptAutoRestartInterval :: int
  OptKillOldDelay :: int
  OptRestart :: bool
  OptStop :: bool
  OptHelp :: bool
  OptVersion :: bool
  resolved :: resolvedSettings
  logWriter :: "nat option"

datatype settings_error =
    ErrEnableAutoRestart string
  | ErrAutoRestartInterval string
  | ErrKillOldDelay string

text \<open>\<open>strconv.ParseBool\<close> with \<open>None\<close> for its error.\<close>

definition parseBool :: "string \<Rightarrow> bool option" where
  "parseBool s =
     (if s \<in> set [''1'', ''t'', ''T'', ''true'', ''TRUE'', ''True''] then Some True
      else if s \<in> set [''0'', ''f'', ''F'', ''false'', ''FALSE'', ''False''] then Some False
      else None)"

definition resolveEnvdir :: "env \<Rightarrow> bool \<Rightarrow> string \<Rightarrow> string" where
  "resolveEnvdir e isSet flagValue = (if isSet then flagValue else getenv e ''ENVDIR'')"

definition resolveEnableAutoRestart :: "env \<Rightarrow> bool \<Rightarrow> bool \<Rightarrow> settings_error + bool" where
  "resolveEnableAutoRestart e isSet flagValue =
     (if isSet then Inr flagValue
      else (case e ''ENABLE_AUTO_RESTART'' of
              None \<Rightarrow> Inr False
            | Some v \<Rightarrow> (case parseBool v of
                           None \<Rightarrow> Inl (ErrEnableAutoRestart v)
                         | Some enabled \<Rightarrow> Inr enabled)))"

definition resolveAutoRestartInterval :: "env \<Rightarrow> bool \<Rightarrow> int \<Rightarrow> settings_error + duration" where
  "resolveAutoRestartInterval e isSet flagSeconds =
     (if isSet then
        (if flagSeconds > 0 \<and> flagSeconds \<le> maxDurationSeconds
         then Inr (durationOfSeconds flagSeconds) else Inr defaultAutoRestartInterval)
      else (case e ''AUTO_RESTART_INTERVAL'' of
              None \<Rightarrow> Inr defaultAutoRestartInterval
            | Some raw \<Rightarrow>
                (case parseInt 64 raw of
                   Inl _ \<Rightarrow> Inl (ErrAutoRestartInterval raw)
                 | Inr parsed \<Rightarrow>
                     if parsed \<le> 0 then Inl (ErrAutoRestartInterval raw)
                     else if parsed > maxDurationSeconds then Inl (ErrAutoRestartInterval raw)
                     else Inr (durationOfSeconds parsed))))"

definition resolveKillOldDelay :: "env \<Rightarrow> bool \<Rightarrow> int \<Rightarrow> bool \<Rightarrow> settings_error + duration" where
  "resolveKillOldDelay e isSet flagSeconds enable =
     (if isSet then Inr (durationOfSeconds flagSeconds)
      else (case e ''KILL_OLD_DELAY'' of
              Some raw \<Rightarrow>
                (case parseInt 64 raw of
                   Inl _ \<Rightarrow> Inl (ErrKillOldDelay raw)
                 | Inr delay \<Rightarrow>
                     if delay < minDurationSeconds \<or> delay > maxDurationSeconds
                     then Inl (ErrKillOldDelay raw)
                     else Inr (durationOfSeconds delay))
            | None \<Rightarrow> if enable then Inr defaultKillOldDelayWithAutoRestart else Inr 0))"

definition resolveSettings :: "env \<Rightarrow> options \<Rightarrow> (string \<Rightarrow> bool) \<Rightarrow> settings_error + resolvedSettings" where
  "resolveSettings e opts isSet =
     (let dir = resolveEnvdir e (isSet ''envdir'') (OptEnvdir opts) in
      case resolveEnableAutoRestart e (isSet ''enable-auto-restart'') (OptEnableAutoRestart opts) of
        Inl err \<Rightarrow> Inl err
      | Inr enable \<Rightarrow>
          (case resolveAutoRestartInterval e (isSet ''auto-restart-interval'') (OptAutoRestartInterval opts) of
             Inl err \<Rightarrow> Inl err
           | Inr ival \<Rightarrow>
               (case resolveKillOldDelay e (isSet ''kill-old-delay'') (OptKillOldDelay opts) enable of
                  Inl err \<Rightarrow> Inl err
                | Inr delay \<Rightarrow>
                    Inr \<lparr>rs_envdir = dir, rs_enableAutoRestart = enable,
                         rs_autoRestartInterval = ival, rs_killOldDelay = delay\<rparr>)))"

text \<open>
  The methods by which the options are a configuration of the supervisor. The names of the signals
  depend on the system.
\<close>

definition signalResult :: "signal_error + Signal \<Rightarrow> string + Signal option" where
  "signalResult r = (case r of Inl (ErrSignalName n) \<Rightarrow> Inl n | Inr s \<Rightarrow> Inr (Some s))"

definition optionsConfig :: "bool \<Rightarrow> options \<Rightarrow> Config" where
  "optionsConfig windows o' =
     \<lparr>c_Args = OptArgs o', c_Command = OptCommand o', c_Dir = OptDir o',
      c_Interval = durationOfSeconds (OptInterval o'), c_PidFile = OptPidFile o',
      c_Ports = OptPorts o', c_Paths = OptPaths o',
      c_SignalOnHUP = signalResult (SigFromName windows (OptSignalOnHUP o')),
      c_SignalOnTERM = signalResult (SigFromName windows (OptSignalOnTERM o')),
      c_StatusFile = OptStatusFile o',
      c_Envdir = rs_envdir (resolved o'),
      c_EnableAutoRestart = rs_enableAutoRestart (resolved o'),
      c_AutoRestartInterval = rs_autoRestartInterval (resolved o'),
      c_KillOldDelay = rs_killOldDelay (resolved o'),
      c_Stdout = logWriter o', c_Stderr = logWriter o'\<rparr>"

datatype option_error = ErrSignalOption string string

fun checkSignalSettings :: "bool \<Rightarrow> (string \<times> string) list \<Rightarrow> option_error option" where
  "checkSignalSettings windows [] = None"
| "checkSignalSettings windows ((opt, v) # rest) =
     (if v = [] then checkSignalSettings windows rest
      else (case SigFromName windows v of
              Inl _ \<Rightarrow> Some (ErrSignalOption opt v)
            | Inr _ \<Rightarrow> checkSignalSettings windows rest))"

definition validateSignals :: "bool \<Rightarrow> options \<Rightarrow> option_error option" where
  "validateSignals windows o' =
     checkSignalSettings windows [(''--signal-on-hup'', OptSignalOnHUP o'), (''--signal-on-term'', OptSignalOnTERM o')]"

subsection \<open>Durations\<close>

lemma wrap64_id: "- (2 ^ 63) \<le> x \<Longrightarrow> x < 2 ^ 63 \<Longrightarrow> wrap64 x = x"
  by (simp add: wrap64_def)

lemma duration_bounds: "minDurationSeconds = - 9223372036" "maxDurationSeconds = 9223372036"
  by (simp_all add: minDurationSeconds_def maxDurationSeconds_def)

lemma durationOfSeconds_exact:
  "minDurationSeconds \<le> n \<Longrightarrow> n \<le> maxDurationSeconds \<Longrightarrow> durationOfSeconds n = n * second"
  unfolding durationOfSeconds_def duration_bounds by (rule wrap64_id) simp_all

text \<open>
  Outside that range the product wraps: a \<open>--kill-old-delay\<close> of one second more than the largest
  duration is accepted and becomes a negative delay, where the same value of \<open>KILL_OLD_DELAY\<close>
  is refused.
\<close>

lemma kill_old_delay_flag_wraps:
  "resolveKillOldDelay e True (maxDurationSeconds + 1) b = Inr (- 9223372036709551616)"
  "resolveKillOldDelay [''KILL_OLD_DELAY'' \<mapsto> ''9223372037''] False 0 b = Inl (ErrKillOldDelay ''9223372037'')"
proof -
  have "parseInt 64 ''9223372037'' = Inr 9223372037" by code_simp
  then show "resolveKillOldDelay [''KILL_OLD_DELAY'' \<mapsto> ''9223372037''] False 0 b = Inl (ErrKillOldDelay ''9223372037'')"
    by (simp add: resolveKillOldDelay_def duration_bounds)
qed (simp add: resolveKillOldDelay_def durationOfSeconds_def wrap64_def duration_bounds)

subsection \<open>Precedence\<close>

lemma resolveEnableAutoRestart_Inr:
  "resolveEnableAutoRestart e s f = Inr b \<longleftrightarrow>
     (if s then b = f
      else case e ''ENABLE_AUTO_RESTART'' of None \<Rightarrow> \<not> b | Some v \<Rightarrow> parseBool v = Some b)"
  by (auto simp: resolveEnableAutoRestart_def split: option.splits)

lemma resolveAutoRestartInterval_Inr:
  "resolveAutoRestartInterval e s f = Inr d \<longleftrightarrow>
     (if s then d = (if 0 < f \<and> f \<le> maxDurationSeconds then f * second else 360 * second)
      else case e ''AUTO_RESTART_INTERVAL'' of
             None \<Rightarrow> d = 360 * second
           | Some raw \<Rightarrow> \<exists>n. parseInt 64 raw = Inr n \<and> 0 < n \<and> n \<le> maxDurationSeconds \<and> d = n * second)"
  using durationOfSeconds_exact
  by (auto simp: resolveAutoRestartInterval_def defaultAutoRestartInterval_def duration_bounds
      split: option.splits sum.splits)

lemma resolveKillOldDelay_Inr:
  "resolveKillOldDelay e s f b = Inr d \<longleftrightarrow>
     (if s then d = durationOfSeconds f
      else case e ''KILL_OLD_DELAY'' of
             None \<Rightarrow> d = (if b then 5 * second else 0)
           | Some raw \<Rightarrow> \<exists>n. parseInt 64 raw = Inr n \<and> minDurationSeconds \<le> n \<and> n \<le> maxDurationSeconds \<and>
                           d = n * second)"
  using durationOfSeconds_exact
  by (auto simp: resolveKillOldDelay_def defaultKillOldDelayWithAutoRestart_def not_less
      split: option.splits sum.splits)

lemma resolveSettings_Inr:
  "resolveSettings e opts isSet = Inr rs \<longleftrightarrow>
     rs_envdir rs = resolveEnvdir e (isSet ''envdir'') (OptEnvdir opts) \<and>
     resolveEnableAutoRestart e (isSet ''enable-auto-restart'') (OptEnableAutoRestart opts) =
       Inr (rs_enableAutoRestart rs) \<and>
     resolveAutoRestartInterval e (isSet ''auto-restart-interval'') (OptAutoRestartInterval opts) =
       Inr (rs_autoRestartInterval rs) \<and>
     resolveKillOldDelay e (isSet ''kill-old-delay'') (OptKillOldDelay opts) (rs_enableAutoRestart rs) =
       Inr (rs_killOldDelay rs)"
proof (cases "resolveEnableAutoRestart e (isSet ''enable-auto-restart'') (OptEnableAutoRestart opts)")
  case (Inr b)
  then show ?thesis
    by (cases rs, cases "rs_enableAutoRestart rs = b")
       (auto simp: resolveSettings_def Let_def split: sum.splits)
qed (simp add: resolveSettings_def)

lemma resolve_Inl:
  "resolveEnableAutoRestart e s f = Inl err \<Longrightarrow>
     \<exists>v. e ''ENABLE_AUTO_RESTART'' = Some v \<and> parseBool v = None \<and> err = ErrEnableAutoRestart v"
  "resolveAutoRestartInterval e s n = Inl err \<Longrightarrow>
     \<exists>v. e ''AUTO_RESTART_INTERVAL'' = Some v \<and>
       \<not> (\<exists>n. parseInt 64 v = Inr n \<and> 0 < n \<and> n \<le> maxDurationSeconds) \<and> err = ErrAutoRestartInterval v"
  "resolveKillOldDelay e s n b = Inl err \<Longrightarrow>
     \<exists>v. e ''KILL_OLD_DELAY'' = Some v \<and>
       \<not> (\<exists>n. parseInt 64 v = Inr n \<and> minDurationSeconds \<le> n \<and> n \<le> maxDurationSeconds) \<and> err = ErrKillOldDelay v"
  by (auto simp: resolveEnableAutoRestart_def resolveAutoRestartInterval_def resolveKillOldDelay_def
      split: sum.splits option.splits if_splits)

text \<open>The settings a user means: the flag, else the variable, else the default.\<close>

definition settingsSpec :: "env \<Rightarrow> options \<Rightarrow> (string \<Rightarrow> bool) \<Rightarrow> resolvedSettings \<Rightarrow> bool" where
  "settingsSpec e opts isSet rs \<longleftrightarrow>
     rs_envdir rs = (if isSet ''envdir'' then OptEnvdir opts
                     else case e ''ENVDIR'' of Some v \<Rightarrow> v | None \<Rightarrow> []) \<and>
     (if isSet ''enable-auto-restart'' then rs_enableAutoRestart rs = OptEnableAutoRestart opts
      else case e ''ENABLE_AUTO_RESTART'' of
             None \<Rightarrow> \<not> rs_enableAutoRestart rs
           | Some v \<Rightarrow> parseBool v = Some (rs_enableAutoRestart rs)) \<and>
     (if isSet ''auto-restart-interval'' then
        rs_autoRestartInterval rs =
          (if 0 < OptAutoRestartInterval opts \<and> OptAutoRestartInterval opts \<le> maxDurationSeconds
           then OptAutoRestartInterval opts * second else 360 * second)
      else case e ''AUTO_RESTART_INTERVAL'' of
             None \<Rightarrow> rs_autoRestartInterval rs = 360 * second
           | Some raw \<Rightarrow> \<exists>n. parseInt 64 raw = Inr n \<and> 0 < n \<and> n \<le> maxDurationSeconds \<and>
                           rs_autoRestartInterval rs = n * second) \<and>
     (if isSet ''kill-old-delay'' then rs_killOldDelay rs = durationOfSeconds (OptKillOldDelay opts)
      else case e ''KILL_OLD_DELAY'' of
             None \<Rightarrow> rs_killOldDelay rs = (if rs_enableAutoRestart rs then 5 * second else 0)
           | Some raw \<Rightarrow> \<exists>n. parseInt 64 raw = Inr n \<and> minDurationSeconds \<le> n \<and>
                           n \<le> maxDurationSeconds \<and> rs_killOldDelay rs = n * second)"

lemma resolveSettings_spec: "resolveSettings e opts isSet = Inr rs \<longleftrightarrow> settingsSpec e opts isSet rs"
  unfolding resolveSettings_Inr settingsSpec_def resolveEnableAutoRestart_Inr
    resolveAutoRestartInterval_Inr resolveKillOldDelay_Inr resolveEnvdir_def getenv_def
  by (rule refl)

lemma settingsSpec_interval:
  "settingsSpec e opts isSet rs \<Longrightarrow>
   second \<le> rs_autoRestartInterval rs \<and> rs_autoRestartInterval rs \<le> maxDurationSeconds * second"
  unfolding settingsSpec_def duration_bounds
  by (cases "e ''AUTO_RESTART_INTERVAL''"; cases "isSet ''auto-restart-interval''") (auto split: if_splits)

lemma resolveSettings_Inl:
  "resolveSettings e opts isSet = Inl err \<Longrightarrow>
   resolveEnableAutoRestart e (isSet ''enable-auto-restart'') (OptEnableAutoRestart opts) = Inl err \<or>
   resolveAutoRestartInterval e (isSet ''auto-restart-interval'') (OptAutoRestartInterval opts) = Inl err \<or>
   (\<exists>b. resolveKillOldDelay e (isSet ''kill-old-delay'') (OptKillOldDelay opts) b = Inl err)"
  unfolding resolveSettings_def Let_def by (auto split: sum.splits)

text \<open>The flag of each setting and its variable.\<close>

definition settingNames :: "(string \<times> string) list" where
  "settingNames = [(''envdir'', ''ENVDIR''), (''enable-auto-restart'', ''ENABLE_AUTO_RESTART''),
     (''auto-restart-interval'', ''AUTO_RESTART_INTERVAL''), (''kill-old-delay'', ''KILL_OLD_DELAY'')]"

text \<open>
  C39: what the settings resolve to, when none of them is given both as a flag and as a variable.
  A setting given as a flag has the flag's value, one given as a variable the variable's, and one
  that is not given its default, where an interval flag that is not a positive number of seconds
  within the range of durations counts as not given; resolution fails only for a variable
  whose value is invalid, and the error names it. The automatic restart interval is always between
  a second and the largest duration. A kill-old delay within the range of durations is taken
  exactly, negative ones included, whichever way it is given; a variable outside that range is
  refused.
\<close>

theorem resolveSettings_exact:
  assumes "\<forall>(flag, var) \<in> set settingNames. \<not> (isSet flag \<and> e var \<noteq> None)"
  shows "(resolveSettings e opts isSet = Inr rs \<longleftrightarrow> settingsSpec e opts isSet rs) \<and>
   (resolveSettings e opts isSet = Inr rs \<longrightarrow>
      second \<le> rs_autoRestartInterval rs \<and> rs_autoRestartInterval rs \<le> maxDurationSeconds * second \<and>
      (\<forall>n. minDurationSeconds \<le> n \<and> n \<le> maxDurationSeconds \<and>
         (isSet ''kill-old-delay'' \<and> OptKillOldDelay opts = n \<or>
          (\<exists>raw. e ''KILL_OLD_DELAY'' = Some raw \<and> parseInt 64 raw = Inr n)) \<longrightarrow>
         rs_killOldDelay rs = n * second)) \<and>
   (resolveSettings e opts isSet = Inl err \<longrightarrow>
      (\<exists>v. e ''ENABLE_AUTO_RESTART'' = Some v \<and> parseBool v = None \<and> err = ErrEnableAutoRestart v) \<or>
      (\<exists>v. e ''AUTO_RESTART_INTERVAL'' = Some v \<and>
         \<not> (\<exists>n. parseInt 64 v = Inr n \<and> 0 < n \<and> n \<le> maxDurationSeconds) \<and> err = ErrAutoRestartInterval v) \<or>
      (\<exists>v. e ''KILL_OLD_DELAY'' = Some v \<and>
         \<not> (\<exists>n. parseInt 64 v = Inr n \<and> minDurationSeconds \<le> n \<and> n \<le> maxDurationSeconds) \<and> err = ErrKillOldDelay v))"
proof (intro conjI impI)
  show "resolveSettings e opts isSet = Inr rs \<longleftrightarrow> settingsSpec e opts isSet rs"
    by (rule resolveSettings_spec)
next
  assume "resolveSettings e opts isSet = Inr rs"
  then have s: "settingsSpec e opts isSet rs" by (simp only: resolveSettings_spec)
  then show "second \<le> rs_autoRestartInterval rs" "rs_autoRestartInterval rs \<le> maxDurationSeconds * second"
    by (simp_all only: settingsSpec_interval)
  have "\<not> (isSet ''kill-old-delay'' \<and> e ''KILL_OLD_DELAY'' \<noteq> None)" using assms by (simp add: settingNames_def)
  with s show "\<forall>n. minDurationSeconds \<le> n \<and> n \<le> maxDurationSeconds \<and>
         (isSet ''kill-old-delay'' \<and> OptKillOldDelay opts = n \<or>
          (\<exists>raw. e ''KILL_OLD_DELAY'' = Some raw \<and> parseInt 64 raw = Inr n)) \<longrightarrow>
         rs_killOldDelay rs = n * second"
    by (auto simp: settingsSpec_def durationOfSeconds_exact)
next
  assume "resolveSettings e opts isSet = Inl err"
  from resolveSettings_Inl [OF this]
  show "(\<exists>v. e ''ENABLE_AUTO_RESTART'' = Some v \<and> parseBool v = None \<and> err = ErrEnableAutoRestart v) \<or>
      (\<exists>v. e ''AUTO_RESTART_INTERVAL'' = Some v \<and>
         \<not> (\<exists>n. parseInt 64 v = Inr n \<and> 0 < n \<and> n \<le> maxDurationSeconds) \<and> err = ErrAutoRestartInterval v) \<or>
      (\<exists>v. e ''KILL_OLD_DELAY'' = Some v \<and>
         \<not> (\<exists>n. parseInt 64 v = Inr n \<and> minDurationSeconds \<le> n \<and> n \<le> maxDurationSeconds) \<and> err = ErrKillOldDelay v)"
    by (elim disjE exE) (blast dest: resolve_Inl)+
qed

text \<open>
  When a setting is given both ways, the flag wins, as the comments of \<open>resolveSettings\<close> say and
  against the help text of the four options, which says that the variable does.
\<close>

lemma flag_overrides_variable:
  "isSet ''envdir'' \<Longrightarrow> resolveSettings e opts isSet = Inr rs \<Longrightarrow> rs_envdir rs = OptEnvdir opts"
  "isSet ''enable-auto-restart'' \<Longrightarrow> resolveSettings e opts isSet = Inr rs \<Longrightarrow>
     rs_enableAutoRestart rs = OptEnableAutoRestart opts"
  "isSet ''kill-old-delay'' \<Longrightarrow> resolveSettings e opts isSet = Inr rs \<Longrightarrow>
     rs_killOldDelay rs = durationOfSeconds (OptKillOldDelay opts)"
  by (simp_all add: resolveSettings_spec settingsSpec_def)

definition sampleOptions :: options where
  "sampleOptions = \<lparr>OptArgs = [], OptCommand = [], OptDir = ''/srv'', OptInterval = 1,
     OptPorts = [''8080''], OptPaths = [], OptSignalOnHUP = ''usr1'', OptSignalOnTERM = [],
     OptPidFile = [], OptStatusFile = [], OptLogFile = [], OptDaemonize = False, OptEnvdir = ''/etc/env'',
     OptEnableAutoRestart = True, OptAutoRestartInterval = 0, OptKillOldDelay = 7, OptRestart = False,
     OptStop = False, OptHelp = False, OptVersion = False,
     resolved = \<lparr>rs_envdir = [], rs_enableAutoRestart = False, rs_autoRestartInterval = 0, rs_killOldDelay = 0\<rparr>,
     logWriter = None\<rparr>"

theorem resolveSettings_exact_witness:
  "\<exists>rs. resolveSettings [''AUTO_RESTART_INTERVAL'' \<mapsto> ''60''] sampleOptions
        (\<lambda>f. f \<in> {''envdir'', ''enable-auto-restart'', ''kill-old-delay''}) = Inr rs \<and>
      rs_envdir rs = ''/etc/env'' \<and> rs_enableAutoRestart rs \<and> rs_autoRestartInterval rs = 60 * second \<and>
      rs_killOldDelay rs = 7 * second"
proof -
  let ?e = "[''AUTO_RESTART_INTERVAL'' \<mapsto> ''60'']"
  let ?s = "\<lambda>f. f \<in> {''envdir'', ''enable-auto-restart'', ''kill-old-delay''}"
  let ?rs = "\<lparr>rs_envdir = ''/etc/env'', rs_enableAutoRestart = True,
      rs_autoRestartInterval = 60 * second, rs_killOldDelay = durationOfSeconds 7\<rparr>"
  have once: "\<forall>(flag, var) \<in> set settingNames. \<not> (?s flag \<and> ?e var \<noteq> None)" by (simp add: settingNames_def)
  note exact = resolveSettings_exact [OF once]
  have "parseInt 64 ''60'' = Inr 60" by code_simp
  then have "settingsSpec ?e sampleOptions ?s ?rs"
    by (simp add: settingsSpec_def sampleOptions_def duration_bounds)
  then have r: "resolveSettings ?e sampleOptions ?s = Inr ?rs" using exact by blast
  moreover have "?s ''kill-old-delay''" "OptKillOldDelay sampleOptions = 7" "minDurationSeconds \<le> 7" "7 \<le> maxDurationSeconds"
    by (simp_all add: sampleOptions_def duration_bounds)
  then have "rs_killOldDelay ?rs = 7 * second" using exact r by blast
  ultimately show ?thesis by (intro exI [of _ ?rs]) simp
qed

end
