(* ===== verification/Daemon.thy ===== *)
theory Daemon
  imports StatusFile
begin

text \<open>
  Daemonizing (\<open>internal/cli/daemon.go\<close>): the environment of the detached child, the pipe on
  which the child reports its startup result, and the frame that travels on it. A reader is the
  bytes that will still arrive and how the stream ends; a writer is the list of its answers to
  the successive \<open>Write\<close> calls, and it accepts everything once the list is used up.
\<close>

unbundle bit_operations_syntax

definition daemonizedEnv :: string where
  "daemonizedEnv = ''SERVER_STARTER_DAEMONIZED''"

definition daemonReadinessEnv :: string where
  "daemonReadinessEnv = ''SERVER_STARTER_DAEMON_READY_FD''"

definition daemonReadinessFD :: int where
  "daemonReadinessFD = 3"

definition daemonReady :: char where
  "daemonReady = CHR 0x01"

definition daemonFailed :: char where
  "daemonFailed = CHR 0x02"

definition daemonStatusHeaderSize :: nat where
  "daemonStatusHeaderSize = 1 + 8"

definition maxDaemonStatusBodySize :: "64 word" where
  "maxDaemonStatusBodySize = push_bit 20 16"

subsection \<open>Big-endian numbers\<close>

text \<open>\<open>binary.BigEndian.PutUint64\<close> and \<open>Uint64\<close>.\<close>

definition putUint64 :: "64 word \<Rightarrow> string" where
  "putUint64 w = map (\<lambda>i. char_of (unat (drop_bit (8 * i) w))) [7, 6, 5, 4, 3, 2, 1, 0]"

definition getUint64 :: "string \<Rightarrow> 64 word" where
  "getUint64 b = foldl (\<lambda>a c. push_bit 8 a OR word_of_nat (of_char c)) 0 b"

lemma length_putUint64 [simp]: "length (putUint64 w) = 8"
  by (simp add: putUint64_def)

lemma word_of_byte: "(word_of_nat (unat (w :: 64 word) mod 256) :: 64 word) = take_bit 8 w"
proof -
  have "unat (take_bit 8 w) = take_bit 8 (unat w)"
    by (simp only: unsigned_take_bit_eq)
  also have "\<dots> = unat w mod 256" by (simp add: take_bit_eq_mod)
  finally show ?thesis by (metis of_nat_unat ucast_id)
qed

lemma byte_join: "push_bit 8 (drop_bit (k + 8) w) OR take_bit 8 (drop_bit k w) = drop_bit k (w :: 64 word)"
  by (rule bit_word_eqI) (auto simp: bit_simps)

lemma getUint64_putUint64 [simp]: "getUint64 (putUint64 w) = w"
proof -
  let ?b = "\<lambda>k. take_bit 8 (drop_bit k w)"
  have top: "?b 56 = drop_bit 56 w"
    by (rule bit_word_eqI) (auto simp: bit_simps dest: bit_imp_le_length)
  have "getUint64 (putUint64 w) =
    push_bit 8 (push_bit 8 (push_bit 8 (push_bit 8 (push_bit 8 (push_bit 8 (push_bit 8
      (?b 56) OR ?b 48) OR ?b 40) OR ?b 32) OR ?b 24) OR ?b 16) OR ?b 8) OR ?b 0"
    by (simp add: getUint64_def putUint64_def word_of_byte push_bit_or del: push_bit_push_bit)
  also have "\<dots> = w"
    using byte_join [of 48 w] byte_join [of 40 w] byte_join [of 32 w] byte_join [of 24 w]
      byte_join [of 16 w] byte_join [of 8 w] byte_join [of 0 w] top
    by simp
  finally show ?thesis .
qed

lemma unat_of_char: "unat (word_of_nat (of_char c) :: 64 word) = of_char c"
proof -
  have "of_char c < (2 :: nat) ^ 64" by (rule less_trans [OF nat_of_char_less_256]) simp
  then show ?thesis by (simp add: unat_of_nat)
qed

lemma byte_of_low: "take_bit 8 x = word_of_nat (of_char c) \<Longrightarrow> char_of (unat (x :: 64 word)) = c"
proof -
  assume a: "take_bit 8 x = word_of_nat (of_char c)"
  have "take_bit 8 (unat x) = unat (take_bit 8 x)" by (simp only: unsigned_take_bit_eq)
  also have "\<dots> = of_char c"
    by (simp only: a unat_of_char)
  finally show ?thesis by (metis char_of_take_bit_eq char_of_char le_refl)
qed

lemma bit_of_char: "bit (word_of_nat (of_char c) :: 64 word) n \<Longrightarrow> n < 8"
proof -
  let ?w = "word_of_nat (of_char c) :: 64 word"
  assume "bit ?w n"
  moreover have "?w < 2 ^ 8" by (simp add: word_less_nat_alt unat_of_char)
  then have "take_bit 8 ?w = ?w" by (simp add: less_mask_eq take_bit_eq_mask)
  ultimately show ?thesis by (metis bit_take_bit_iff)
qed

lemma byte_select:
  fixes a w :: "64 word"
  assumes "\<And>n. bit w n \<Longrightarrow> n < 8"
  shows "take_bit 8 (push_bit 8 a OR w) = w"
    and "k \<le> 48 \<Longrightarrow> take_bit 8 (drop_bit (k + 8) (push_bit 8 a OR w)) = take_bit 8 (drop_bit k a)"
  by (rule bit_word_eqI, use assms in \<open>auto simp: bit_simps\<close>)
     (rule bit_word_eqI, use assms in \<open>fastforce simp: bit_simps\<close>)

lemma getUint64_byte:
  "j < length b \<Longrightarrow> j < 8 \<Longrightarrow>
   take_bit 8 (drop_bit (8 * j) (getUint64 b)) = word_of_nat (of_char (rev b ! j))"
proof (induction b arbitrary: j rule: rev_induct)
  case (snoc c b)
  have g: "getUint64 (b @ [c]) = push_bit 8 (getUint64 b) OR word_of_nat (of_char c)"
    by (simp add: getUint64_def)
  show ?case
  proof (cases j)
    case 0
    then show ?thesis unfolding g using byte_select(1) [OF bit_of_char] by simp
  next
    case (Suc i)
    then have e: "8 * j = 8 * i + 8" by simp
    from Suc snoc.prems have "i < length b" "i < 8" "8 * i \<le> 48" by simp_all
    have "take_bit 8 (drop_bit (8 * j) (getUint64 (b @ [c]))) = take_bit 8 (drop_bit (8 * i) (getUint64 b))"
      unfolding g e by (rule byte_select(2) [OF bit_of_char \<open>8 * i \<le> 48\<close>])
    also have "\<dots> = word_of_nat (of_char (rev b ! i))"
      using \<open>i < length b\<close> \<open>i < 8\<close> by (rule snoc.IH)
    finally show ?thesis by (simp add: Suc)
  qed
qed simp

lemma putUint64_getUint64:
  assumes "length b = 8"
  shows "putUint64 (getUint64 b) = b"
proof -
  have "\<forall>j \<in> set [7, 6, 5, 4, 3, 2, 1, 0]. char_of (unat (drop_bit (8 * j) (getUint64 b))) = rev b ! j"
  proof (intro ballI byte_of_low)
    fix j :: nat
    assume "j \<in> set [7, 6, 5, 4, 3, 2, 1, 0]"
    then have "j < 8" by auto
    with assms show "take_bit 8 (drop_bit (8 * j) (getUint64 b)) = word_of_nat (of_char (rev b ! j))"
      by (intro getUint64_byte) simp_all
  qed
  then have "putUint64 (getUint64 b) = map (\<lambda>j. rev b ! j) [7, 6, 5, 4, 3, 2, 1, 0]"
    unfolding putUint64_def by (simp only: map_eq_conv)
  also have "\<dots> = b" using assms by (auto simp: eval_nat_numeral length_Suc_conv)
  finally show ?thesis .
qed

subsection \<open>The frame\<close>

datatype write_error =
    ErrWrite string
  | ErrShortWrite
  | ErrClose string

type_synonym writer = "(nat \<times> string option) list"

fun writeDaemonStatusBytes :: "writer \<Rightarrow> string \<Rightarrow> string \<times> writer \<times> write_error option" where
  "writeDaemonStatusBytes ws [] = ([], ws, None)"
| "writeDaemonStatusBytes [] (x # xs) = (x # xs, [], None)"
| "writeDaemonStatusBytes ((n, e) # ws) (x # xs) =
     (case e of
        Some err \<Rightarrow> (take n (x # xs), ws, Some (ErrWrite err))
      | None \<Rightarrow>
          if n = 0 then ([], ws, Some ErrShortWrite)
          else (case writeDaemonStatusBytes ws (drop n (x # xs)) of
                  (out, ws', r) \<Rightarrow> (take n (x # xs) @ out, ws', r)))"

definition writeDaemonStatus :: "writer \<Rightarrow> char \<Rightarrow> string \<Rightarrow> string \<times> writer \<times> write_error option" where
  "writeDaemonStatus ws status body =
     (let header = status # putUint64 (of_nat (length body)) in
      case writeDaemonStatusBytes ws header of
        (out, ws', Some e) \<Rightarrow> (out, ws', Some e)
      | (out, ws', None) \<Rightarrow>
          (case writeDaemonStatusBytes ws' body of (out2, ws2, r) \<Rightarrow> (out @ out2, ws2, r)))"

datatype read_end = EndEOF | EndErr string

datatype read_error = RdEOF | RdUnexpectedEOF | RdErr string

type_synonym reader = "string \<times> read_end"

text \<open>\<open>io.ReadFull\<close> into a buffer of n bytes: the bytes read, the error and what is left.\<close>

definition readFull :: "nat \<Rightarrow> reader \<Rightarrow> string \<times> read_error option \<times> reader" where
  "readFull n r =
     (if n \<le> length (fst r) then (take n (fst r), None, (drop n (fst r), snd r))
      else (fst r,
            Some (case snd r of
                    EndErr e \<Rightarrow> RdErr e
                  | EndEOF \<Rightarrow> if fst r = [] then RdEOF else RdUnexpectedEOF),
            ([], snd r)))"

datatype daemon_error =
    ErrExitedEarly
  | ErrReadStatus read_error
  | ErrInvalidReadiness
  | ErrInvalidStartup
  | ErrStatusLimit
  | ErrStartupFailed string
  | ErrPipe string
  | ErrStart string
  | ErrClosePipe string "string option"
  | ErrRelease string
  | ErrDaemonUnsupported

definition daemonStatusHasTrailingData :: "reader \<Rightarrow> daemon_error + bool" where
  "daemonStatusHasTrailingData r =
     (case readFull 1 r of (extra, err, r') \<Rightarrow>
        if extra \<noteq> [] then Inr True
        else (case err of
                Some RdEOF \<Rightarrow> Inr False
              | Some e \<Rightarrow> Inl (ErrReadStatus e)
              | None \<Rightarrow> Inr False))"

text \<open>
  \<open>None\<close> is success. \<open>ErrStartupFailed []\<close> is the message without a reason. The slice of the
  body is allocated only within the limit, so its length is the number in the header.
\<close>

definition readDaemonStatus :: "reader \<Rightarrow> daemon_error option" where
  "readDaemonStatus reader =
     (case readFull daemonStatusHeaderSize reader of
        (header, Some err, r1) \<Rightarrow>
          if header = [] \<and> err = RdEOF then Some ErrExitedEarly else Some (ErrReadStatus err)
      | (header, None, r1) \<Rightarrow>
          let bodySize = getUint64 (tl header) in
          if hd header = daemonReady then
            (if bodySize \<noteq> 0 then Some ErrInvalidReadiness
             else (case daemonStatusHasTrailingData r1 of
                     Inl e \<Rightarrow> Some e
                   | Inr True \<Rightarrow> Some ErrInvalidReadiness
                   | Inr False \<Rightarrow> None))
          else if hd header = daemonFailed then
            (if bodySize > maxDaemonStatusBodySize then Some ErrStatusLimit
             else (case readFull (unat bodySize) r1 of
                     (body, Some err, r2) \<Rightarrow> Some (ErrReadStatus err)
                   | (body, None, r2) \<Rightarrow>
                       (case daemonStatusHasTrailingData r2 of
                          Inl e \<Rightarrow> Some e
                        | Inr True \<Rightarrow> Some ErrInvalidStartup
                        | Inr False \<Rightarrow> Some (ErrStartupFailed body))))
          else Some ErrInvalidStartup)"

subsection \<open>The child\<close>

text \<open>
  The descriptor of the pipe, while it is still open, and whether it closes when the process
  executes another program, as a worker does. On Windows the call that arranges this does
  nothing.
\<close>

record daemonReadiness =
  rd_file :: "fd option"
  rd_cloexec :: bool

definition closeDaemonReadinessOnExec_unix :: "daemonReadiness \<Rightarrow> daemonReadiness" where
  [simp]: "closeDaemonReadinessOnExec_unix r = r\<lparr>rd_cloexec := True\<rparr>"

definition closeDaemonReadinessOnExec_windows :: "daemonReadiness \<Rightarrow> daemonReadiness" where
  [simp]: "closeDaemonReadinessOnExec_windows r = r"

definition closeDaemonReadinessOnExec :: "bool \<Rightarrow> daemonReadiness \<Rightarrow> daemonReadiness" where
  "closeDaemonReadinessOnExec windows r =
     (if windows then closeDaemonReadinessOnExec_windows r else closeDaemonReadinessOnExec_unix r)"

definition active :: "daemonReadiness \<Rightarrow> bool" where
  "active r \<longleftrightarrow> rd_file r \<noteq> None"

datatype readiness_error =
    ErrClearDescriptor string
  | ErrInvalidDescriptor string
  | ErrOpenDescriptor int

text \<open>
  The environment is changed by \<open>os.Unsetenv\<close>, whose possible error is a parameter;
  \<open>os.NewFile\<close> returns nil for a negative descriptor.
\<close>

definition childDaemonReadiness ::
  "bool \<Rightarrow> string option \<Rightarrow> env \<Rightarrow> env \<times> (readiness_error + daemonReadiness)" where
  "childDaemonReadiness windows unsetErr e =
     (if e daemonizedEnv \<noteq> Some ''1'' then (e, Inr \<lparr>rd_file = None, rd_cloexec = False\<rparr>)
      else (case e daemonReadinessEnv of
              None \<Rightarrow> (e, Inr \<lparr>rd_file = None, rd_cloexec = False\<rparr>)
            | Some v \<Rightarrow>
                (case unsetErr of
                   Some err \<Rightarrow> (e, Inl (ErrClearDescriptor err))
                 | None \<Rightarrow>
                     let e' = e(daemonReadinessEnv := None) in
                     (case atoi v of
                        Inl _ \<Rightarrow> (e', Inl (ErrInvalidDescriptor v))
                      | Inr n \<Rightarrow>
                          if n < daemonReadinessFD then (e', Inl (ErrInvalidDescriptor v))
                          else if n < 0 then (e', Inl (ErrOpenDescriptor n))
                          else (e', Inr (closeDaemonReadinessOnExec windows \<lparr>rd_file = Some n, rd_cloexec = False\<rparr>))))))"

text \<open>
  \<open>report\<close> writes one frame and closes the pipe: the bytes that reached it, the joined errors
  and the cleared handle.
\<close>

definition report ::
  "writer \<Rightarrow> string option \<Rightarrow> daemonReadiness \<Rightarrow> char \<Rightarrow> string \<Rightarrow>
   string \<times> write_error list \<times> daemonReadiness" where
  "report ws closeErr r status body =
     (case writeDaemonStatus ws status body of (out, ws', we) \<Rightarrow>
        (out,
         (case we of None \<Rightarrow> [] | Some e \<Rightarrow> [e]) @
         (case closeErr of None \<Rightarrow> [] | Some e \<Rightarrow> [ErrClose e]),
         r\<lparr>rd_file := None\<rparr>))"

definition ready ::
  "writer \<Rightarrow> string option \<Rightarrow> daemonReadiness \<Rightarrow> string \<times> write_error list \<times> daemonReadiness" where
  "ready ws closeErr r =
     (if rd_file r = None then ([], [], r) else report ws closeErr r daemonReady [])"

definition failed ::
  "writer \<Rightarrow> string option \<Rightarrow> daemonReadiness \<Rightarrow> string \<Rightarrow> string \<times> daemonReadiness" where
  "failed ws closeErr r err =
     (if rd_file r = None then ([], r)
      else (case report ws closeErr r daemonFailed err of (out, _, r') \<Rightarrow> (out, r')))"

subsection \<open>The launcher\<close>

definition daemonEnvironment :: "string list \<Rightarrow> string list" where
  "daemonEnvironment environ =
     filter (\<lambda>entry. \<not> (hasPrefix entry (daemonizedEnv @ ''='') \<or>
                         hasPrefix entry (daemonReadinessEnv @ ''=''))) environ @
     [daemonizedEnv @ ''=1'', daemonReadinessEnv @ ''='' @ itoa daemonReadinessFD]"

text \<open>What the system answers to the launcher; the status is what the pipe delivers.\<close>

record launch =
  la_windows :: bool
  la_pipeErr :: "string option"
  la_startErr :: "string option"
  la_closeErr :: "string option"
  la_status :: reader
  la_releaseErr :: "string option"

text \<open>The attributes of the child: it gets a session of its own, which Windows does not have.\<close>

record sysProcAttr =
  Setsid :: bool

definition daemonSysProcAttr_unix :: "daemon_error + sysProcAttr" where
  [simp]: "daemonSysProcAttr_unix = Inr \<lparr>Setsid = True\<rparr>"

definition daemonSysProcAttr_windows :: "daemon_error + sysProcAttr" where
  [simp]: "daemonSysProcAttr_windows = Inl ErrDaemonUnsupported"

definition daemonSysProcAttr :: "bool \<Rightarrow> daemon_error + sysProcAttr" where
  "daemonSysProcAttr windows = (if windows then daemonSysProcAttr_windows else daemonSysProcAttr_unix)"

datatype launcherEffect =
    LaPipe
  | LaStart sysProcAttr "string list" "fd list"
  | LaCloseWriter
  | LaReadStatus
  | LaRelease
  | LaCloseReader

text \<open>
  The launcher: the system calls in order and the error. \<open>LaStart\<close> names the attributes, the
  environment of the child and the descriptors that its \<open>ExtraFiles\<close> become.
\<close>

definition daemonize :: "launch \<Rightarrow> string list \<Rightarrow> launcherEffect list \<times> daemon_error option" where
  "daemonize a environ =
     (case daemonSysProcAttr (la_windows a) of Inl e \<Rightarrow> ([], Some e) | Inr attr \<Rightarrow>
      case la_pipeErr a of
        Some e \<Rightarrow> ([LaPipe], Some (ErrPipe e))
      | None \<Rightarrow>
          let start = LaStart attr (daemonEnvironment environ) [3] in
          (case la_startErr a of
             Some e \<Rightarrow> ([LaPipe, start, LaCloseWriter, LaCloseReader], Some (ErrStart e))
           | None \<Rightarrow>
               (case la_closeErr a of
                  Some e \<Rightarrow>
                    ([LaPipe, start, LaCloseWriter, LaRelease, LaCloseReader],
                     Some (ErrClosePipe e (la_releaseErr a)))
                | None \<Rightarrow>
                    ([LaPipe, start, LaCloseWriter, LaReadStatus, LaRelease, LaCloseReader],
                     (case readDaemonStatus (la_status a) of
                        Some e \<Rightarrow> Some e
                      | None \<Rightarrow> map_option ErrRelease (la_releaseErr a))))))"

subsection \<open>The frame: lemmas\<close>

definition daemonFrame :: "char \<Rightarrow> string \<Rightarrow> string" where
  "daemonFrame status body = (status # putUint64 (of_nat (length body))) @ body"

lemma writeBytes_prefix:
  "writeDaemonStatusBytes ws data = (out, ws', r) \<Longrightarrow> prefix out data \<and> (r = None \<longrightarrow> out = data)"
proof (induction ws data arbitrary: out ws' r rule: writeDaemonStatusBytes.induct)
  case (3 n e ws x xs)
  show ?case
  proof (cases "e = None \<and> n \<noteq> 0")
    case True
    obtain o2 w2 r2 where w: "writeDaemonStatusBytes ws (drop n (x # xs)) = (o2, w2, r2)"
      by (metis prod_cases3)
    with 3 True have "prefix o2 (drop n (x # xs)) \<and> (r2 = None \<longrightarrow> o2 = drop n (x # xs))" by blast
    moreover have "out = take n (x # xs) @ o2" "r = r2" using 3(2) w True by auto
    ultimately show ?thesis
      by (metis append_take_drop_id same_prefix_prefix)
  next
    case False
    with 3(2) show ?thesis by (auto split: option.splits if_splits simp: take_is_prefix)
  qed
qed auto

lemma writeDaemonStatus_prefix:
  assumes "writeDaemonStatus ws status body = (out, ws', r)"
  shows "prefix out (daemonFrame status body) \<and> (r = None \<longrightarrow> out = daemonFrame status body)"
proof -
  let ?h = "status # putUint64 (of_nat (length body))"
  obtain o1 w1 r1 where h: "writeDaemonStatusBytes ws ?h = (o1, w1, r1)" by (metis prod_cases3)
  note p1 = writeBytes_prefix [OF h]
  show ?thesis
  proof (cases r1)
    case (Some e)
    with assms h have "out = o1" "r = Some e" by (simp_all add: writeDaemonStatus_def)
    with p1 show ?thesis unfolding daemonFrame_def by (metis option.distinct(1) prefix_prefix)
  next
    case None
    obtain o2 w2 r2 where b: "writeDaemonStatusBytes w1 body = (o2, w2, r2)" by (metis prod_cases3)
    with writeBytes_prefix [OF b] assms h p1 None show ?thesis
      unfolding writeDaemonStatus_def daemonFrame_def by auto
  qed
qed

lemma trailing_EOF: "daemonStatusHasTrailingData (xs, EndEOF) = Inr (xs \<noteq> [])"
  by (cases xs) (simp_all add: daemonStatusHasTrailingData_def readFull_def)

lemma trailing_False_iff: "daemonStatusHasTrailingData r = Inr False \<longleftrightarrow> r = ([], EndEOF)"
  by (cases r; cases "fst r"; cases "snd r") (auto simp: daemonStatusHasTrailingData_def readFull_def)

lemma readFull_frame:
  "readFull daemonStatusHeaderSize (daemonFrame status body @ rest, e) =
     (status # putUint64 (of_nat (length body)), None, (body @ rest, e))"
  by (simp add: readFull_def daemonStatusHeaderSize_def daemonFrame_def)

lemma body_size:
  assumes "int (length body) \<le> uint maxDaemonStatusBodySize"
  shows "unat (of_nat (length body) :: 64 word) = length body"
    "\<not> (of_nat (length body) :: 64 word) > maxDaemonStatusBodySize"
proof -
  have m: "uint maxDaemonStatusBodySize = 16777216" by (simp add: maxDaemonStatusBodySize_def)
  with assms have l: "length body \<le> 16777216" by simp
  then have "length body < 2 ^ 64" by (rule le_less_trans) simp
  then show u: "unat (of_nat (length body) :: 64 word) = length body" by (simp add: unat_of_nat)
  have "unat maxDaemonStatusBodySize = 16777216" by (simp add: maxDaemonStatusBodySize_def)
  with u l show "\<not> (of_nat (length body) :: 64 word) > maxDaemonStatusBodySize"
    by (simp add: word_less_nat_alt not_less word_le_nat_alt)
qed

lemma readDaemonStatus_None_iff:
  "readDaemonStatus (data, e) = None \<longleftrightarrow> data = daemonFrame daemonReady [] \<and> e = EndEOF"
proof
  assume "data = daemonFrame daemonReady [] \<and> e = EndEOF"
  then show "readDaemonStatus (data, e) = None"
    using readFull_frame [of daemonReady "[]" "[]"]
    by (simp add: readDaemonStatus_def Let_def trailing_EOF)
next
  assume a: "readDaemonStatus (data, e) = None"
  then have l: "9 \<le> length data"
    by (auto simp: readDaemonStatus_def readFull_def daemonStatusHeaderSize_def split: if_splits)
  define header where "header = take 9 data"
  have hl: "length header = 9" using l by (simp add: header_def)
  from a l have h: "hd header = daemonReady" "getUint64 (tl header) = 0"
      "daemonStatusHasTrailingData (drop 9 data, e) = Inr False"
    by (auto simp: readDaemonStatus_def readFull_def daemonStatusHeaderSize_def Let_def header_def
        split: if_splits sum.splits bool.splits)
  from h(2) putUint64_getUint64 [of "tl header"] hl have "tl header = putUint64 0" by simp
  with h(1) hl have "header = daemonFrame daemonReady []"
    by (cases header) (simp_all add: daemonFrame_def)
  with h(3) show "data = daemonFrame daemonReady [] \<and> e = EndEOF"
    unfolding trailing_False_iff header_def by (metis append_Nil2 append_take_drop_id prod.inject)
qed

lemma readDaemonStatus_failed:
  assumes "int (length body) \<le> uint maxDaemonStatusBodySize"
  shows "readDaemonStatus (daemonFrame daemonFailed body, EndEOF) = Some (ErrStartupFailed body)"
  using readFull_frame [of daemonFailed body "[]"] body_size [OF assms]
  by (simp add: readDaemonStatus_def Let_def daemonFailed_def daemonReady_def trailing_EOF readFull_def)

lemma readDaemonStatus_truncated:
  assumes "strict_prefix p (daemonFrame status body)" and "status = daemonReady \<longrightarrow> body = []"
    and "status \<in> {daemonReady, daemonFailed}"
    and "int (length body) \<le> uint maxDaemonStatusBodySize"
  shows "readDaemonStatus (p, EndEOF) =
    Some (if p = [] then ErrExitedEarly
          else ErrReadStatus (if length p = daemonStatusHeaderSize then RdEOF else RdUnexpectedEOF))"
proof (cases "length p < 9")
  case True
  then show ?thesis
    by (auto simp: readDaemonStatus_def readFull_def daemonStatusHeaderSize_def)
next
  case False
  let ?h = "status # putUint64 (of_nat (length body))"
  from assms(1) obtain q where q: "daemonFrame status body = p @ q" "q \<noteq> []"
    by (auto simp: strict_prefix_def prefix_def)
  from False have tp: "take 9 p = ?h" "drop 9 p @ q = body"
    using arg_cong [OF q(1), of "take 9"] arg_cong [OF q(1), of "drop 9"] by (auto simp: daemonFrame_def)
  with q(2) assms(2,3) have "status = daemonFailed" "length (drop 9 p) < length body" by auto
  then show ?thesis
    using False tp(1) body_size [OF assms(4)]
    by (auto simp: readDaemonStatus_def readFull_def daemonStatusHeaderSize_def Let_def
        daemonFailed_def daemonReady_def)
qed

subsection \<open>The handshake\<close>

lemma report_out:
  "report ws ce r status body = (out, errs, r') \<Longrightarrow>
   prefix out (daemonFrame status body) \<and> (errs = [] \<longrightarrow> out = daemonFrame status body) \<and> \<not> active r'"
  using writeDaemonStatus_prefix [of ws status body]
  by (auto simp: report_def active_def split: prod.splits option.splits)

text \<open>
  C38: the startup handshake. The launcher succeeds exactly when the system is not Windows, every system call succeeds and
  the pipe delivers one complete readiness frame and then ends. A child that reports readiness
  without an error has written that frame. A child that reports a failure, however much of the
  report gets through, is never taken for a ready one, and a complete report of at most 16 MiB
  arrives word for word. A child that dies without reporting is recognised as such.
\<close>

theorem daemon_handshake:
  "(snd (daemonize a environ) = None \<longleftrightarrow>
      \<not> la_windows a \<and> la_pipeErr a = None \<and> la_startErr a = None \<and> la_closeErr a = None \<and> la_releaseErr a = None \<and>
      la_status a = (daemonFrame daemonReady [], EndEOF)) \<and>
   (active r \<and> ready ws ce r = (out, [], r') \<longrightarrow> readDaemonStatus (out, EndEOF) = None) \<and>
   (active r \<and> failed wsf cf r err = (outf, rf) \<longrightarrow>
      readDaemonStatus (outf, e) \<noteq> None \<and>
      (outf = daemonFrame daemonFailed err \<and> e = EndEOF \<and>
         int (length err) \<le> uint maxDaemonStatusBodySize \<longrightarrow>
       readDaemonStatus (outf, e) = Some (ErrStartupFailed err))) \<and>
   (strict_prefix p (daemonFrame daemonFailed err) \<and> int (length err) \<le> uint maxDaemonStatusBodySize \<longrightarrow>
      readDaemonStatus (p, EndEOF) =
        Some (if p = [] then ErrExitedEarly
              else ErrReadStatus (if length p = daemonStatusHeaderSize then RdEOF else RdUnexpectedEOF)))"
proof (intro conjI impI)
  show "snd (daemonize a environ) = None \<longleftrightarrow>
      \<not> la_windows a \<and> la_pipeErr a = None \<and> la_startErr a = None \<and> la_closeErr a = None \<and> la_releaseErr a = None \<and>
      la_status a = (daemonFrame daemonReady [], EndEOF)"
    using readDaemonStatus_None_iff [of "fst (la_status a)" "snd (la_status a)"]
    by (auto simp: daemonize_def daemonSysProcAttr_def Let_def prod_eq_iff split: option.splits)
next
  assume "active r \<and> ready ws ce r = (out, [], r')"
  then show "readDaemonStatus (out, EndEOF) = None"
    using report_out [of ws ce r daemonReady "[]" out "[]" r']
    by (auto simp: ready_def active_def readDaemonStatus_None_iff)
next
  assume a: "active r \<and> failed wsf cf r err = (outf, rf)"
  then obtain errs where "report wsf cf r daemonFailed err = (outf, errs, rf)"
    by (auto simp: failed_def active_def split: prod.splits)
  then have "prefix outf (daemonFrame daemonFailed err)" using report_out by blast
  then have "outf \<noteq> daemonFrame daemonReady []"
    by (auto simp: daemonFrame_def daemonReady_def daemonFailed_def)
  then show "readDaemonStatus (outf, e) \<noteq> None" by (simp add: readDaemonStatus_None_iff)
next
  assume "outf = daemonFrame daemonFailed err \<and> e = EndEOF \<and>
    int (length err) \<le> uint maxDaemonStatusBodySize"
  then show "readDaemonStatus (outf, e) = Some (ErrStartupFailed err)"
    by (simp add: readDaemonStatus_failed)
next
  assume "strict_prefix p (daemonFrame daemonFailed err) \<and> int (length err) \<le> uint maxDaemonStatusBodySize"
  then show "readDaemonStatus (p, EndEOF) =
        Some (if p = [] then ErrExitedEarly
              else ErrReadStatus (if length p = daemonStatusHeaderSize then RdEOF else RdUnexpectedEOF))"
    by (intro readDaemonStatus_truncated) (auto simp: daemonReady_def daemonFailed_def)
qed

definition pipeEnd :: daemonReadiness where
  "pipeEnd = \<lparr>rd_file = Some 3, rd_cloexec = True\<rparr>"

theorem daemon_handshake_witness:
  "readDaemonStatus (fst (ready [(4, None)] None pipeEnd), EndEOF) = None \<and>
   readDaemonStatus (fst (failed [(20, Some ''EPIPE'')] None pipeEnd ''no such file''), EndEOF) \<noteq> None \<and>
   readDaemonStatus (fst (failed [] None pipeEnd ''no such file''), EndEOF) = Some (ErrStartupFailed ''no such file'') \<and>
   readDaemonStatus (daemonFrame daemonFailed [], EndEOF) = Some (ErrStartupFailed [])"
proof -
  let ?err = "''no such file''"
  have act: "active pipeEnd" and len: "int (length ?err) \<le> uint maxDaemonStatusBodySize"
    by (simp_all add: active_def pipeEnd_def maxDaemonStatusBodySize_def)
  have r: "ready [(4, None)] None pipeEnd = (daemonFrame daemonReady [], [], \<lparr>rd_file = None, rd_cloexec = True\<rparr>)"
    and f: "failed [] None pipeEnd ?err = (daemonFrame daemonFailed ?err, \<lparr>rd_file = None, rd_cloexec = True\<rparr>)"
    by (simp_all add: ready_def failed_def pipeEnd_def report_def writeDaemonStatus_def daemonFrame_def
        putUint64_def)
  obtain ot rf where "failed [(20, Some ''EPIPE'')] None pipeEnd ?err = (ot, rf)" by (metis surj_pair)
  with act r f len show ?thesis
    using daemon_handshake [where r = pipeEnd and ws = "[(4, None)]" and ce = None and out = "daemonFrame daemonReady []"
        and r' = "\<lparr>rd_file = None, rd_cloexec = True\<rparr>" and wsf = "[]" and cf = None and err = ?err
        and outf = "daemonFrame daemonFailed ?err" and rf = "\<lparr>rd_file = None, rd_cloexec = True\<rparr>" and e = EndEOF]
      daemon_handshake [where r = pipeEnd and wsf = "[(20, Some ''EPIPE'')]" and cf = None and err = ?err
        and outf = ot and rf = rf and e = EndEOF]
      readDaemonStatus_failed [of "[]"]
    by (simp add: maxDaemonStatusBodySize_def)
qed

lemma lookup_filter:
  assumes "\<And>kv. P kv \<or> (\<exists>k' v. kv = k' @ CHR ''='' # v \<and> CHR ''='' \<notin> set k' \<and> k' \<noteq> k)"
  shows "lookupEnviron (filter P kvs) k = lookupEnviron kvs k"
proof (induction kvs)
  case (Cons kv kvs)
  then show ?case using assms [of kv] by (auto simp: goCut_append split: option.splits)
qed simp

lemma lookup_append:
  "lookupEnviron (xs @ ys) k = (case lookupEnviron xs k of Some v \<Rightarrow> Some v | None \<Rightarrow> lookupEnviron ys k)"
  by (induction xs) (auto split: option.splits)

lemma lookup_filtered_out:
  assumes "\<And>v. \<not> P (k @ CHR ''='' # v)"
  shows "lookupEnviron (filter P kvs) k = None"
  using assms by (induction kvs) (auto simp: goCut_Some split: option.splits)

lemma itoa_readinessFD: "itoa 3 = ''3''" "daemonReadinessFD = 3"
  by code_simp+

lemma daemonEnvironment_lookup:
  "lookupEnviron (daemonEnvironment environ) k =
     (if k = daemonizedEnv then Some ''1'' else if k = daemonReadinessEnv then Some ''3''
      else lookupEnviron environ k)"
proof -
  let ?P = "\<lambda>entry. \<not> (hasPrefix entry (daemonizedEnv @ ''='') \<or> hasPrefix entry (daemonReadinessEnv @ ''=''))"
  let ?add = "[daemonizedEnv @ ''=1'', daemonReadinessEnv @ ''='' @ itoa daemonReadinessFD]"
  have ne: "CHR ''='' \<notin> set daemonizedEnv" "CHR ''='' \<notin> set daemonReadinessEnv"
    and d: "daemonizedEnv \<noteq> daemonReadinessEnv"
    by (simp_all add: daemonizedEnv_def daemonReadinessEnv_def)
  have add: "lookupEnviron ?add k =
      (if k = daemonizedEnv then Some ''1'' else if k = daemonReadinessEnv then Some ''3'' else None)"
    using ne d by (simp add: goCut_append itoa_readinessFD)
  show ?thesis
  proof (cases "k \<in> {daemonizedEnv, daemonReadinessEnv}")
    case True
    then have "lookupEnviron (filter ?P environ) k = None"
      by (intro lookup_filtered_out) (auto simp: hasPrefix_iff)
    with True show ?thesis unfolding daemonEnvironment_def lookup_append add by auto
  next
    case False
    then have "lookupEnviron (filter ?P environ) k = lookupEnviron environ k"
      using ne by (intro lookup_filter) (force simp: hasPrefix_iff)
    with False show ?thesis unfolding daemonEnvironment_def lookup_append add
      by (auto split: option.splits)
  qed
qed

text \<open>
  The child that the launcher starts always finds the pipe at descriptor 3, whatever stale
  values the environment of the launcher held, removes the variable before anything else reads
  it, and keeps every other variable; a process that was not started that way has no pipe, so
  its reports are no-ops; the pipe closes in every program the child executes; a descriptor below 3 or an unreadable number is refused.
\<close>

theorem child_finds_pipe:
  "(\<exists>e'. childDaemonReadiness False None (lookupEnviron (daemonEnvironment environ)) = (e', Inr pipeEnd) \<and>
     e' daemonReadinessEnv = None \<and> e' daemonizedEnv = Some ''1'' \<and>
     (\<forall>k. k \<notin> {daemonizedEnv, daemonReadinessEnv} \<longrightarrow> e' k = lookupEnviron environ k)) \<and>
   (e daemonizedEnv \<noteq> Some ''1'' \<or> e daemonReadinessEnv = None \<longrightarrow>
      (\<exists>r. childDaemonReadiness False u e = (e, Inr r) \<and> \<not> active r \<and>
           ready ws ce r = ([], [], r) \<and> failed ws ce r msg = ([], r))) \<and>
   (childDaemonReadiness False u e = (ea, Inr ra) \<and> active ra \<longrightarrow>
      (\<exists>n \<ge> 3. rd_file ra = Some n) \<and> rd_cloexec ra \<and> ea = e(daemonReadinessEnv := None))"
proof -
  have at: "atoi ''3'' = Inr 3" using atoi_itoa [of daemonReadinessFD] by (simp add: in64_def itoa_readinessFD)
  have d: "daemonizedEnv \<noteq> daemonReadinessEnv" by (simp add: daemonizedEnv_def daemonReadinessEnv_def)
  show ?thesis
    using at d
    by (auto simp: childDaemonReadiness_def daemonEnvironment_lookup active_def ready_def failed_def
        daemonReadinessFD_def pipeEnd_def closeDaemonReadinessOnExec_def Let_def split: option.splits sum.splits if_splits)
qed

theorem child_finds_pipe_witness:
  "snd (childDaemonReadiness False None (lookupEnviron (daemonEnvironment [''A=1'', ''SERVER_STARTER_DAEMON_READY_FD=99'']))) =
     Inr pipeEnd \<and>
   (\<exists>r. childDaemonReadiness False None Map.empty = (Map.empty, Inr r) \<and> \<not> active r) \<and> rd_cloexec pipeEnd"
proof -
  let ?env = "[''A=1'', ''SERVER_STARTER_DAEMON_READY_FD=99'']"
  note c = child_finds_pipe [where environ = ?env and e = Map.empty and u = None]
  have "snd (childDaemonReadiness False None (lookupEnviron (daemonEnvironment ?env))) = Inr pipeEnd"
    using c by (metis snd_conv)
  moreover have "\<exists>r. childDaemonReadiness False None Map.empty = (Map.empty, Inr r) \<and> \<not> active r"
    using c by (metis option.distinct(1))
  ultimately show ?thesis by (simp add: pipeEnd_def)
qed

end
