(* ===== verification/Help.thy ===== *)
theory Help
  imports Settings
begin

text \<open>
  The help text (\<open>showHelp\<close> in \<open>internal/cli/help.go\<close>): the options are listed in the order of the
  original program, with what their struct tags in \<open>options.go\<close> say. The tags are transcribed
  field by field; the theorem says that the list of names and the struct stay in step.
\<close>

text \<open>A tag as the pairs it consists of; \<open>Get\<close> of an absent key is empty.\<close>

type_synonym tag = "(string \<times> string) list"

definition tagGet :: "tag \<Rightarrow> string \<Rightarrow> string" where
  "tagGet t k = (case map_of t k of Some v \<Rightarrow> v | None \<Rightarrow> [])"

definition optionFields :: "(string \<times> tag) list" where
  "optionFields = [
    (''OptArgs'', []),
    (''OptCommand'', []),
    (''OptDir'', [(''long'', ''dir''),
       (''arg'', ''path''),
       (''description'', ''working directory, start_server do chdir to before exec (optional)'')]),
    (''OptInterval'', [(''long'', ''interval''),
       (''arg'', ''seconds''),
       (''description'', ''minimum interval (in seconds) to respawn the server program (default: 1)'')]),
    (''OptPorts'', [(''long'', ''port''),
       (''arg'', ''target[=fd]''),
       (''description'', ''TCP target or a UDP target using uPORT or host:uPORT; address components cannot contain ';' or '='; explicit'' @ [newline] @ ''descriptors must be 3..1024 and may leave at most 256 unused slots (optional)'')]),
    (''OptPaths'', [(''long'', ''path''),
       (''arg'', ''path''),
       (''description'', ''path at which to listen using a unix socket; ';' and '=' are not allowed (optional)'')]),
    (''OptSignalOnHUP'', [(''long'', ''signal-on-hup''),
       (''arg'', ''Signal''),
       (''description'', ''name of the signal to be sent to the server process when start_server'' @ [newline] @ ''receives a SIGHUP (default: TERM; unknown names are rejected). If you use'' @ [newline] @ ''this option, be sure to also use '--signal-on-term' below.'')]),
    (''OptSignalOnTERM'', [(''long'', ''signal-on-term''),
       (''arg'', ''Signal''),
       (''description'', ''name of the signal to be sent to the server process when start_server'' @ [newline] @ ''receives a SIGTERM (default: TERM; unknown names are rejected)'')]),
    (''OptPidFile'', [(''long'', ''pid-file''),
       (''arg'', ''filename''),
       (''description'', ''if set, writes the process id of the start_server process to the file'')]),
    (''OptStatusFile'', [(''long'', ''status-file''),
       (''arg'', ''filename''),
       (''description'', ''if set, writes the status of the server process(es) to the file'')]),
    (''OptLogFile'', [(''long'', ''log-file''),
       (''arg'', ''filename''),
       (''description'', ''if set, appends standard output and standard error to the file'')]),
    (''OptDaemonize'', [(''long'', ''daemonize''),
       (''description'', ''start the server in the background'')]),
    (''OptEnvdir'', [(''long'', ''envdir''),
       (''arg'', ''Envdir''),
       (''description'', ''directory that contains environment variables to the server processes.'' @ [newline] @ ''It is intended for use with '' @ [CHR 0x22] @ ''envdir'' @ [CHR 0x22] @ '' in '' @ [CHR 0x22] @ ''daemontools'' @ [CHR 0x22] @ ''. This can be'' @ [newline] @ ''overwritten by environment variable '' @ [CHR 0x22] @ ''ENVDIR'' @ [CHR 0x22] @ ''.'')]),
    (''OptEnableAutoRestart'', [(''long'', ''enable-auto-restart''),
       (''description'', ''enables automatic restart by time. This can be overwritten by'' @ [newline] @ ''environment variable '' @ [CHR 0x22] @ ''ENABLE_AUTO_RESTART'' @ [CHR 0x22] @ ''.'')]),
    (''OptAutoRestartInterval'', [(''long'', ''auto-restart-interval''),
       (''arg'', ''seconds''),
       (''description'', ''automatic restart interval (default 360). It is used with'' @ [newline] @ [CHR 0x22] @ ''--enable-auto-restart'' @ [CHR 0x22] @ '' option. This can be overwritten by environment'' @ [newline] @ ''variable '' @ [CHR 0x22] @ ''AUTO_RESTART_INTERVAL'' @ [CHR 0x22] @ ''.'')]),
    (''OptKillOldDelay'', [(''long'', ''kill-old-delay''),
       (''arg'', ''seconds''),
       (''description'', ''time to suspend to send a signal to the old worker. The default value is'' @ [newline] @ ''5 when '' @ [CHR 0x22] @ ''--enable-auto-restart'' @ [CHR 0x22] @ '' is set, 0 otherwise. This can be'' @ [newline] @ ''overwritten by environment variable '' @ [CHR 0x22] @ ''KILL_OLD_DELAY'' @ [CHR 0x22] @ ''.'')]),
    (''OptRestart'', [(''long'', ''restart''),
       (''description'', ''this is a wrapper command that reads the pid of the start_server process'' @ [newline] @ ''from --pid-file, sends SIGHUP to the process and waits until the'' @ [newline] @ ''server(s) of the older generation(s) die by monitoring the contents of'' @ [newline] @ ''the --status-file. Cannot be used with --stop'')]),
    (''OptStop'', [(''long'', ''stop''),
       (''description'', ''reads the pid from --pid-file, sends SIGTERM, and waits for the process to exit.'' @ [newline] @ ''Cannot be used with --restart'')]),
    (''OptHelp'', [(''long'', ''help''),
       (''description'', ''prints this help'')]),
    (''OptVersion'', [(''long'', ''version''),
       (''description'', ''prints the version number'')])
   ]"

definition usageText :: string where
  "usageText = goJoin newline [
     [],
     ''Usage:'',
     ''      start_server [options] -- server-prog server-arg1 server-arg2 ...'',
     [],
     ''      # start Plack using Starlet listening at TCP port 8000'',
     ''      start_server --port=8000 -- plackup -s Starlet --max-workers=100 index.psgi'',
     [],
     ''Options:'',
     []
   ]"

definition helpNames :: "string list" where
  "helpNames = [''OptPorts'',
     ''OptPaths'',
     ''OptDir'',
     ''OptInterval'',
     ''OptSignalOnHUP'',
     ''OptSignalOnTERM'',
     ''OptPidFile'',
     ''OptStatusFile'',
     ''OptLogFile'',
     ''OptDaemonize'',
     ''OptEnvdir'',
     ''OptEnableAutoRestart'',
     ''OptAutoRestartInterval'',
     ''OptKillOldDelay'',
     ''OptRestart'',
     ''OptStop'',
     ''OptHelp'',
     ''OptVersion'']"

definition helpHeadline :: "tag \<Rightarrow> string" where
  "helpHeadline t =
     (let s = tagGet t ''long'' in
      if s = [] then []
      else ''  --'' @ s @ (let a = tagGet t ''arg'' in if a \<noteq> [] then ''='' @ a else []) @
           (if tagGet t ''note'' = ''unimplemented'' then '' (UNIMPLEMENTED)'' else []) @ '':'' @ [newline])"

definition helpEntry :: "string \<Rightarrow> string" where
  "helpEntry name =
     (case map_of optionFields name of
        None \<Rightarrow> []
      | Some t \<Rightarrow>
          if t = [] then []
          else helpHeadline t @
               concat (map (\<lambda>l. ''    '' @ l @ [newline]) (goSplit newline (tagGet t ''description''))) @ [newline])"

definition showHelp :: string where
  "showHelp = usageText @ concat (map helpEntry helpNames)"

subsection \<open>The text lists the options\<close>

lemma helpNames_distinct: "distinct helpNames"
  by code_simp

lemma helpNames_known:
  "list_all (\<lambda>n. case map_of optionFields n of Some t \<Rightarrow> tagGet t ''long'' \<noteq> [] | None \<Rightarrow> False) helpNames"
  by code_simp

lemma fields_named: "list_all (\<lambda>(n, t). tagGet t ''long'' \<noteq> [] \<longrightarrow> n \<in> set helpNames) optionFields"
  by code_simp

lemma helpNames_set: "set helpNames = {n. \<exists>t. (n, t) \<in> set optionFields \<and> tagGet t ''long'' \<noteq> []}"
proof -
  have "\<exists>t. (n, t) \<in> set optionFields \<and> tagGet t ''long'' \<noteq> []" if "n \<in> set helpNames" for n
  proof -
    have c: "case map_of optionFields n of Some t \<Rightarrow> tagGet t ''long'' \<noteq> [] | None \<Rightarrow> False"
      using helpNames_known that unfolding list_all_iff by (rule bspec)
    then obtain t where "map_of optionFields n = Some t" by (cases "map_of optionFields n") simp_all
    with c show ?thesis using map_of_SomeD by fastforce
  qed
  moreover have "n \<in> set helpNames" if "(n, t) \<in> set optionFields" "tagGet t ''long'' \<noteq> []" for n t
    using bspec [OF fields_named [unfolded list_all_iff] that(1)] that(2) by simp
  ultimately show ?thesis by blast
qed

text \<open>A text that ends with a line break is split line by line.\<close>

definition wholeLines :: "string \<Rightarrow> bool" where
  "wholeLines s \<longleftrightarrow> s \<noteq> [] \<and> last s = newline"

lemma goSplit_append: "goSplit c (a @ c # b) = goSplit c a @ goSplit c b"
  by (induction a) (auto simp: neq_Nil_conv split: list.splits)

lemma split_wholeLines:
  assumes "wholeLines s"
  shows "goSplit newline (s @ t) = butlast (goSplit newline s) @ goSplit newline t"
proof -
  from assms obtain r where s: "s = r @ [newline]" by (metis append_butlast_last_id wholeLines_def)
  then have "goSplit newline s = goSplit newline r @ [[]]" using goSplit_append [of newline r "[]"] by simp
  with s show ?thesis using goSplit_append [of newline r t] by simp
qed

lemma split_concat:
  assumes "\<forall>s \<in> set ss. wholeLines s"
  shows "goSplit newline (concat ss) = concat (map (\<lambda>s. butlast (goSplit newline s)) ss) @ [[]]"
  using assms by (induction ss) (simp_all add: split_wholeLines)

lemma usage_lines: "wholeLines usageText \<and> filter (\<lambda>l. hasPrefix l ''  --'') (butlast (goSplit newline usageText)) = []"
  by code_simp

text \<open>
  An entry is its heading followed by the indented lines of the description; the indentation is
  four spaces, so none of them can be taken for a heading.
\<close>

lemma helpNames_plain:
  "list_all (\<lambda>n. case map_of optionFields n of
      Some t \<Rightarrow> tagGet t ''long'' \<noteq> [] \<and> newline \<notin> set (tagGet t ''long'') \<and> newline \<notin> set (tagGet t ''arg'')
    | None \<Rightarrow> False) helpNames"
  by code_simp

lemma headline_line:
  assumes "tagGet t ''long'' \<noteq> []" and "newline \<notin> set (tagGet t ''long'')" and "newline \<notin> set (tagGet t ''arg'')"
  shows "\<exists>h. helpHeadline t = h @ [newline] \<and> newline \<notin> set h \<and> hasPrefix h ''  --''"
proof -
  let ?h = "''  --'' @ tagGet t ''long'' @ (if tagGet t ''arg'' \<noteq> [] then ''='' @ tagGet t ''arg'' else []) @
      (if tagGet t ''note'' = ''unimplemented'' then '' (UNIMPLEMENTED)'' else []) @ '':''"
  have "helpHeadline t = ?h @ [newline]" using assms(1) by (simp add: helpHeadline_def Let_def)
  moreover have "newline \<notin> set ?h" using assms(2,3) by simp
  moreover have "hasPrefix ?h ''  --''" by (simp add: hasPrefix_iff)
  ultimately show ?thesis by blast
qed

lemma description_lines:
  "\<forall>l \<in> set ls. newline \<notin> set l \<Longrightarrow>
     goSplit newline (concat (map (\<lambda>l. ''    '' @ l @ [newline]) ls) @ [newline]) = map (\<lambda>l. ''    '' @ l) ls @ [[], []]"
proof (induction ls)
  case (Cons l ls)
  then have "newline \<notin> set (''    '' @ l)" by simp
  from goSplit_append_sep [OF this] Cons show ?case by simp
qed simp

lemma entry_lines:
  assumes "n \<in> set helpNames"
  shows "wholeLines (helpEntry n) \<and> filter (\<lambda>l. hasPrefix l ''  --'') (butlast (goSplit newline (helpEntry n))) =
      [butlast (helpHeadline (the (map_of optionFields n)))]"
proof -
  have c: "case map_of optionFields n of
      Some t \<Rightarrow> tagGet t ''long'' \<noteq> [] \<and> newline \<notin> set (tagGet t ''long'') \<and> newline \<notin> set (tagGet t ''arg'')
    | None \<Rightarrow> False"
    using helpNames_plain assms unfolding list_all_iff by (rule bspec)
  then obtain t where t: "map_of optionFields n = Some t" by (cases "map_of optionFields n") simp_all
  with c obtain h where h: "helpHeadline t = h @ [newline]" "newline \<notin> set h" "hasPrefix h ''  --''"
    using headline_line [of t] by auto
  have "t \<noteq> []" using c t by (auto simp: tagGet_def)
  let ?ls = "goSplit newline (tagGet t ''description'')"
  let ?body = "concat (map (\<lambda>l. ''    '' @ l @ [newline]) ?ls) @ [newline]"
  have e: "helpEntry n = h @ newline # ?body" using t h(1) \<open>t \<noteq> []\<close> by (simp add: helpEntry_def)
  have "goSplit newline (helpEntry n) = h # map (\<lambda>l. ''    '' @ l) ?ls @ [[], []]"
    unfolding e goSplit_append_sep [OF h(2)] by (subst description_lines) (auto dest: goSplit_parts_no_sep)
  moreover have "\<not> hasPrefix (''    '' @ l) ''  --''" "\<not> hasPrefix [] ''  --''" for l
    by (simp_all add: hasPrefix_def)
  ultimately have "filter (\<lambda>l. hasPrefix l ''  --'') (butlast (goSplit newline (helpEntry n))) = [h]"
    using h(3) by (simp add: butlast_append filter_map comp_def)
  with t h(1) show ?thesis by (simp add: wholeLines_def e)
qed

lemma helpHeadlines:
  "filter (\<lambda>l. hasPrefix l ''  --'') (goSplit newline showHelp) =
     map (\<lambda>n. butlast (helpHeadline (the (map_of optionFields n)))) helpNames"
proof -
  let ?P = "\<lambda>l. hasPrefix l ''  --''"
  have "filter ?P (concat (map (\<lambda>n. butlast (goSplit newline (helpEntry n))) ns)) =
      map (\<lambda>n. butlast (helpHeadline (the (map_of optionFields n)))) ns"
    if "\<forall>n \<in> set ns. filter ?P (butlast (goSplit newline (helpEntry n))) = [butlast (helpHeadline (the (map_of optionFields n)))]" for ns
    using that by (induction ns) simp_all
  moreover have "goSplit newline showHelp = butlast (goSplit newline usageText) @
      concat (map (\<lambda>n. butlast (goSplit newline (helpEntry n))) helpNames) @ [[]]"
    using usage_lines entry_lines unfolding showHelp_def
    by (simp add: split_wholeLines split_concat comp_def)
  ultimately show ?thesis using usage_lines entry_lines by (simp add: hasPrefix_def)
qed

text \<open>
  The help is complete and in step with the options. Every option that has a long name on the
  command line is listed under exactly one heading, nothing else is, and the headings stand in
  the text in the order of the list, each with the argument its tag names.
\<close>

theorem showHelp_complete:
  "distinct helpNames \<and> set helpNames = {n. \<exists>t. (n, t) \<in> set optionFields \<and> tagGet t ''long'' \<noteq> []} \<and>
   filter (\<lambda>l. hasPrefix l ''  --'') (goSplit newline showHelp) =
     map (\<lambda>n. butlast (helpHeadline (the (map_of optionFields n)))) helpNames"
  using helpNames_distinct helpNames_set helpHeadlines by (intro conjI)

end
