(* ===== verification/Cli.thy ===== *)
theory Cli
  imports Settings Daemon Control Help Run
begin

text \<open>
  The command (\<open>internal/cli/cli.go\<close>): the dispatch from a parsed command line to help, version,
  the control commands, the launcher of a daemon or the supervisor, the exit codes, the report
  of the daemonized child to its launcher, and the goroutine that turns signals into requests to
  the supervisor. Parsing the command line is go-flags' work and a parameter, as are the texts of
  errors; the control commands and the supervisor are the components modelled elsewhere.
\<close>

datatype cli_error =
    CliSettings settings_error
  | CliNoProgram
  | CliLogFile string
  | CliStarter starter_error
  | CliRunErr run_error

text \<open>
  What surrounds one execution. \<open>cw_parse\<close> is \<open>None\<close> when go-flags refuses the command line,
  otherwise the remaining arguments, the options and the flags that were given. \<open>cw_run\<close> is
  \<open>Run\<close> (with \<open>False\<close>) or \<open>RunWithStartupCheck\<close> of a starter: \<open>None\<close> while it has not
  returned, an error, or what \<open>Wait\<close> of the controller gives.
\<close>

record cliWorld =
  cw_environ :: "string list"
  cw_unsetErr :: "string option"
  cw_parse :: "(string list \<times> options \<times> (string \<Rightarrow> bool)) option"
  cw_stop :: "string \<Rightarrow> control_error option option"
  cw_restart :: "string \<Rightarrow> string \<Rightarrow> control_error option option"
  cw_launch :: launch
  cw_openLog :: "string \<Rightarrow> string + nat"
  cw_lookPath :: "string \<Rightarrow> string + string"
  cw_paths :: pathLib
  cw_run :: "bool \<Rightarrow> Starter \<Rightarrow> (run_error + run_error option option) option"
  cw_writes :: writer
  cw_closeErr :: "string option"
  cw_text :: "cli_error \<Rightarrow> string"

datatype cliEffect =
    CfHelp string
  | CfVersion
  | CfStderr
  | CfStop string
  | CfRestart string string
  | CfLaunch "launcherEffect list"
  | CfReport string
  | CfOpenLog string
  | CfRun bool Starter
  | CfControllerReady
  | CfCancel
  | CfWait

definition validateControlActions :: "options \<Rightarrow> bool" where
  "validateControlActions opts \<longleftrightarrow> \<not> (OptStop opts \<and> OptRestart opts)"

text \<open>The closure \<open>failStartup\<close>: the report, if there is a launcher, and the message.\<close>

definition reportFailed :: "cliWorld \<Rightarrow> daemonReadiness \<Rightarrow> cli_error \<Rightarrow> cliEffect list" where
  "reportFailed w rd err =
     (if active rd then [CfReport (fst (failed (cw_writes w) (cw_closeErr w) rd (cw_text w err)))] else [])"

definition failStartup :: "cliWorld \<Rightarrow> daemonReadiness \<Rightarrow> cli_error \<Rightarrow> cliEffect list \<times> int option" where
  "failStartup w rd err = (reportFailed w rd err @ [CfStderr], Some 1)"

definition controlActions :: "cliWorld \<Rightarrow> options \<Rightarrow> cliEffect list \<times> int option" where
  "controlActions w opts =
     (if OptPidFile opts = [] then ([CfStderr], Some 1)
      else
        (case (if OptStop opts then (CfStop (OptPidFile opts), cw_stop w (OptPidFile opts))
               else (CfRestart (OptPidFile opts) (OptStatusFile opts),
                     cw_restart w (OptPidFile opts) (OptStatusFile opts))) of
           (ef, None) \<Rightarrow> ([ef], None)
         | (ef, Some (Some e)) \<Rightarrow> ([ef, CfStderr], Some 1)
         | (ef, Some None) \<Rightarrow> ([ef], Some 0)))"

text \<open>From the running supervisor to the exit code.\<close>

definition waitSupervisor :: "cliWorld \<Rightarrow> daemonReadiness \<Rightarrow> run_error option option \<Rightarrow> cliEffect list \<times> int option" where
  "waitSupervisor w rd waited =
     (case ready (cw_writes w) (cw_closeErr w) rd of
        (out, errs, rd') \<Rightarrow>
          let rep = (if active rd then [CfReport out] else []) in
          if errs \<noteq> [] then
            (CfControllerReady # rep @ [CfCancel, CfWait] @ (if waited = None then [] else [CfStderr]),
             if waited = None then None else Some 1)
          else
            (case waited of
               None \<Rightarrow> (CfControllerReady # rep @ [CfWait], None)
             | Some (Some e) \<Rightarrow>
                 if e \<noteq> ErrServerClosed then (CfControllerReady # rep @ [CfWait, CfStderr], Some 1)
                 else (CfControllerReady # rep @ [CfWait], Some 0)
             | Some None \<Rightarrow> (CfControllerReady # rep @ [CfWait], Some 0)))"

definition superviseOpts :: "cliWorld \<Rightarrow> daemonReadiness \<Rightarrow> options \<Rightarrow> cliEffect list \<times> int option" where
  "superviseOpts w rd opts =
     (case NewStarter (la_windows (cw_launch w)) (cw_lookPath w) (cw_paths w) (Some (optionsConfig (la_windows (cw_launch w)) opts)) of
        Inl e \<Rightarrow> failStartup w rd (CliStarter e)
      | Inr s \<Rightarrow>
          (case cw_run w (active rd) s of
             None \<Rightarrow> ([CfRun (active rd) s], None)
           | Some (Inl e) \<Rightarrow>
               (case failStartup w rd (CliRunErr e) of (es, c) \<Rightarrow> (CfRun (active rd) s # es, c))
           | Some (Inr waited) \<Rightarrow>
               (case waitSupervisor w rd waited of (es, c) \<Rightarrow> (CfRun (active rd) s # es, c))))"

definition runProgram :: "cliWorld \<Rightarrow> daemonReadiness \<Rightarrow> string list \<Rightarrow> options \<Rightarrow> cliEffect list \<times> int option" where
  "runProgram w rd argv opts =
     (case argv of
        [] \<Rightarrow> (reportFailed w rd CliNoProgram @ [CfStderr], Some 1)
      | cmd # rest \<Rightarrow>
          let opts1 = opts\<lparr>OptCommand := cmd\<rparr>;
              opts2 = (if rest \<noteq> [] then opts1\<lparr>OptArgs := rest\<rparr> else opts1) in
          if OptLogFile opts2 \<noteq> [] then
            (case cw_openLog w (OptLogFile opts2) of
               Inl e \<Rightarrow> (case failStartup w rd (CliLogFile e) of (es, c) \<Rightarrow> (CfOpenLog (OptLogFile opts2) # es, c))
             | Inr f \<Rightarrow>
                 (case superviseOpts w rd (opts2\<lparr>logWriter := Some f\<rparr>) of
                    (es, c) \<Rightarrow> (CfOpenLog (OptLogFile opts2) # es, c)))
          else superviseOpts w rd opts2)"

definition launchDaemon :: "cliWorld \<Rightarrow> cliEffect list \<times> int option" where
  "launchDaemon w =
     (case daemonize (cw_launch w) (cw_environ w) of
        (ls, Some e) \<Rightarrow> ([CfLaunch ls, CfStderr], Some 1)
      | (ls, None) \<Rightarrow> ([CfLaunch ls], Some 0))"

text \<open>The effects in order and the exit code, \<open>None\<close> while the process has not ended.\<close>

definition cliRun :: "cliWorld \<Rightarrow> cliEffect list \<times> int option" where
  "cliRun w =
     (case childDaemonReadiness (la_windows (cw_launch w)) (cw_unsetErr w) (lookupEnviron (cw_environ w)) of
        (e, Inl _) \<Rightarrow> ([CfStderr], Some 1)
      | (e, Inr rd) \<Rightarrow>
          (case cw_parse w of None \<Rightarrow> ([CfHelp showHelp], Some 1) | Some (argv, opts0, isSet) \<Rightarrow>
           if OptHelp opts0 then ([CfHelp showHelp], Some 0)
           else if \<not> validateControlActions opts0 then ([CfStderr], Some 1)
           else if OptVersion opts0 then ([CfVersion], Some 0)
           else if validateSignals (la_windows (cw_launch w)) opts0 \<noteq> None then ([CfStderr], Some 1)
           else
             let opts = (if OptInterval opts0 < 0 then opts0\<lparr>OptInterval := 1\<rparr> else opts0) in
             if OptStop opts \<or> OptRestart opts then controlActions w opts
             else
               (case resolveSettings e opts isSet of
                  Inl err \<Rightarrow> failStartup w rd (CliSettings err)
                | Inr rs \<Rightarrow>
                    let opts' = opts\<lparr>resolved := rs\<rparr> in
                    if OptDaemonize opts' \<and> getenv e daemonizedEnv \<noteq> ''1'' then launchDaemon w
                    else runProgram w rd argv opts')))"

text \<open>The process: \<open>main\<close> exits with the code that \<open>Run\<close> returns.\<close>

definition start_server_main :: "cliWorld \<Rightarrow> int option" where
  "start_server_main w = snd (cliRun w)"

subsection \<open>Signals\<close>

datatype watchEvent =
    WsCtxDone
  | WsDone
  | WsController
  | WsSignal Signal

datatype watchAction = WaHangup | WaCancel

text \<open>
  The goroutine, given what its \<open>select\<close> receives in order; the flags tell whether it has
  the controller and whether a hangup is pending.
\<close>

fun watchSignals :: "bool \<Rightarrow> bool \<Rightarrow> watchEvent list \<Rightarrow> watchAction list" where
  "watchSignals ctrl pendingHUP [] = []"
| "watchSignals ctrl pendingHUP (WsCtxDone # evs) = []"
| "watchSignals ctrl pendingHUP (WsDone # evs) = []"
| "watchSignals ctrl pendingHUP (WsController # evs) =
     (if pendingHUP then WaHangup # watchSignals True False evs else watchSignals True pendingHUP evs)"
| "watchSignals ctrl pendingHUP (WsSignal sig # evs) =
     (if sig = SIGHUP then
        (if \<not> ctrl then watchSignals ctrl True evs else WaHangup # watchSignals ctrl pendingHUP evs)
      else [WaCancel])"

subsection \<open>The daemonized child\<close>

text \<open>The bytes of the reports on the readiness pipe.\<close>

definition reports :: "cliEffect list \<Rightarrow> string list" where
  "reports es = concat (map (\<lambda>e. case e of CfReport out \<Rightarrow> [out] | _ \<Rightarrow> []) es)"

lemma reports_simps [simp]:
  "reports [] = []" "reports (a @ b) = reports a @ reports b" "reports (CfReport out # es) = out # reports es"
  "reports (CfStderr # es) = reports es" "reports (CfRun c s # es) = reports es" "reports (CfOpenLog f # es) = reports es"
  "reports (CfControllerReady # es) = reports es" "reports (CfCancel # es) = reports es" "reports (CfWait # es) = reports es"
  by (simp_all add: reports_def)

text \<open>
  What the child owes its launcher: one report, of readiness exactly when the supervisor runs,
  or none yet because the startup check has not finished.
\<close>

definition reportsOnce :: "cliEffect list \<times> int option \<Rightarrow> bool" where
  "reportsOnce r \<longleftrightarrow>
     (\<exists>out. reports (fst r) = [out] \<and>
        (if CfControllerReady \<in> set (fst r) then prefix out (daemonFrame daemonReady [])
         else \<exists>text. prefix out (daemonFrame daemonFailed text))) \<or>
     (reports (fst r) = [] \<and> snd r = None \<and> (\<exists>s. last (fst r) = CfRun True s) \<and> CfControllerReady \<notin> set (fst r))"

lemma failed_prefix:
  "active rd \<Longrightarrow> prefix (fst (failed ws ce rd msg)) (daemonFrame daemonFailed msg)"
  using report_out [of ws ce rd daemonFailed msg]
  by (auto simp: failed_def active_def split: prod.splits)

lemma failStartup_reports: "active rd \<Longrightarrow> reportsOnce (failStartup w rd err)"
  using failed_prefix [of rd "cw_writes w" "cw_closeErr w" "cw_text w err"]
  by (auto simp: reportsOnce_def failStartup_def reportFailed_def)

lemma waitSupervisor_reports:
  assumes "active rd"
  shows "reportsOnce (waitSupervisor w rd waited) \<and> CfControllerReady \<in> set (fst (waitSupervisor w rd waited))"
proof -
  obtain out errs rd' where r: "ready (cw_writes w) (cw_closeErr w) rd = (out, errs, rd')" by (metis prod_cases3)
  have "prefix out (daemonFrame daemonReady [])"
    using report_out [of "cw_writes w" "cw_closeErr w" rd daemonReady "[]" out errs rd'] r assms
    by (auto simp: ready_def active_def)
  with r assms show ?thesis
    by (auto simp: reportsOnce_def waitSupervisor_def Let_def split: option.splits)
qed

lemma reportsOnce_prepend:
  "reportsOnce (es, c) \<Longrightarrow> reports pre = [] \<Longrightarrow> CfControllerReady \<notin> set pre \<Longrightarrow> es \<noteq> [] \<Longrightarrow> reportsOnce (pre @ es, c)"
  by (auto simp: reportsOnce_def)

lemma superviseOpts_reports:
  assumes "active rd"
  shows "reportsOnce (superviseOpts w rd opts) \<and> fst (superviseOpts w rd opts) \<noteq> []"
proof (cases "NewStarter (la_windows (cw_launch w)) (cw_lookPath w) (cw_paths w) (Some (optionsConfig (la_windows (cw_launch w)) opts))")
  case (Inl e)
  then show ?thesis
    using failStartup_reports [OF assms, of w "CliStarter e"] by (simp add: superviseOpts_def failStartup_def)
next
  case (Inr s)
  consider "cw_run w (active rd) s = None" | e where "cw_run w (active rd) s = Some (Inl e)"
    | waited where "cw_run w (active rd) s = Some (Inr waited)"
    by (metis not_Some_eq obj_sumE)
  then show ?thesis
  proof cases
    case 1
    with Inr assms show ?thesis by (simp add: superviseOpts_def reportsOnce_def)
  next
    case (2 e)
    with Inr assms show ?thesis
      using reportsOnce_prepend [of _ _ "[CfRun True s]"] failStartup_reports [OF assms, of w "CliRunErr e"]
      by (simp add: superviseOpts_def failStartup_def)
  next
    case (3 waited)
    obtain es c where "waitSupervisor w rd waited = (es, c)" by (metis surj_pair)
    with Inr 3 assms waitSupervisor_reports [OF assms, of w waited] show ?thesis
      using reportsOnce_prepend [of es c "[CfRun True s]"] by (cases es) (auto simp: superviseOpts_def)
  qed
qed

lemma runProgram_reports:
  assumes "active rd"
  shows "reportsOnce (runProgram w rd argv opts)"
proof (cases argv)
  case Nil
  with assms failStartup_reports [OF assms, of w CliNoProgram] show ?thesis
    by (simp add: runProgram_def failStartup_def)
next
  case (Cons cmd rest)
  let ?opts = "if rest \<noteq> [] then opts\<lparr>OptCommand := cmd\<rparr>\<lparr>OptArgs := rest\<rparr> else opts\<lparr>OptCommand := cmd\<rparr>"
  have s: "reportsOnce (superviseOpts w rd o')" "fst (superviseOpts w rd o') \<noteq> []" for o'
    using superviseOpts_reports [OF assms] by blast+
  show ?thesis
  proof (cases "OptLogFile ?opts = []")
    case True
    with Cons s show ?thesis by (simp add: runProgram_def Let_def)
  next
    case False
    show ?thesis
    proof (cases "cw_openLog w (OptLogFile ?opts)")
      case (Inl e)
      with Cons False failStartup_reports [OF assms, of w "CliLogFile e"] show ?thesis
        using reportsOnce_prepend [of _ _ "[CfOpenLog (OptLogFile ?opts)]"]
        by (simp add: runProgram_def Let_def failStartup_def)
    next
      case (Inr f)
      obtain es c where e: "superviseOpts w rd (?opts\<lparr>logWriter := Some f\<rparr>) = (es, c)" by (metis surj_pair)
      with Cons False Inr have "runProgram w rd argv opts = ([CfOpenLog (OptLogFile ?opts)] @ es, c)"
        by (simp add: runProgram_def Let_def)
      with s [of "?opts\<lparr>logWriter := Some f\<rparr>"] e show ?thesis
        using reportsOnce_prepend [of es c "[CfOpenLog (OptLogFile ?opts)]"] by simp
    qed
  qed
qed

lemma resolveSettings_cong:
  assumes "\<forall>k \<in> {''ENVDIR'', ''ENABLE_AUTO_RESTART'', ''AUTO_RESTART_INTERVAL'', ''KILL_OLD_DELAY''}. e k = e' k"
  shows "resolveSettings e opts isSet = resolveSettings e' opts isSet"
proof -
  have "resolveEnvdir e = resolveEnvdir e'" "resolveEnableAutoRestart e = resolveEnableAutoRestart e'"
    "resolveAutoRestartInterval e = resolveAutoRestartInterval e'" "resolveKillOldDelay e = resolveKillOldDelay e'"
    using assms
    by (simp_all add: fun_eq_iff resolveEnvdir_def resolveEnableAutoRestart_def resolveAutoRestartInterval_def
        resolveKillOldDelay_def getenv_def)
  then show ?thesis by (simp only: resolveSettings_def)
qed

lemma child_environment:
  assumes "childDaemonReadiness win None (lookupEnviron (daemonEnvironment environ)) = (e', r)"
  shows "r = Inr \<lparr>rd_file = Some 3, rd_cloexec = \<not> win\<rparr> \<and> e' daemonizedEnv = Some ''1'' \<and>
    (\<forall>k. k \<notin> {daemonizedEnv, daemonReadinessEnv} \<longrightarrow> e' k = lookupEnviron environ k)"
proof -
  have "atoi ''3'' = Inr 3" using atoi_itoa [of daemonReadinessFD] by (simp add: in64_def itoa_readinessFD)
  moreover have "daemonizedEnv \<noteq> daemonReadinessEnv" by (simp add: daemonizedEnv_def daemonReadinessEnv_def)
  ultimately show ?thesis
    using assms by (auto simp: childDaemonReadiness_def daemonEnvironment_lookup daemonReadinessFD_def pipeEnd_def closeDaemonReadinessOnExec_def Let_def)
qed

lemma child_environment_other:
  "childDaemonReadiness win u e = (e', r) \<Longrightarrow> k \<noteq> daemonReadinessEnv \<Longrightarrow> e' k = e k"
  by (auto simp: childDaemonReadiness_def Let_def split: if_splits option.splits sum.splits)

text \<open>The execution that the guards of the dispatch let through to the launcher or the program.\<close>

definition reachesStart :: "cliWorld \<Rightarrow> string list \<Rightarrow> options \<Rightarrow> (string \<Rightarrow> bool) \<Rightarrow> options \<Rightarrow> bool" where
  "reachesStart w argv opts0 isSet opts \<longleftrightarrow>
     cw_parse w = Some (argv, opts0, isSet) \<and> \<not> OptHelp opts0 \<and> validateControlActions opts0 \<and>
     \<not> OptVersion opts0 \<and> validateSignals (la_windows (cw_launch w)) opts0 = None \<and> \<not> OptStop opts0 \<and> \<not> OptRestart opts0 \<and>
     opts = (if OptInterval opts0 < 0 then opts0\<lparr>OptInterval := 1\<rparr> else opts0)"

lemma cliRun_start:
  assumes "reachesStart w argv opts0 isSet opts"
    and "childDaemonReadiness (la_windows (cw_launch w)) (cw_unsetErr w) (lookupEnviron (cw_environ w)) = (e, Inr rd)"
  shows "cliRun w =
    (case resolveSettings e opts isSet of
       Inl err \<Rightarrow> failStartup w rd (CliSettings err)
     | Inr rs \<Rightarrow>
         if OptDaemonize opts \<and> getenv e daemonizedEnv \<noteq> ''1'' then launchDaemon w
         else runProgram w rd argv (opts\<lparr>resolved := rs\<rparr>))"
  using assms by (auto simp: cliRun_def reachesStart_def Let_def split: sum.splits)

lemma start_effect_cases:
  assumes "e \<in> set (fst (cliRun w))" and "\<exists>ls c s. e = CfLaunch ls \<or> e = CfRun c s"
  obtains argv opts0 isSet opts env' rd where "reachesStart w argv opts0 isSet opts"
    "childDaemonReadiness (la_windows (cw_launch w)) (cw_unsetErr w) (lookupEnviron (cw_environ w)) = (env', Inr rd)"
proof -
  obtain env' r where c: "childDaemonReadiness (la_windows (cw_launch w)) (cw_unsetErr w) (lookupEnviron (cw_environ w)) = (env', r)"
    by (metis surj_pair)
  show thesis
  proof (cases r)
    case (Inl err)
    with c assms show ?thesis by (auto simp: cliRun_def)
  next
    case (Inr rd)
    have "\<exists>argv opts0 isSet opts. reachesStart w argv opts0 isSet opts"
    proof (rule ccontr)
      assume n: "\<not> ?thesis"
      show False
      proof (cases "cw_parse w")
        case None
        with c Inr assms show ?thesis by (auto simp: cliRun_def)
      next
        case (Some p)
        obtain argv opts0 isSet where p: "p = (argv, opts0, isSet)" by (metis prod_cases3)
        let ?opts = "if OptInterval opts0 < 0 then opts0\<lparr>OptInterval := 1\<rparr> else opts0"
        from n have "\<not> reachesStart w argv opts0 isSet ?opts" by blast
        with c Inr assms Some p show ?thesis
          by (auto simp: cliRun_def reachesStart_def Let_def controlActions_def
              split: if_splits option.splits prod.splits)
      qed
    qed
    then show ?thesis using c Inr that by blast
  qed
qed

text \<open>
  The child of a launcher gets as far as the program, with the pipe at descriptor 3. It knows the
  names of the same signals, being a process of the same system; otherwise it would stop at a
  signal it does not know.
\<close>

lemma child_runs:
  assumes "CfLaunch ls \<in> set (fst (cliRun w))" and "cw_environ c = daemonEnvironment (cw_environ w)"
    and "cw_parse c = cw_parse w" and "cw_unsetErr c = None"
    and "la_windows (cw_launch c) = la_windows (cw_launch w) \<or> fst (cliRun c) \<noteq> [CfStderr]"
  obtains rd argv opts where "active rd" and "cliRun c = runProgram c rd argv opts"
proof -
  obtain argv opts0 isSet opts env' rd where s: "reachesStart w argv opts0 isSet opts"
      and cd: "childDaemonReadiness (la_windows (cw_launch w)) (cw_unsetErr w) (lookupEnviron (cw_environ w)) = (env', Inr rd)"
    using start_effect_cases [OF assms(1)] by blast
  obtain rs where rs: "resolveSettings env' opts isSet = Inr rs"
    using assms(1) cliRun_start [OF s cd]
    by (auto simp: failStartup_def reportFailed_def split: sum.splits if_splits)
  obtain env2 r2 where ch: "childDaemonReadiness (la_windows (cw_launch c)) None (lookupEnviron (daemonEnvironment (cw_environ w))) = (env2, r2)"
    by (metis surj_pair)
  note ce = child_environment [OF ch]
  let ?rd = "\<lparr>rd_file = Some 3, rd_cloexec = \<not> la_windows (cw_launch c)\<rparr>"
  have "env' k = env2 k" if "k \<in> {''ENVDIR'', ''ENABLE_AUTO_RESTART'', ''AUTO_RESTART_INTERVAL'', ''KILL_OLD_DELAY''}" for k
  proof -
    from that have "k \<notin> {daemonizedEnv, daemonReadinessEnv}"
      by (auto simp: daemonizedEnv_def daemonReadinessEnv_def)
    with ce child_environment_other [OF cd] show ?thesis by auto
  qed
  then have rs2: "resolveSettings env2 opts isSet = Inr rs"
    using rs resolveSettings_cong [of env' env2] by metis
  have "validateSignals (la_windows (cw_launch c)) opts0 = None"
  proof (rule ccontr)
    assume n: "validateSignals (la_windows (cw_launch c)) opts0 \<noteq> None"
    then have "fst (cliRun c) = [CfStderr]"
      using s assms(2-4) ch ce by (simp add: cliRun_def reachesStart_def)
    moreover have "validateSignals (la_windows (cw_launch w)) opts0 = None" using s by (simp add: reachesStart_def)
    with n have "la_windows (cw_launch c) \<noteq> la_windows (cw_launch w)" by (intro notI) simp
    ultimately show False using assms(5) by simp
  qed
  then have "reachesStart c argv opts0 isSet opts" using s assms(3) by (simp add: reachesStart_def)
  from cliRun_start [OF this, of env2 ?rd] ch ce assms(2,4) rs2
  have "cliRun c = runProgram c ?rd argv (opts\<lparr>resolved := rs\<rparr>)" by (simp add: getenv_def)
  then show thesis by (intro that [of ?rd]) (simp_all add: active_def)
qed

lemma child_reports:
  assumes "CfLaunch ls \<in> set (fst (cliRun w))" and "cw_environ c = daemonEnvironment (cw_environ w)"
    and "cw_parse c = cw_parse w" and "cw_unsetErr c = None"
    and "la_windows (cw_launch c) = la_windows (cw_launch w) \<or> fst (cliRun c) \<noteq> [CfStderr]"
  shows "reportsOnce (cliRun c) \<and>
    (\<forall>out \<in> set (reports (fst (cliRun c))).
       readDaemonStatus (out, EndEOF) = None \<longrightarrow> CfControllerReady \<in> set (fst (cliRun c)))"
proof -
  obtain rd argv opts where rd: "active rd" and run: "cliRun c = runProgram c rd argv opts"
    using child_runs [OF assms] by blast
  have once: "reportsOnce (cliRun c)" unfolding run using rd by (rule runProgram_reports)
  moreover have "CfControllerReady \<in> set (fst (cliRun c))"
    if "out \<in> set (reports (fst (cliRun c)))" "readDaemonStatus (out, EndEOF) = None" for out
  proof (rule ccontr)
    assume n: "CfControllerReady \<notin> set (fst (cliRun c))"
    with once that(1) obtain msg where "prefix out (daemonFrame daemonFailed msg)"
      by (auto simp: reportsOnce_def)
    with that(2) show False
      unfolding readDaemonStatus_None_iff by (auto simp: daemonFrame_def daemonReady_def daemonFailed_def)
  qed
  ultimately show ?thesis by blast
qed

text \<open>When the controller is ready, \<open>Run\<close> has returned it.\<close>

lemma waitFree: "CfControllerReady \<notin> set (fst (failStartup w rd err))"
  by (simp add: failStartup_def reportFailed_def)

lemma superviseOpts_ready:
  assumes "CfControllerReady \<in> set (fst (superviseOpts w rd opts))"
  shows "\<exists>s waited. CfRun (active rd) s \<in> set (fst (superviseOpts w rd opts)) \<and> cw_run w (active rd) s = Some (Inr waited)"
proof (cases "NewStarter (la_windows (cw_launch w)) (cw_lookPath w) (cw_paths w) (Some (optionsConfig (la_windows (cw_launch w)) opts))")
  case (Inl e)
  with assms waitFree show ?thesis by (simp add: superviseOpts_def)
next
  case (Inr s)
  with assms waitFree [of w rd] show ?thesis
    by (auto simp: superviseOpts_def split: option.splits sum.splits prod.splits) (metis fst_conv)+
qed

lemma runProgram_ready:
  assumes "CfControllerReady \<in> set (fst (runProgram w rd argv opts))"
  shows "\<exists>s waited. CfRun (active rd) s \<in> set (fst (runProgram w rd argv opts)) \<and> cw_run w (active rd) s = Some (Inr waited)"
  using assms superviseOpts_ready [of w rd] waitFree [of w rd]
  by (auto simp: runProgram_def Let_def failStartup_def reportFailed_def split: list.splits sum.splits prod.splits if_splits)
     (metis fst_conv)+

lemma child_ready:
  assumes "CfLaunch ls \<in> set (fst (cliRun w))" and "cw_environ c = daemonEnvironment (cw_environ w)"
    and "cw_parse c = cw_parse w" and "cw_unsetErr c = None" and "CfControllerReady \<in> set (fst (cliRun c))"
  shows "\<exists>s waited. CfRun True s \<in> set (fst (cliRun c)) \<and> cw_run c True s = Some (Inr waited)"
proof -
  have "fst (cliRun c) \<noteq> [CfStderr]" using assms(5) by auto
  then obtain rd argv opts where rd: "active rd" and run: "cliRun c = runProgram c rd argv opts"
    using child_runs [OF assms(1-4)] by blast
  with runProgram_ready [of c rd argv opts] assms(5) show ?thesis by auto
qed

text \<open>A launcher that exits with success has read the readiness frame.\<close>

lemma waitSupervisor_no_launch: "CfLaunch ls \<notin> set (fst (waitSupervisor w rd waited))"
  by (auto simp: waitSupervisor_def Let_def split: prod.splits option.splits if_splits)

lemma failStartup_no_launch: "CfLaunch ls \<notin> set (fst (failStartup w rd err))"
  by (simp add: failStartup_def reportFailed_def)

lemma superviseOpts_no_launch: "CfLaunch ls \<notin> set (fst (superviseOpts w rd opts))"
  using waitSupervisor_no_launch [of ls w rd] failStartup_no_launch [of ls w rd]
  by (auto simp: superviseOpts_def split: sum.splits option.splits prod.splits) (metis fst_conv)+

lemma runProgram_no_launch: "CfLaunch ls \<notin> set (fst (runProgram w rd argv opts))"
proof (cases argv)
  case Nil
  then show ?thesis by (simp add: runProgram_def reportFailed_def)
next
  case (Cons cmd rest)
  then show ?thesis
    using superviseOpts_no_launch [of ls w rd] failStartup_no_launch [of ls w rd]
    by (auto simp: runProgram_def Let_def split: sum.splits prod.splits if_splits) (metis fst_conv)+
qed

lemma launcher_success:
  assumes "CfLaunch ls \<in> set (fst (cliRun w))" and "snd (cliRun w) = Some 0"
  shows "readDaemonStatus (la_status (cw_launch w)) = None"
proof -
  obtain argv opts0 isSet opts env' rd where st: "reachesStart w argv opts0 isSet opts"
      and cd: "childDaemonReadiness (la_windows (cw_launch w)) (cw_unsetErr w) (lookupEnviron (cw_environ w)) = (env', Inr rd)"
    using start_effect_cases [OF assms(1)] by blast
  have "cliRun w = launchDaemon w"
    using assms(1) cliRun_start [OF st cd] runProgram_no_launch failStartup_no_launch
    by (auto split: sum.splits if_splits)
  with assms(2) obtain es where "daemonize (cw_launch w) (cw_environ w) = (es, None)"
    by (auto simp: launchDaemon_def split: prod.splits option.splits)
  then show ?thesis by (auto simp: daemonize_def Let_def split: sum.splits option.splits)
qed

text \<open>
  The two ends of a daemon start. Whenever a process reaches the point where it launches a
  daemon, the child it starts, with the environment the launcher builds and the same command
  line, gets past every early exit of the command: it writes exactly one report to the pipe
  unless its startup check is still running, and the report is one of readiness exactly when the
  supervisor is up. So a launcher that reads a valid readiness frame has a running supervisor.
\<close>

theorem daemon_child_reports:
  assumes "CfLaunch ls \<in> set (fst (cliRun w))" and "cw_environ c = daemonEnvironment (cw_environ w)"
    and "cw_parse c = cw_parse w" and "cw_unsetErr c = None"
    and "la_windows (cw_launch c) = la_windows (cw_launch w)"
  shows "reportsOnce (cliRun c) \<and>
    (\<forall>out \<in> set (reports (fst (cliRun c))).
       readDaemonStatus (out, EndEOF) = None \<longrightarrow> CfControllerReady \<in> set (fst (cliRun c)))"
  using child_reports [OF assms(1-4)] assms(5) by blast

definition sampleRunOf :: "bool \<Rightarrow> Starter \<Rightarrow> (run_error + run_error option option) option" where
  "sampleRunOf checked s = Some (Inr (Some (Some ErrServerClosed)))"

definition daemonWorld :: cliWorld where
  "daemonWorld = \<lparr>cw_environ = [''PATH=/bin''], cw_unsetErr = None,
     cw_parse = Some ([''/bin/app'', ''-v''], sampleOptions\<lparr>OptDaemonize := True\<rparr>, \<lambda>_. False),
     cw_stop = (\<lambda>_. None), cw_restart = (\<lambda>_ _. None),
     cw_launch = \<lparr>la_windows = False, la_pipeErr = None, la_startErr = None, la_closeErr = None, la_status = ([], EndEOF), la_releaseErr = None\<rparr>,
     cw_openLog = (\<lambda>_. Inr 5), cw_lookPath = Inr, cw_paths = unixPaths (Inr ''/''), cw_run = sampleRunOf,
     cw_writes = [], cw_closeErr = None, cw_text = (\<lambda>_. [])\<rparr>"

definition childWorld :: cliWorld where
  "childWorld = daemonWorld\<lparr>cw_environ := daemonEnvironment [''PATH=/bin'']\<rparr>"

lemma daemonWorld_launches: "\<exists>ls. CfLaunch ls \<in> set (fst (cliRun daemonWorld))"
proof -
  have e: "childDaemonReadiness False None (lookupEnviron [''PATH=/bin'']) = (lookupEnviron [''PATH=/bin''], Inr \<lparr>rd_file = None, rd_cloexec = False\<rparr>)"
    by (simp add: childDaemonReadiness_def daemonizedEnv_def)
  have v: "validateSignals False (sampleOptions\<lparr>OptDaemonize := True\<rparr>) = None" by code_simp
  have st: "reachesStart daemonWorld [''/bin/app'', ''-v''] (sampleOptions\<lparr>OptDaemonize := True\<rparr>) (\<lambda>_. False)
      (sampleOptions\<lparr>OptDaemonize := True\<rparr>)"
    using v by (simp add: reachesStart_def daemonWorld_def validateControlActions_def) (simp add: sampleOptions_def)
  have "\<exists>rs. resolveSettings (lookupEnviron [''PATH=/bin'']) (sampleOptions\<lparr>OptDaemonize := True\<rparr>) (\<lambda>_. False) = Inr rs"
    by (simp add: resolveSettings_def resolveEnableAutoRestart_def resolveAutoRestartInterval_def resolveKillOldDelay_def)
  with cliRun_start [OF st] e show ?thesis
    by (auto simp: daemonWorld_def launchDaemon_def getenv_def daemonizedEnv_def split: prod.splits option.splits)
qed

theorem daemon_child_reports_witness: "reportsOnce (cliRun childWorld)"
proof -
  obtain ls where l: "CfLaunch ls \<in> set (fst (cliRun daemonWorld))" using daemonWorld_launches by blast
  have "cw_environ childWorld = daemonEnvironment (cw_environ daemonWorld)" "cw_parse childWorld = cw_parse daemonWorld"
    "cw_unsetErr childWorld = None" "la_windows (cw_launch childWorld) = la_windows (cw_launch daemonWorld)"
    by (simp_all add: childWorld_def daemonWorld_def)
  from daemon_child_reports [OF l this] show ?thesis by blast
qed

subsection \<open>The dispatch\<close>

lemma signals_valid:
  assumes "validateSignals windows opts = None"
  shows "isOk (c_SignalOnHUP (optionsConfig windows opts)) \<and> isOk (c_SignalOnTERM (optionsConfig windows opts))"
proof -
  have "isOk (signalResult (SigFromName windows v))" if "v = [] \<or> isOk (SigFromName windows v)" for v
    using that by (auto simp: signalResult_def SigFromName_def isOk_iff)
  moreover have "v = [] \<or> isOk (SigFromName windows v)"
    if "v \<in> {OptSignalOnHUP opts, OptSignalOnTERM opts}" for v
    using assms that by (auto simp: validateSignals_def isOk_iff split: if_splits sum.splits)
  ultimately show ?thesis by (simp add: optionsConfig_def)
qed

lemma superviseOpts_run:
  "CfRun c s \<in> set (fst (superviseOpts w rd opts)) \<Longrightarrow>
   NewStarter (la_windows (cw_launch w)) (cw_lookPath w) (cw_paths w) (Some (optionsConfig (la_windows (cw_launch w)) opts)) = Inr s \<and> c = active rd"
  by (auto simp: superviseOpts_def failStartup_def reportFailed_def waitSupervisor_def Let_def
      split: sum.splits option.splits prod.splits if_splits)

text \<open>The options that reach the supervisor: the parsed ones with the program filled in.\<close>

definition programOptions :: "cliWorld \<Rightarrow> string list \<Rightarrow> options \<Rightarrow> options \<Rightarrow> bool" where
  "programOptions w argv opts opts' \<longleftrightarrow>
     (\<exists>cmd rest lw. argv = cmd # rest \<and>
        (if OptLogFile opts = [] then lw = logWriter opts else \<exists>f. cw_openLog w (OptLogFile opts) = Inr f \<and> lw = Some f) \<and>
        opts' = opts\<lparr>OptCommand := cmd, OptArgs := (if rest \<noteq> [] then rest else OptArgs opts), logWriter := lw\<rparr>)"

lemma runProgram_run:
  assumes "CfRun c s \<in> set (fst (runProgram w rd argv opts))"
  shows "\<exists>opts'. programOptions w argv opts opts' \<and> c = active rd \<and>
    NewStarter (la_windows (cw_launch w)) (cw_lookPath w) (cw_paths w) (Some (optionsConfig (la_windows (cw_launch w)) opts')) = Inr s"
proof (cases argv)
  case Nil
  with assms show ?thesis by (auto simp: runProgram_def reportFailed_def split: if_splits)
next
  case (Cons cmd rest)
  let ?o = "opts\<lparr>OptCommand := cmd, OptArgs := (if rest \<noteq> [] then rest else OptArgs opts)\<rparr>"
  have o: "(if rest \<noteq> [] then opts\<lparr>OptCommand := cmd\<rparr>\<lparr>OptArgs := rest\<rparr> else opts\<lparr>OptCommand := cmd\<rparr>) = ?o" by simp
  show ?thesis
  proof (cases "OptLogFile opts = []")
    case True
    have "?o = ?o\<lparr>logWriter := logWriter opts\<rparr>" by simp
    with True Cons have "programOptions w argv opts ?o" unfolding programOptions_def by auto
    moreover have "CfRun c s \<in> set (fst (superviseOpts w rd ?o))"
      using assms Cons True unfolding runProgram_def by (simp only: o Let_def list.case) simp
    ultimately show ?thesis using superviseOpts_run by blast
  next
    case False
    show ?thesis
    proof (cases "cw_openLog w (OptLogFile opts)")
      case (Inl e)
      with assms Cons False show ?thesis
        unfolding runProgram_def
        by (simp only: o Let_def list.case) (auto simp: failStartup_def reportFailed_def split: if_splits)
    next
      case (Inr f)
      let ?l = "?o\<lparr>logWriter := Some f\<rparr>"
      have "programOptions w argv opts ?l" unfolding programOptions_def using Cons False Inr by auto
      moreover have "CfRun c s \<in> set (fst (superviseOpts w rd ?l))"
        using assms Cons False Inr unfolding runProgram_def
        by (cases "rest = []"; cases "superviseOpts w rd ?l") (simp_all add: Let_def)
      ultimately show ?thesis using superviseOpts_run by blast
    qed
  qed
qed

lemma resolveSettings_interval: "resolveSettings e (opts\<lparr>OptInterval := x\<rparr>) isSet = resolveSettings e opts isSet"
  by (simp add: resolveSettings_def cong: sum.case_cong)

lemma NewStarter_fields:
  "NewStarter windows lookPath pt (Some c) = Inr s \<Longrightarrow>
   interval s = c_Interval c \<and> statusFile s = c_StatusFile c \<and> pidFile s = c_PidFile c \<and> dir s = c_Dir c \<and>
   ports s = c_Ports c \<and> paths s = c_Paths c \<and> command s = c_Command c \<and> args s = c_Args c \<and>
   envdir s = c_Envdir c \<and> enableAutoRestart s = c_EnableAutoRestart c \<and>
   autoRestartInterval s = c_AutoRestartInterval c \<and> killOldDelay s = c_KillOldDelay c \<and>
   (\<forall>x. c_SignalOnHUP c = Inr (Some x) \<longrightarrow> signalOnHUP s = x) \<and>
   (\<forall>x. c_SignalOnTERM c = Inr (Some x) \<longrightarrow> signalOnTERM s = x)"
  by (auto simp: NewStarter_def split: sum.splits option.splits if_splits)


lemma childWorld_runs: "\<exists>s. CfRun True s \<in> set (fst (cliRun childWorld))"
proof -
  let ?o = "sampleOptions\<lparr>OptDaemonize := True\<rparr>"
  obtain e r where c: "childDaemonReadiness False None (lookupEnviron (daemonEnvironment [''PATH=/bin''])) = (e, r)"
    by (metis surj_pair)
  note ce = child_environment [OF c]
  have v: "validateSignals False ?o = None" by code_simp
  have st: "reachesStart childWorld [''/bin/app'', ''-v''] ?o (\<lambda>_. False) ?o"
    using v by (simp add: reachesStart_def childWorld_def daemonWorld_def validateControlActions_def) (simp add: sampleOptions_def)
  have "resolveSettings e ?o (\<lambda>_. False) = resolveSettings (\<lambda>_. None) ?o (\<lambda>_. False)"
    using ce by (intro resolveSettings_cong) (auto simp: daemonizedEnv_def daemonReadinessEnv_def)
  then obtain rs where rs: "resolveSettings e ?o (\<lambda>_. False) = Inr rs"
    by (simp add: resolveSettings_def resolveEnableAutoRestart_def resolveAutoRestartInterval_def resolveKillOldDelay_def)
  have "cliRun childWorld = runProgram childWorld pipeEnd [''/bin/app'', ''-v''] (?o\<lparr>resolved := rs\<rparr>)"
    using cliRun_start [OF st, of e pipeEnd] c ce rs by (simp add: childWorld_def daemonWorld_def getenv_def pipeEnd_def)
  moreover have "\<exists>s. CfRun True s \<in> set (fst (superviseOpts childWorld pipeEnd o'))"
    if "OptCommand o' = ''/bin/app''" "OptSignalOnHUP o' = ''usr1''" "OptSignalOnTERM o' = []" for o'
  proof -
    have "SigFromName False ''usr1'' = Inr SIGUSR1" "SigFromName False [] = Inr SIGTERM" by code_simp+
    with that have "\<exists>s. NewStarter (la_windows (cw_launch childWorld)) (cw_lookPath childWorld) (cw_paths childWorld) (Some (optionsConfig (la_windows (cw_launch childWorld)) o')) = Inr s"
      by (simp add: NewStarter_def optionsConfig_def signalResult_def resolveCommandPath_unix childWorld_def daemonWorld_def)
    then show ?thesis
      by (auto simp: superviseOpts_def childWorld_def daemonWorld_def sampleRunOf_def active_def pipeEnd_def
          split: prod.splits)
  qed
  ultimately show ?thesis by (simp add: runProgram_def) (simp add: sampleOptions_def)
qed


subsection \<open>Signals: nothing is lost\<close>

definition isStop :: "watchEvent \<Rightarrow> bool" where
  "isStop e \<longleftrightarrow> e \<noteq> WsController \<and> e \<noteq> WsSignal SIGHUP"

definition terminates :: "watchEvent \<Rightarrow> bool" where
  "terminates e \<longleftrightarrow> (\<exists>s. e = WsSignal s \<and> s \<noteq> SIGHUP)"

lemma watch_stop: "isStop e \<Longrightarrow> watchSignals ctrl p (e # evs) = (if terminates e then [WaCancel] else [])"
  by (cases e) (auto simp: isStop_def terminates_def)

lemma watch_pending:
  "watchSignals False p (replicate m (WsSignal SIGHUP) @ evs) = watchSignals False (p \<or> 0 < m) evs"
  by (induction m arbitrary: p) auto

lemma watch_forward:
  "watchSignals True p (replicate n (WsSignal SIGHUP) @ evs) = replicate n WaHangup @ watchSignals True p evs"
  by (induction n) auto

text \<open>What the actions do to the controller and to the context.\<close>

definition perform :: "'e Controller \<times> bool \<Rightarrow> watchAction \<Rightarrow> 'e Controller \<times> bool" where
  "perform c a = (case a of WaHangup \<Rightarrow> (Hangup (fst c), snd c) | WaCancel \<Rightarrow> (fst c, True))"

lemma perform_hangups:
  "foldl perform (c, b) (replicate n WaHangup) = (if n = 0 then (c, b) else (Hangup c, b))"
proof (induction n arbitrary: c)
  case (Suc n)
  have "Hangup (Hangup c) = Hangup c" by (simp add: Hangup_def)
  with Suc show ?case by (simp add: perform_def)
qed simp

text \<open>
  Signals to the supervisor process. Hangups that arrive while the supervisor is still
  starting are remembered and delivered as one when the controller exists, later ones are
  delivered as they come, and none of them cancels; the first other signal cancels the context,
  before or after the start, and ends the goroutine. So the supervisor's restart request is
  pending exactly if some hangup arrived, and the context is cancelled exactly if a terminating
  signal did.
\<close>

theorem watchSignals_correct:
  assumes "isStop e"
  shows "foldl perform (newController, False)
      (watchSignals False False
        (replicate m (WsSignal SIGHUP) @ WsController # replicate n (WsSignal SIGHUP) @ e # rest)) =
    (if m + n = 0 then newController else Hangup newController, terminates e) \<and>
    watchSignals False False (replicate m (WsSignal SIGHUP) @ e # rest) = (if terminates e then [WaCancel] else [])"
proof -
  have w: "watchSignals False False (replicate m (WsSignal SIGHUP) @ WsController # replicate n (WsSignal SIGHUP) @ e # rest) =
      replicate ((if m = 0 then 0 else 1) + n) WaHangup @ (if terminates e then [WaCancel] else [])"
    by (simp add: watch_pending watch_forward watch_stop [OF assms])
  show ?thesis
    unfolding w by (simp add: perform_hangups watch_pending watch_stop [OF assms] foldl_append) (simp add: perform_def)
qed

theorem watchSignals_correct_witness:
  "watchSignals False False [WsSignal SIGHUP, WsSignal SIGHUP, WsSignal SIGTERM] = [WaCancel] \<and>
   fst (foldl perform (newController :: run_error Controller, False)
     (watchSignals False False [WsSignal SIGHUP, WsController, WsDone])) = Hangup newController"
proof -
  have "isStop (WsSignal SIGTERM)" "isStop WsDone" by (simp_all add: isStop_def)
  from watchSignals_correct [OF this(1), of 2 0 "[]", where 'a = run_error]
    watchSignals_correct [OF this(2), of 1 0 "[]", where 'a = run_error]
  show ?thesis by (simp add: eval_nat_numeral terminates_def)
qed

end
