(* ===== verification/WorkerListen.thy ===== *)
theory WorkerListen
  imports PortCodec "HOL-Library.Multiset"
begin

text \<open>
  The worker's side of the sockets (\<open>listener.go\<close>, the last functions of \<open>ports.go\<close>,
  \<open>source_descriptor_close.go\<close> and its Windows variant): turning the inherited descriptors into
  the runtime's listeners and packet connections, one at a time or all of them. What the
  operating system answers to each conversion is an argument, and the calls that open and close
  something are recorded in order.
\<close>

subsection \<open>One endpoint\<close>

text \<open>
  The answers to one conversion: \<open>net.FileListener\<close> or \<open>net.FilePacketConn\<close>, \<open>Close\<close> of the
  file, and on Windows \<open>closesocket\<close>.
\<close>

record convAnswer =
  cv_convErr :: "string option"
  cv_closeErr :: "string option"
  cv_socketErr :: "string option"

datatype endpoint = EpTCP | EpUDP | EpUnix

datatype listen_error =
    ErrListenFd endpoint uintptr
  | ErrListenConvert endpoint uintptr string "string option"
  | ErrListenClose endpoint uintptr string
  | ErrListenPacketRequired
  | ErrNotUDP string
  | ErrListenPorts ports_error

text \<open>A converted descriptor: the runtime's own duplicate of the source descriptor.\<close>

datatype handle = Handle endpoint uintptr

datatype listenEvent =
    LvConvert handle
  | LvCloseFile uintptr
  | LvCloseSocket uintptr
  | LvClose handle

text \<open>\<open>os.NewFile\<close> returns nothing for a negative number, or on Windows for the invalid handle.\<close>

definition newFileFails :: "bool \<Rightarrow> uintptr \<Rightarrow> bool" where
  "newFileFails windows fd = (if windows then fd = - 1 else sint fd < 0)"

definition closeSourceDescriptor_unix :: "convAnswer \<Rightarrow> uintptr \<Rightarrow> listenEvent list \<times> string option" where
  [simp]: "closeSourceDescriptor_unix a fd = ([LvCloseFile fd], cv_closeErr a)"

definition closeSourceDescriptor_windows :: "convAnswer \<Rightarrow> uintptr \<Rightarrow> listenEvent list \<times> string option" where
  [simp]: "closeSourceDescriptor_windows a fd = ([LvCloseFile fd, LvCloseSocket fd], cv_socketErr a)"

definition closeSourceDescriptor :: "bool \<Rightarrow> convAnswer \<Rightarrow> uintptr \<Rightarrow> listenEvent list \<times> string option" where
  "closeSourceDescriptor windows a fd =
     (if windows then closeSourceDescriptor_windows a fd else closeSourceDescriptor_unix a fd)"

text \<open>The body that the three conversions share.\<close>

definition fromDescriptor ::
  "endpoint \<Rightarrow> bool \<Rightarrow> convAnswer \<Rightarrow> uintptr \<Rightarrow> listenEvent list \<times> (listen_error + handle)" where
  "fromDescriptor ep windows a fd =
     (if newFileFails windows fd then ([], Inl (ErrListenFd ep fd))
      else
        (case closeSourceDescriptor windows a fd of
           (closing, closeErr) \<Rightarrow>
             (case cv_convErr a of
                Some err \<Rightarrow> (closing, Inl (ErrListenConvert ep fd err closeErr))
              | None \<Rightarrow>
                  let h = Handle ep fd in
                  (case closeErr of
                     Some err \<Rightarrow> (LvConvert h # closing @ [LvClose h], Inl (ErrListenClose ep fd err))
                   | None \<Rightarrow> (LvConvert h # closing, Inr h)))))"

definition TCPListener_Listen :: "bool \<Rightarrow> convAnswer \<Rightarrow> uintptr \<Rightarrow> listenEvent list \<times> (listen_error + handle)" where
  "TCPListener_Listen windows a fd = fromDescriptor EpTCP windows a fd"

definition UDPListener_Listen :: "listenEvent list \<times> (listen_error + handle)" where
  "UDPListener_Listen = ([], Inl ErrListenPacketRequired)"

definition UDPListener_ListenPacket ::
  "bool \<Rightarrow> convAnswer \<Rightarrow> uintptr \<Rightarrow> listenEvent list \<times> (listen_error + handle)" where
  "UDPListener_ListenPacket windows a fd = fromDescriptor EpUDP windows a fd"

definition UnixListener_Listen :: "bool \<Rightarrow> convAnswer \<Rightarrow> uintptr \<Rightarrow> listenEvent list \<times> (listen_error + handle)" where
  "UnixListener_Listen windows a fd = fromDescriptor EpUnix windows a fd"

text \<open>
  The method call on the interface; \<open>other\<close> is the method of a type that is not one of the
  three built-in ones.
\<close>

type_synonym otherListen = "Listener \<Rightarrow> listenEvent list \<times> (listen_error + handle)"

fun lListen :: "otherListen \<Rightarrow> bool \<Rightarrow> convAnswer \<Rightarrow> Listener \<Rightarrow> listenEvent list \<times> (listen_error + handle)" where
  "lListen other windows a (TCPListener addr port fd) = TCPListener_Listen windows a fd"
| "lListen other windows a (UDPListener addr port fd) = UDPListener_Listen"
| "lListen other windows a (UnixListener path fd) = UnixListener_Listen windows a fd"
| "lListen other windows a (OtherListener shown fd) = other (OtherListener shown fd)"

subsection \<open>All endpoints\<close>

text \<open>The loop of \<open>ListenAll\<close>; the answers are given by position.\<close>

fun listenLoop ::
  "otherListen \<Rightarrow> bool \<Rightarrow> (nat \<Rightarrow> convAnswer) \<Rightarrow> nat \<Rightarrow> handle list \<Rightarrow> Listener list \<Rightarrow>
     listenEvent list \<times> (listen_error + handle list)" where
  "listenLoop other windows ans i ret [] = ([], Inr ret)"
| "listenLoop other windows ans i ret (tgt # tgts) =
     (case lListen other windows (ans i) tgt of
        (ev, Inl err) \<Rightarrow> (ev @ map LvClose ret, Inl err)
      | (ev, Inr h) \<Rightarrow>
          (case listenLoop other windows ans (Suc i) (ret @ [h]) tgts of (ev', r) \<Rightarrow> (ev @ ev', r)))"

definition ListenAll ::
  "otherListen \<Rightarrow> bool \<Rightarrow> (nat \<Rightarrow> convAnswer) \<Rightarrow> env \<Rightarrow> listenEvent list \<times> (listen_error + handle list)" where
  "ListenAll other windows ans env =
     (case Ports env of
        Inl err \<Rightarrow> ([], Inl (ErrListenPorts err))
      | Inr targets \<Rightarrow> listenLoop other windows ans 0 [] targets)"

fun packetLoop ::
  "bool \<Rightarrow> (nat \<Rightarrow> convAnswer) \<Rightarrow> nat \<Rightarrow> handle list \<Rightarrow> Listener list \<Rightarrow>
     listenEvent list \<times> (listen_error + handle list)" where
  "packetLoop windows ans i ret [] = ([], Inr ret)"
| "packetLoop windows ans i ret (tgt # tgts) =
     (case tgt of
        UDPListener addr port fd \<Rightarrow>
          (case UDPListener_ListenPacket windows (ans i) fd of
             (ev, Inl err) \<Rightarrow> (ev @ map LvClose ret, Inl err)
           | (ev, Inr h) \<Rightarrow>
               (case packetLoop windows ans (Suc i) (ret @ [h]) tgts of (ev', r) \<Rightarrow> (ev @ ev', r)))
      | _ \<Rightarrow> (map LvClose ret, Inl (ErrNotUDP (lString tgt))))"

definition ListenPacketAll ::
  "bool \<Rightarrow> (nat \<Rightarrow> convAnswer) \<Rightarrow> env \<Rightarrow> listenEvent list \<times> (listen_error + handle list)" where
  "ListenPacketAll windows ans env =
     (case Ports env of
        Inl err \<Rightarrow> ([], Inl (ErrListenPorts err))
      | Inr targets \<Rightarrow> packetLoop windows ans 0 [] targets)"

subsection \<open>What is opened and closed\<close>

definition converted :: "listenEvent list \<Rightarrow> handle multiset" where
  "converted ev = mset (concat (map (\<lambda>e. case e of LvConvert h \<Rightarrow> [h] | _ \<Rightarrow> []) ev))"

definition closed :: "listenEvent list \<Rightarrow> handle multiset" where
  "closed ev = mset (concat (map (\<lambda>e. case e of LvClose h \<Rightarrow> [h] | _ \<Rightarrow> []) ev))"

text \<open>The source descriptors given back; on Windows only \<open>closesocket\<close> does that.\<close>

definition sourcesClosed :: "bool \<Rightarrow> listenEvent list \<Rightarrow> uintptr multiset" where
  "sourcesClosed windows ev =
     mset (concat (map (\<lambda>e. case e of LvCloseFile fd \<Rightarrow> if windows then [] else [fd]
                                    | LvCloseSocket fd \<Rightarrow> if windows then [fd] else [] | _ \<Rightarrow> []) ev))"

lemma listen_events_append [simp]:
  "converted (a @ b) = converted a + converted b" "closed (a @ b) = closed a + closed b"
  "sourcesClosed w (a @ b) = sourcesClosed w a + sourcesClosed w b"
  by (simp_all add: converted_def closed_def sourcesClosed_def)

lemma listen_events_simps [simp]:
  "converted [] = {#}" "closed [] = {#}" "sourcesClosed w [] = {#}"
  "converted (LvConvert h # ev) = add_mset h (converted ev)" "closed (LvConvert h # ev) = closed ev"
  "sourcesClosed w (LvConvert h # ev) = sourcesClosed w ev"
  "converted (LvClose h # ev) = converted ev" "closed (LvClose h # ev) = add_mset h (closed ev)"
  "sourcesClosed w (LvClose h # ev) = sourcesClosed w ev"
  by (simp_all add: converted_def closed_def sourcesClosed_def)

lemma listen_events_close [simp]:
  "converted (map LvClose hs) = {#}" "closed (map LvClose hs) = mset hs" "sourcesClosed w (map LvClose hs) = {#}"
  by (induction hs) simp_all

lemma listen_events_source [simp]:
  "converted (fst (closeSourceDescriptor w a fd)) = {#}" "closed (fst (closeSourceDescriptor w a fd)) = {#}"
  "sourcesClosed w (fst (closeSourceDescriptor w a fd)) = {#fd#}"
  by (simp_all add: closeSourceDescriptor_def converted_def closed_def sourcesClosed_def)

definition builtin :: "Listener \<Rightarrow> bool" where
  "builtin l \<longleftrightarrow> \<not> is_OtherListener l"

fun endpointOf :: "Listener \<Rightarrow> endpoint" where
  "endpointOf (UDPListener addr port fd) = EpUDP"
| "endpointOf (UnixListener path fd) = EpUnix"
| "endpointOf l = EpTCP"

definition handleOf :: "Listener \<Rightarrow> handle" where
  "handleOf l = Handle (endpointOf l) (Fd l)"

text \<open>Answers under which the conversion of a descriptor works.\<close>

definition convertible :: "bool \<Rightarrow> convAnswer \<Rightarrow> uintptr \<Rightarrow> bool" where
  "convertible w a fd \<longleftrightarrow>
     \<not> newFileFails w fd \<and> cv_convErr a = None \<and> snd (closeSourceDescriptor w a fd) = None"

lemma fromDescriptor_Inr:
  "fromDescriptor ep w a fd = (ev, Inr h) \<longleftrightarrow>
     convertible w a fd \<and> h = Handle ep fd \<and> ev = LvConvert h # fst (closeSourceDescriptor w a fd)"
  by (auto simp: fromDescriptor_def convertible_def Let_def split: prod.splits option.splits)

lemma fromDescriptor_Inl: "fromDescriptor ep w a fd = (ev, Inl e) \<Longrightarrow> closed ev = converted ev"
proof -
  obtain cl er where c: "closeSourceDescriptor w a fd = (cl, er)" by fastforce
  show "fromDescriptor ep w a fd = (ev, Inl e) \<Longrightarrow> closed ev = converted ev"
    using listen_events_source [of w a fd, unfolded c fst_conv]
    by (auto simp: fromDescriptor_def Let_def c split: option.splits if_splits)
qed

subsection \<open>The loop over the endpoints\<close>

text \<open>
  The contract that \<open>ListenAll\<close> and \<open>ListenPacketAll\<close> share: the endpoints of the kind that
  fits are converted in order, and the first error closes what was converted before.
\<close>

locale listen_loop =
  fixes windows :: bool
    and fits :: "Listener \<Rightarrow> bool"
    and conv :: "convAnswer \<Rightarrow> Listener \<Rightarrow> listenEvent list \<times> (listen_error + handle)"
    and loop :: "(nat \<Rightarrow> convAnswer) \<Rightarrow> nat \<Rightarrow> handle list \<Rightarrow> Listener list \<Rightarrow> listenEvent list \<times> (listen_error + handle list)"
  assumes conv_Inr: "builtin l \<Longrightarrow> conv a l = (ev, Inr h) \<longleftrightarrow>
      fits l \<and> convertible windows a (Fd l) \<and> h = handleOf l \<and>
      ev = LvConvert h # fst (closeSourceDescriptor windows a (Fd l))"
    and conv_Inl: "builtin l \<Longrightarrow> conv a l = (ev, Inl e) \<Longrightarrow> closed ev = converted ev"
    and loop_Nil: "loop ans i ret [] = ([], Inr ret)"
    and loop_Cons: "loop ans i ret (l # ls) =
      (case conv (ans i) l of
         (ev, Inl err) \<Rightarrow> (ev @ map LvClose ret, Inl err)
       | (ev, Inr h) \<Rightarrow> (case loop ans (Suc i) (ret @ [h]) ls of (ev', r) \<Rightarrow> (ev @ ev', r)))"
begin

lemma loop_failure:
  "loop ans i ret ls = (ev, Inl e) \<Longrightarrow> \<forall>l \<in> set ls. builtin l \<Longrightarrow> closed ev = converted ev + mset ret"
proof (induction ls arbitrary: i ret ev)
  case Nil
  then show ?case by (simp add: loop_Nil)
next
  case (Cons l ls)
  obtain ev1 r1 where c: "conv (ans i) l = (ev1, r1)" by fastforce
  show ?case
  proof (cases r1)
    case (Inl err)
    with Cons.prems c conv_Inl [of l] show ?thesis by (auto simp: loop_Cons)
  next
    case (Inr h)
    then obtain ev' where l: "loop ans (Suc i) (ret @ [h]) ls = (ev', Inl e)" and ev: "ev = ev1 @ ev'"
      using Cons.prems(1) c by (auto simp: loop_Cons split: prod.splits)
    from Cons.IH [OF l] Cons.prems(2) have "closed ev' = converted ev' + mset ret + {#h#}" by simp
    moreover have "ev1 = LvConvert h # fst (closeSourceDescriptor windows (ans i) (Fd l))"
      using c Inr conv_Inr [of l] Cons.prems(2) by auto
    ultimately show ?thesis unfolding ev by simp
  qed
qed

lemma loop_success:
  "loop ans i ret ls = (ev, Inr hs) \<Longrightarrow> \<forall>l \<in> set ls. builtin l \<Longrightarrow>
     hs = ret @ map handleOf ls \<and> closed ev = {#} \<and> converted ev = mset (map handleOf ls) \<and>
     sourcesClosed windows ev = mset (map Fd ls)"
proof (induction ls arbitrary: i ret ev)
  case Nil
  then show ?case by (simp add: loop_Nil)
next
  case (Cons l ls)
  then obtain ev1 h ev' where c: "conv (ans i) l = (ev1, Inr h)"
    and l: "loop ans (Suc i) (ret @ [h]) ls = (ev', Inr hs)" and ev: "ev = ev1 @ ev'"
    by (auto simp: loop_Cons split: prod.splits sum.splits)
  have "ev1 = LvConvert h # fst (closeSourceDescriptor windows (ans i) (Fd l))" "h = handleOf l"
    using c conv_Inr [of l] Cons.prems(2) by auto
  with Cons.IH [OF l] Cons.prems(2) show ?case unfolding ev by simp
qed

lemma loop_ok_iff:
  "\<forall>l \<in> set ls. builtin l \<Longrightarrow>
     isOk (snd (loop ans i ret ls)) \<longleftrightarrow> (\<forall>j < length ls. fits (ls ! j) \<and> convertible windows (ans (i + j)) (Fd (ls ! j)))"
proof (induction ls arbitrary: i ret)
  case Nil
  then show ?case by (simp add: loop_Nil)
next
  case (Cons l ls)
  obtain ev1 r1 where c: "conv (ans i) l = (ev1, r1)" by fastforce
  have "isOk (snd (loop ans i ret (l # ls))) \<longleftrightarrow>
      (fits l \<and> convertible windows (ans i) (Fd l)) \<and>
      (\<forall>j < length ls. fits (ls ! j) \<and> convertible windows (ans (Suc i + j)) (Fd (ls ! j)))"
  proof (cases r1)
    case (Inl err)
    have "\<not> (fits l \<and> convertible windows (ans i) (Fd l))"
      using conv_Inr [of l "ans i"] Cons.prems c Inl by auto
    with c Inl show ?thesis by (auto simp: loop_Cons)
  next
    case (Inr h)
    then have "fits l \<and> convertible windows (ans i) (Fd l)" using conv_Inr [of l] Cons.prems c by auto
    moreover have "snd (loop ans i ret (l # ls)) = snd (loop ans (Suc i) (ret @ [h]) ls)"
      using c Inr by (simp add: loop_Cons split: prod.splits)
    ultimately show ?thesis using Cons by simp
  qed
  then show ?case by (auto simp: less_Suc_eq_0_disj)
qed

end

interpretation stream_loop: listen_loop windows "\<lambda>l. \<not> is_UDPListener l" "lListen other windows" "listenLoop other windows"
proof
  fix l a ev h
  assume "builtin l"
  then show "lListen other windows a l = (ev, Inr h) \<longleftrightarrow>
      \<not> is_UDPListener l \<and> convertible windows a (Fd l) \<and> h = handleOf l \<and>
      ev = LvConvert h # fst (closeSourceDescriptor windows a (Fd l))"
    by (cases l) (auto simp: builtin_def TCPListener_Listen_def UDPListener_Listen_def UnixListener_Listen_def
        fromDescriptor_Inr handleOf_def)
next
  fix l a ev e
  assume "builtin l" and "lListen other windows a l = (ev, Inl e)"
  then show "closed ev = converted ev"
    by (cases l) (auto simp: builtin_def TCPListener_Listen_def UDPListener_Listen_def UnixListener_Listen_def
        dest: fromDescriptor_Inl)
qed simp_all

text \<open>The packet loop checks the type before it converts.\<close>

definition packetConv :: "bool \<Rightarrow> convAnswer \<Rightarrow> Listener \<Rightarrow> listenEvent list \<times> (listen_error + handle)" where
  "packetConv windows a l =
     (if is_UDPListener l then UDPListener_ListenPacket windows a (Fd l) else ([], Inl (ErrNotUDP (lString l))))"

interpretation packet_loop: listen_loop windows is_UDPListener "packetConv windows" "packetLoop windows"
proof
  fix l a ev h
  show "packetConv windows a l = (ev, Inr h) \<longleftrightarrow>
      is_UDPListener l \<and> convertible windows a (Fd l) \<and> h = handleOf l \<and>
      ev = LvConvert h # fst (closeSourceDescriptor windows a (Fd l))"
    by (cases l) (auto simp: packetConv_def UDPListener_ListenPacket_def fromDescriptor_Inr handleOf_def)
next
  fix l a ev e
  assume "packetConv windows a l = (ev, Inl e)"
  then show "closed ev = converted ev"
    by (auto simp: packetConv_def UDPListener_ListenPacket_def dest: fromDescriptor_Inl split: if_splits)
next
  fix ans i ret l ls
  show "packetLoop windows ans i ret (l # ls) =
      (case packetConv windows (ans i) l of
         (ev, Inl err) \<Rightarrow> (ev @ map LvClose ret, Inl err)
       | (ev, Inr h) \<Rightarrow> (case packetLoop windows ans (Suc i) (ret @ [h]) ls of (ev', r) \<Rightarrow> (ev @ ev', r)))"
    by (cases l) (simp_all add: packetConv_def)
qed simp_all

subsection \<open>What a worker gets\<close>

lemma Ports_builtin: "Ports env = Inr ls \<Longrightarrow> l \<in> set ls \<Longrightarrow> builtin l"
proof -
  assume p: "Ports env = Inr ls" and l: "l \<in> set ls"
  have parsed: "builtin m" if "ParsePorts spec = Inr ms" "m \<in> set ms" for spec ms m
    using ParsePorts_validParsed [OF that(1)] that(2) by (cases m) (auto simp: builtin_def)
  have "builtin l" if "applySocketTypes ms types = Inr ls" "ParsePorts spec = Inr ms" for spec ms types
  proof -
    from that(1) obtain ty where "assignTypes ty ms = Inr (ls, [])" "readTypes [] (goSplit (CHR '';'') types) = Inr ty"
      by (auto simp: applySocketTypes_def split: sum.splits prod.splits if_splits)
    then have "list_all2 retyped ms ls" using assignTypes_sound readTypes_distinct by fastforce
    with l obtain m where "m \<in> set ms" "retyped m l" by (blast dest: list_all2_preimage)
    with parsed [OF that(2)] show ?thesis by (auto simp: retyped_def NewUDPListener_def builtin_def)
  qed
  with p l parsed show ?thesis
    by (auto simp: Ports_def Let_def split: if_splits sum.splits option.splits)
qed

lemma ListenAll_ok:
  assumes "Ports env = Inr ls"
    and "\<forall>i < length ls. \<not> is_UDPListener (ls ! i) \<and> convertible windows (ans i) (Fd (ls ! i))"
  shows "\<exists>ev. ListenAll other windows ans env = (ev, Inr (map handleOf ls)) \<and>
     sourcesClosed windows ev = mset (map Fd ls) \<and> closed ev = {#}"
proof -
  have b: "\<forall>l \<in> set ls. builtin l" using Ports_builtin [OF assms(1)] by blast
  have "isOk (snd (listenLoop other windows ans 0 [] ls))"
    unfolding stream_loop.loop_ok_iff [OF b] using assms(2) by simp
  then obtain ev hs where l: "listenLoop other windows ans 0 [] ls = (ev, Inr hs)"
    by (cases "listenLoop other windows ans 0 [] ls") (auto simp: isOk_iff)
  from stream_loop.loop_success [OF l b] l assms(1) show ?thesis by (auto simp: ListenAll_def)
qed

text \<open>The balance of opened and closed handles, for streams and for packet connections.\<close>

definition balanced :: "bool \<Rightarrow> env \<Rightarrow> listenEvent list \<times> (listen_error + handle list) \<Rightarrow> bool" where
  "balanced windows env res \<longleftrightarrow>
     (case res of
        (ev, Inl err) \<Rightarrow> closed ev = converted ev
      | (ev, Inr hs) \<Rightarrow> closed ev = {#} \<and> converted ev = mset hs \<and>
          (\<exists>ls. Ports env = Inr ls \<and> hs = map handleOf ls \<and> sourcesClosed windows ev = mset (map Fd ls)))"

lemma ListenAll_balance: "balanced windows env (ListenAll other windows ans env)"
proof (cases "Ports env")
  case (Inr ls)
  then have b: "\<forall>l \<in> set ls. builtin l" using Ports_builtin by blast
  from Inr show ?thesis
    by (auto simp: balanced_def ListenAll_def b split: prod.splits sum.splits
        dest: stream_loop.loop_failure stream_loop.loop_success)
qed (simp add: balanced_def ListenAll_def)

lemma ListenPacketAll_balance: "balanced windows env (ListenPacketAll windows ans env)"
proof (cases "Ports env")
  case (Inr ls)
  then have b: "\<forall>l \<in> set ls. builtin l" using Ports_builtin by blast
  from Inr show ?thesis
    by (auto simp: balanced_def ListenPacketAll_def b split: prod.splits sum.splits
        dest: packet_loop.loop_failure packet_loop.loop_success)
qed (simp add: balanced_def ListenPacketAll_def)

text \<open>
  C26: turning all inherited descriptors into listeners, or into packet connections. It succeeds
  exactly when the environment names endpoints, all of them are of the kind asked for, and the
  system converts each one; then the result has one handle per endpoint, in the order of the
  environment, on the endpoint's descriptor, and every source descriptor has been given back. A
  failure at any point closes every handle it had created.
\<close>

theorem ListenAll_correct:
  "(case ListenAll other windows ans env of
      (ev, Inl err) \<Rightarrow> closed ev = converted ev
    | (ev, Inr hs) \<Rightarrow> closed ev = {#} \<and> converted ev = mset hs \<and>
        (\<exists>ls. Ports env = Inr ls \<and> hs = map handleOf ls \<and> sourcesClosed windows ev = mset (map Fd ls))) \<and>
   (isOk (snd (ListenAll other windows ans env)) \<longleftrightarrow>
      (\<exists>ls. Ports env = Inr ls \<and>
         (\<forall>i < length ls. \<not> is_UDPListener (ls ! i) \<and> convertible windows (ans i) (Fd (ls ! i))))) \<and>
   (case ListenPacketAll windows ans env of
      (ev, Inl err) \<Rightarrow> closed ev = converted ev
    | (ev, Inr hs) \<Rightarrow> closed ev = {#} \<and> converted ev = mset hs \<and>
        (\<exists>ls. Ports env = Inr ls \<and> hs = map handleOf ls \<and> sourcesClosed windows ev = mset (map Fd ls))) \<and>
   (isOk (snd (ListenPacketAll windows ans env)) \<longleftrightarrow>
      (\<exists>ls. Ports env = Inr ls \<and>
         (\<forall>i < length ls. is_UDPListener (ls ! i) \<and> convertible windows (ans i) (Fd (ls ! i)))))"
proof (cases "Ports env")
  case (Inl e)
  then show ?thesis by (simp add: ListenAll_def ListenPacketAll_def)
next
  case (Inr ls)
  then have b: "\<forall>l \<in> set ls. builtin l" using Ports_builtin by blast
  from Inr stream_loop.loop_ok_iff [OF b, of other windows ans 0 "[]"] packet_loop.loop_ok_iff [OF b, of windows ans 0 "[]"]
  have "isOk (snd (ListenAll other windows ans env)) \<longleftrightarrow>
      (\<forall>i < length ls. \<not> is_UDPListener (ls ! i) \<and> convertible windows (ans i) (Fd (ls ! i)))"
    "isOk (snd (ListenPacketAll windows ans env)) \<longleftrightarrow>
      (\<forall>i < length ls. is_UDPListener (ls ! i) \<and> convertible windows (ans i) (Fd (ls ! i)))"
    by (simp_all add: ListenAll_def ListenPacketAll_def)
  with Inr show ?thesis
    using ListenAll_balance [of windows env other ans] ListenPacketAll_balance [of windows env ans]
    by (simp add: balanced_def)
qed

definition calmConv :: convAnswer where
  "calmConv = \<lparr>cv_convErr = None, cv_closeErr = None, cv_socketErr = None\<rparr>"

definition noOther :: otherListen where
  "noOther l = ([], Inl ErrListenPacketRequired)"

theorem ListenAll_correct_witness:
  "\<exists>ev. ListenAll noOther False (\<lambda>i. calmConv) [PortEnvName \<mapsto> ''8080=3;/s=4''] = (ev, Inr [Handle EpTCP 3, Handle EpUnix 4]) \<and>
     sourcesClosed False ev = {#3, 4#} \<and>
     \<not> isOk (snd (ListenPacketAll False (\<lambda>i. calmConv) [PortEnvName \<mapsto> ''8080=3;/s=4'']))"
proof -
  let ?env = "[PortEnvName \<mapsto> ''8080=3;/s=4'']"
  have ports: "Ports ?env = Inr [TCPListener ''0.0.0.0'' 8080 3, UnixListener ''/s'' 4]" by code_simp
  note correct = ListenAll_correct [where other = noOther and windows = False and ans = "\<lambda>i. calmConv" and env = ?env]
  have conv: "convertible False calmConv 3" "convertible False calmConv 4"
    by (simp_all add: convertible_def newFileFails_def calmConv_def closeSourceDescriptor_def)
  then have "isOk (snd (ListenAll noOther False (\<lambda>i. calmConv) ?env))"
    using correct by (simp add: ports All_less_Suc numeral_2_eq_2)
  then obtain ev hs where r: "ListenAll noOther False (\<lambda>i. calmConv) ?env = (ev, Inr hs)"
    by (cases "ListenAll noOther False (\<lambda>i. calmConv) ?env") (auto simp: isOk_iff)
  have "hs = [Handle EpTCP 3, Handle EpUnix 4] \<and> sourcesClosed False ev = {#3, 4#}"
    using correct by (simp add: ports r handleOf_def)
  moreover have "\<not> isOk (snd (ListenPacketAll False (\<lambda>i. calmConv) ?env))"
    using correct by (auto simp: ports)
  ultimately show ?thesis using r by blast
qed

end
