(* ===== verification/OpenFiles.thy ===== *)
theory OpenFiles
  imports EnvDir StatusFile
begin

text \<open>
  How the files of the envdir and the state files are opened (\<open>env_open_unix.go\<close>,
  \<open>env_open_windows.go\<close>, \<open>status_open_unix.go\<close>, \<open>status_open_windows.go\<close>): the system call with its
  flags on whatever the path names. A reader follows no link in the place of the file, does not
  wait, and reads regular files only, on both systems.
\<close>

subsection \<open>The system calls\<close>

text \<open>
  What the last component of a path may name, in the directory that the components before it lead
  to; a link names something else or dangles. Links among the components before it are followed by
  the system on the way, whatever the flags are, and are not part of the model.
\<close>

datatype fileKind =
    KRegular
  | KDirectory
  | KFifo
  | KDevice
  | KSymlink "fileKind option"

text \<open>An open that waits, for the other end of a pipe, has not returned.\<close>

datatype openOutcome = Opens fileKind | OpenFails string | OpenBlocks

datatype oflag = O_RDONLY | O_CLOEXEC | O_NOFOLLOW | O_NONBLOCK

fun unixOpen :: "oflag list \<Rightarrow> fileKind option \<Rightarrow> openOutcome" where
  "unixOpen flags None = OpenFails ''ENOENT''"
| "unixOpen flags (Some (KSymlink t)) =
     (if O_NOFOLLOW \<in> set flags then OpenFails ''ELOOP'' else unixOpen flags t)"
| "unixOpen flags (Some KFifo) = (if O_NONBLOCK \<in> set flags then Opens KFifo else OpenBlocks)"
| "unixOpen flags (Some k) = Opens k"

datatype wflag = FILE_ATTRIBUTE_NORMAL | FILE_FLAG_OPEN_REPARSE_POINT | FILE_FLAG_BACKUP_SEMANTICS

text \<open>\<open>CreateFile\<close> of an existing file; a directory needs the backup flag.\<close>

fun createFile :: "wflag list \<Rightarrow> fileKind option \<Rightarrow> openOutcome" where
  "createFile flags None = OpenFails ''ERROR_FILE_NOT_FOUND''"
| "createFile flags (Some (KSymlink t)) =
     (if FILE_FLAG_OPEN_REPARSE_POINT \<in> set flags then Opens (KSymlink t) else createFile flags t)"
| "createFile flags (Some KDirectory) =
     (if FILE_FLAG_BACKUP_SEMANTICS \<in> set flags then Opens KDirectory else OpenFails ''ERROR_ACCESS_DENIED'')"
| "createFile flags (Some k) = Opens k"

text \<open>
  A name with a zero byte is refused before the call; \<open>fault\<close> is an error of the call that has
  nothing to do with the kind of the file, such as missing rights.
\<close>

definition openCall :: "string \<Rightarrow> string option \<Rightarrow> openOutcome \<Rightarrow> openOutcome" where
  "openCall name fault called =
     (if CHR 0x00 \<in> set name then OpenFails ''EINVAL''
      else case fault of Some e \<Rightarrow> OpenFails e | None \<Rightarrow> called)"

subsection \<open>Files of the envdir\<close>

definition openEnvFile_unix :: "string \<Rightarrow> string option \<Rightarrow> fileKind option \<Rightarrow> openOutcome" where
  "openEnvFile_unix name fault kind =
     openCall name fault (unixOpen [O_RDONLY, O_CLOEXEC, O_NOFOLLOW, O_NONBLOCK] kind)"

definition openEnvFile_windows :: "string \<Rightarrow> string option \<Rightarrow> fileKind option \<Rightarrow> openOutcome" where
  "openEnvFile_windows name fault kind =
     openCall name fault (createFile [FILE_ATTRIBUTE_NORMAL, FILE_FLAG_OPEN_REPARSE_POINT] kind)"

text \<open>
  The rest of \<open>openEnvFile\<close>, the check of the opened file, which both builds share. \<open>None\<close>
  means that the call does not return.
\<close>

definition openEntryAt :: "bool \<Rightarrow> string option \<Rightarrow> fileKind option \<Rightarrow> envEntry \<Rightarrow> env_error option option" where
  "openEntryAt windows fault kind e =
     (case (if windows then openEnvFile_windows (e_name e) fault kind else openEnvFile_unix (e_name e) fault kind) of
        OpenBlocks \<Rightarrow> None
      | OpenFails err \<Rightarrow> Some (openEnvFile (e\<lparr>e_openErr := Some err\<rparr>))
      | Opens k \<Rightarrow> Some (openEnvFile (e\<lparr>e_openErr := None, e_statRegular := (k = KRegular)\<rparr>)))"

subsection \<open>State files\<close>

definition openStateFile_unix :: "string \<Rightarrow> string option \<Rightarrow> fileKind option \<Rightarrow> openOutcome" where
  "openStateFile_unix path fault kind =
     openCall path fault (unixOpen [O_RDONLY, O_NONBLOCK, O_CLOEXEC, O_NOFOLLOW] kind)"

definition openStateFile_windows :: "string \<Rightarrow> string option \<Rightarrow> fileKind option \<Rightarrow> openOutcome" where
  "openStateFile_windows path fault kind =
     openCall path fault (createFile [FILE_FLAG_BACKUP_SEMANTICS, FILE_FLAG_OPEN_REPARSE_POINT] kind)"

definition stateFileAt ::
  "bool \<Rightarrow> string \<Rightarrow> string option \<Rightarrow> fileKind option \<Rightarrow> stateFile \<Rightarrow> stateFile option" where
  "stateFileAt windows path fault kind f =
     (case (if windows then openStateFile_windows path fault kind else openStateFile_unix path fault kind) of
        OpenBlocks \<Rightarrow> None
      | OpenFails err \<Rightarrow> Some (f\<lparr>s_openErr := Some err\<rparr>)
      | Opens k \<Rightarrow> Some (f\<lparr>s_openErr := None, s_regular := (k = KRegular)\<rparr>))"

subsection \<open>Both systems open regular files only\<close>

definition regularOnly :: "string \<Rightarrow> string option \<Rightarrow> fileKind option \<Rightarrow> openOutcome \<Rightarrow> bool" where
  "regularOnly name fault kind out \<longleftrightarrow>
     out \<noteq> OpenBlocks \<and> (out = Opens KRegular \<longleftrightarrow> CHR 0x00 \<notin> set name \<and> fault = None \<and> kind = Some KRegular)"

lemma openCall_regularOnly:
  "called \<noteq> OpenBlocks \<Longrightarrow> (called = Opens KRegular \<longleftrightarrow> kind = Some KRegular) \<Longrightarrow>
     regularOnly name fault kind (openCall name fault called)"
  by (cases fault) (simp_all add: openCall_def regularOnly_def)

lemma unixOpen_regular:
  assumes "O_NOFOLLOW \<in> set flags" and "O_NONBLOCK \<in> set flags"
  shows "unixOpen flags kind \<noteq> OpenBlocks \<and> (unixOpen flags kind = Opens KRegular \<longleftrightarrow> kind = Some KRegular)"
proof (cases kind)
  case (Some k)
  with assms show ?thesis by (cases k) simp_all
qed simp

lemma createFile_regular:
  assumes "FILE_FLAG_OPEN_REPARSE_POINT \<in> set flags"
  shows "createFile flags kind \<noteq> OpenBlocks \<and> (createFile flags kind = Opens KRegular \<longleftrightarrow> kind = Some KRegular)"
proof (cases kind)
  case (Some k)
  with assms show ?thesis by (cases k) simp_all
qed simp

lemma opens_regularOnly:
  "regularOnly name fault kind (openEnvFile_unix name fault kind)"
  "regularOnly name fault kind (openEnvFile_windows name fault kind)"
  "regularOnly name fault kind (openStateFile_unix name fault kind)"
  "regularOnly name fault kind (openStateFile_windows name fault kind)"
  unfolding openEnvFile_unix_def openEnvFile_windows_def openStateFile_unix_def openStateFile_windows_def
  by (rule openCall_regularOnly; simp add: unixOpen_regular createFile_regular)+

lemma openEntryAt_iff:
  "\<exists>r. openEntryAt windows fault kind e = Some r \<and>
     (r = None \<longleftrightarrow> CHR 0x00 \<notin> set (e_name e) \<and> fault = None \<and> kind = Some KRegular \<and> e_statErr e = None)"
proof -
  let ?out = "if windows then openEnvFile_windows (e_name e) fault kind else openEnvFile_unix (e_name e) fault kind"
  have "regularOnly (e_name e) fault kind ?out" by (simp add: opens_regularOnly)
  then show ?thesis unfolding openEntryAt_def
    by (cases ?out) (auto simp: regularOnly_def openEnvFile_def split: option.splits)
qed

lemma readStateFile_not_opened:
  "\<not> isOk (readStateFile (f\<lparr>s_openErr := Some err\<rparr>) n)"
  "\<not> isOk (readStateFile (f\<lparr>s_openErr := None, s_regular := False\<rparr>) n)"
  by (cases "s_ctxErr1 f"; cases "s_statErr f"; simp add: readStateFile_def)+

lemma stateFileAt_iff:
  "\<exists>f'. stateFileAt windows path fault kind f = Some f' \<and>
     (isOk (readStateFile f' n) \<longleftrightarrow> CHR 0x00 \<notin> set path \<and> fault = None \<and> kind = Some KRegular \<and>
        isOk (readStateFile (f\<lparr>s_openErr := None, s_regular := True\<rparr>) n))"
proof -
  let ?out = "if windows then openStateFile_windows path fault kind else openStateFile_unix path fault kind"
  have r: "regularOnly path fault kind ?out" by (simp add: opens_regularOnly)
  show ?thesis
  proof (cases ?out)
    case (Opens k)
    with r show ?thesis unfolding stateFileAt_def
      by (cases "k = KRegular") (auto simp: regularOnly_def readStateFile_not_opened)
  next
    case (OpenFails err)
    with r show ?thesis unfolding stateFileAt_def by (auto simp: regularOnly_def readStateFile_not_opened)
  next
    case OpenBlocks
    with r show ?thesis by (simp add: regularOnly_def)
  qed
qed

text \<open>
  C29: whatever is behind the name, on Unix and on Windows alike, opening a file of the envdir or a
  state file returns, also on a pipe that nobody writes to; an envdir entry is accepted exactly
  when its name in the directory is that of a regular file itself, not of a link to one, and
  nothing fails; and a state file is read only when the last component of its path is.
\<close>

theorem opens_only_regular:
  "(\<exists>r. openEntryAt windows fault kind e = Some r \<and>
      (r = None \<longleftrightarrow> CHR 0x00 \<notin> set (e_name e) \<and> fault = None \<and> kind = Some KRegular \<and> e_statErr e = None)) \<and>
   (\<exists>f'. stateFileAt windows path fault kind f = Some f' \<and>
      (isOk (readStateFile f' n) \<longleftrightarrow> CHR 0x00 \<notin> set path \<and> fault = None \<and> kind = Some KRegular \<and>
         isOk (readStateFile (f\<lparr>s_openErr := None, s_regular := True\<rparr>) n)))"
  by (rule conjI [OF openEntryAt_iff stateFileAt_iff])

end
