(* ===== verification/PidLock.thy ===== *)
theory PidLock
  imports PidFile
begin

text \<open>
  Acquiring and releasing the pid file (\<open>internal/statefile/pidfile.go\<close>, \<open>pidfile_unix.go\<close>,
  \<open>pidfile_lock_linux.go\<close>). Several supervisors may be started on the same path at once, so the
  model runs them interleaved: one step of a process is one system call of \<open>Acquire\<close> or
  \<open>Close\<close>, each of which may fail, and a process may crash at any moment. The pathname and
  the inodes it has named are one shared state. On Linux the two kinds of locks are independent
  and \<open>lockFile\<close> takes both; on other Unix systems they are one (\<open>fs_unified\<close>), \<open>lockFile\<close> takes
  the \<open>flock\<close> lock only (\<open>pidfile_lock_other.go\<close>), and its owner is reported as that of a record
  lock.
\<close>

record pidFS =
  fs_unified :: bool
  fs_path :: "nat option"
  fs_extra :: "nat \<Rightarrow> nat"
  fs_regular :: "nat \<Rightarrow> bool"
  fs_owner :: "nat \<Rightarrow> uid"
  fs_data :: "nat \<Rightarrow> string"
  fs_flock :: "nat \<Rightarrow> pid option"
  fs_record :: "nat \<Rightarrow> pid option"
  fs_next :: nat

text \<open>The link count: the pathname itself and hard links made elsewhere.\<close>

definition linkCount :: "pidFS \<Rightarrow> nat \<Rightarrow> nat" where
  "linkCount fs i = fs_extra fs i + (if fs_path fs = Some i then 1 else 0)"

datatype acquire_error =
    ErrAcqOpen string
  | ErrAcqInspect string
  | ErrAcqNotRegular
  | ErrAcqOwner uid
  | ErrAcqLinks nat
  | ErrPIDFileLocked "pid option"
  | ErrAcqLock string
  | ErrAcqWrite string

datatype lockFailure = LockBusy | LockErr string

definition lockUnavailable :: "lockFailure \<Rightarrow> bool" where
  "lockUnavailable e \<longleftrightarrow> e = LockBusy"

text \<open>The control points of \<open>acquire\<close> and of \<open>closePIDFile\<close>, with the inode of the open file.\<close>

datatype pc =
    PcStart
  | PcExists
  | PcOpened nat
  | PcInspected nat
  | PcFlocked nat
  | PcLocked nat
  | PcLinked nat
  | PcTruncated nat
  | PcWritten nat
  | PcHeld nat
  | PcLockFailed nat lockFailure
  | PcAbort nat acquire_error
  | PcFailed acquire_error
  | PcRemoving nat
  | PcClosing nat
  | PcReleased

definition readOwnerPID :: "string option \<Rightarrow> string \<Rightarrow> pid option" where
  "readOwnerPID readErr text =
     (case readErr of
        Some _ \<Rightarrow> None
      | None \<Rightarrow>
          (case parseInt 32 (trimSpace (limitRead pidTextSize text)) of
             Inl _ \<Rightarrow> None
           | Inr p \<Rightarrow> if p > 0 then Some p else None))"

text \<open>Closing the file drops the locks the process has on it.\<close>

definition closeFile :: "pid \<Rightarrow> nat \<Rightarrow> pidFS \<Rightarrow> pidFS" where
  "closeFile me i fs =
     fs\<lparr>fs_flock := (fs_flock fs)(i := (if fs_flock fs i = Some me then None else fs_flock fs i)),
        fs_record := (fs_record fs)(i := (if fs_record fs i = Some me then None else fs_record fs i))\<rparr>"

text \<open>\<open>openPIDFile\<close>: exclusive creation, then opening what is there, then the inspection.\<close>

definition createPIDFile :: "uid \<Rightarrow> pidFS \<Rightarrow> pidFS \<times> pc" where
  "createPIDFile euid fs =
     (case fs_path fs of
        Some _ \<Rightarrow> (fs, PcExists)
      | None \<Rightarrow>
          let i = fs_next fs in
          (fs\<lparr>fs_path := Some i, fs_extra := (fs_extra fs)(i := 0), fs_regular := (fs_regular fs)(i := True),
              fs_owner := (fs_owner fs)(i := euid), fs_data := (fs_data fs)(i := []),
              fs_flock := (fs_flock fs)(i := None), fs_record := (fs_record fs)(i := None),
              fs_next := Suc i\<rparr>, PcOpened i))"

definition inspectPIDFile :: "uid \<Rightarrow> pidFS \<Rightarrow> nat \<Rightarrow> pc" where
  "inspectPIDFile euid fs i =
     (if \<not> fs_regular fs i then PcAbort i ErrAcqNotRegular
      else if fs_owner fs i \<noteq> euid then PcAbort i (ErrAcqOwner (fs_owner fs i))
      else if linkCount fs i \<noteq> 1 then PcAbort i (ErrAcqLinks (linkCount fs i))
      else PcInspected i)"

definition validatePIDFileLinkCount :: "pidFS \<Rightarrow> nat \<Rightarrow> pc" where
  "validatePIDFileLinkCount fs i =
     (if linkCount fs i \<noteq> 1 then PcAbort i (ErrAcqLinks (linkCount fs i)) else PcLinked i)"

text \<open>
  \<open>lockFile\<close> takes the \<open>flock\<close> lock and, on Linux, then the record lock. A \<open>flock\<close> lock belongs to
  one opening of the file, so that it also contends with the same process; a record lock belongs to
  the process.
\<close>

definition takeFlock :: "pid \<Rightarrow> pidFS \<Rightarrow> nat \<Rightarrow> pidFS \<times> pc" where
  "takeFlock me fs i =
     (if fs_flock fs i \<noteq> None then (fs, PcLockFailed i LockBusy)
      else if fs_unified fs
      then (fs\<lparr>fs_flock := (fs_flock fs)(i := Some me), fs_record := (fs_record fs)(i := Some me)\<rparr>, PcLocked i)
      else (fs\<lparr>fs_flock := (fs_flock fs)(i := Some me)\<rparr>, PcFlocked i))"

definition takeRecordLock :: "pid \<Rightarrow> pidFS \<Rightarrow> nat \<Rightarrow> pidFS \<times> pc" where
  "takeRecordLock me fs i =
     (if fs_record fs i \<notin> {None, Some me} then (fs, PcLockFailed i LockBusy)
      else (fs\<lparr>fs_record := (fs_record fs)(i := Some me)\<rparr>, PcLocked i))"

text \<open>One system call; the argument is its error, if it fails for a reason of its own.\<close>

fun pidStep :: "uid \<Rightarrow> pid \<Rightarrow> string option \<Rightarrow> pidFS \<Rightarrow> pc \<Rightarrow> pidFS \<times> pc" where
  "pidStep euid me (Some e) fs PcStart = (fs, PcFailed (ErrAcqOpen e))"
| "pidStep euid me None fs PcStart = createPIDFile euid fs"
| "pidStep euid me (Some e) fs PcExists = (fs, PcFailed (ErrAcqOpen e))"
| "pidStep euid me None fs PcExists =
     (fs, case fs_path fs of Some i \<Rightarrow> PcOpened i | None \<Rightarrow> PcFailed (ErrAcqOpen ''ENOENT''))"
| "pidStep euid me (Some e) fs (PcOpened i) = (fs, PcAbort i (ErrAcqInspect e))"
| "pidStep euid me None fs (PcOpened i) = (fs, inspectPIDFile euid fs i)"
| "pidStep euid me (Some e) fs (PcInspected i) = (fs, PcLockFailed i (LockErr e))"
| "pidStep euid me None fs (PcInspected i) = takeFlock me fs i"
| "pidStep euid me (Some e) fs (PcFlocked i) = (fs, PcLockFailed i (LockErr e))"
| "pidStep euid me None fs (PcFlocked i) = takeRecordLock me fs i"
| "pidStep euid me r fs (PcLockFailed i e) =
     (fs, PcAbort i (if lockUnavailable e then ErrPIDFileLocked (readOwnerPID r (fs_data fs i))
                     else ErrAcqLock (case e of LockErr s \<Rightarrow> s | LockBusy \<Rightarrow> [])))"
| "pidStep euid me (Some e) fs (PcLocked i) = (fs, PcAbort i (ErrAcqInspect e))"
| "pidStep euid me None fs (PcLocked i) = (fs, validatePIDFileLinkCount fs i)"
| "pidStep euid me (Some e) fs (PcLinked i) = (fs, PcAbort i (ErrAcqWrite e))"
| "pidStep euid me None fs (PcLinked i) = (fs\<lparr>fs_data := (fs_data fs)(i := [])\<rparr>, PcTruncated i)"
| "pidStep euid me (Some e) fs (PcTruncated i) = (fs, PcAbort i (ErrAcqWrite e))"
| "pidStep euid me None fs (PcTruncated i) =
     (fs\<lparr>fs_data := (fs_data fs)(i := fs_data fs i @ itoa me @ [CHR 0x0A])\<rparr>, PcWritten i)"
| "pidStep euid me (Some e) fs (PcWritten i) = (fs, PcAbort i (ErrAcqWrite e))"
| "pidStep euid me None fs (PcWritten i) = (fs, PcHeld i)"
| "pidStep euid me r fs (PcAbort i e) = (closeFile me i fs, PcFailed e)"
| "pidStep euid me r fs (PcHeld i) =
     (fs, if r = None \<and> fs_path fs = Some i then PcRemoving i else PcClosing i)"
| "pidStep euid me (Some e) fs (PcRemoving i) = (fs, PcClosing i)"
| "pidStep euid me None fs (PcRemoving i) = (fs\<lparr>fs_path := None\<rparr>, PcClosing i)"
| "pidStep euid me r fs (PcClosing i) = (closeFile me i fs, PcReleased)"
| "pidStep euid me r fs (PcFailed e) = (fs, PcFailed e)"
| "pidStep euid me r fs PcReleased = (fs, PcReleased)"

text \<open>
  \<open>Acquire\<close> and \<open>Close\<close> of one process, given the errors of its system calls; the calls
  beyond the list succeed.
\<close>

fun acquireDone :: "pc \<Rightarrow> bool" where
  "acquireDone (PcHeld i) = True"
| "acquireDone (PcFailed e) = True"
| "acquireDone PcReleased = True"
| "acquireDone _ = False"

definition nextFault :: "string option list \<Rightarrow> string option" where
  "nextFault fs = (case fs of [] \<Rightarrow> None | f # _ \<Rightarrow> f)"

fun runAcquire :: "nat \<Rightarrow> uid \<Rightarrow> pid \<Rightarrow> string option list \<Rightarrow> pidFS \<Rightarrow> pc \<Rightarrow> pidFS \<times> pc" where
  "runAcquire 0 euid me faults fs p = (fs, p)"
| "runAcquire (Suc n) euid me faults fs p =
     (if acquireDone p then (fs, p)
      else (case pidStep euid me (nextFault faults) fs p of
              (fs', p') \<Rightarrow> runAcquire n euid me (tl faults) fs' p'))"

definition Acquire :: "uid \<Rightarrow> pid \<Rightarrow> string option list \<Rightarrow> pidFS \<Rightarrow> pidFS \<times> pc" where
  "Acquire euid me faults fs = runAcquire 10 euid me faults fs PcStart"

definition closePIDFile :: "uid \<Rightarrow> pid \<Rightarrow> string option list \<Rightarrow> pidFS \<Rightarrow> nat \<Rightarrow> pidFS \<times> pc" where
  "closePIDFile euid me faults fs i =
     (case pidStep euid me (nextFault faults) fs (PcHeld i) of (fs1, p1) \<Rightarrow>
      case pidStep euid me (nextFault (tl faults)) fs1 p1 of (fs2, p2) \<Rightarrow>
      if p2 = PcReleased then (fs2, p2) else pidStep euid me None fs2 p2)"

text \<open>
  The handle that \<open>Acquire\<close> returns: the inode behind it while it is open, and the path. \<open>Close\<close> of a
  nil handle, or of one that was closed before, does nothing.
\<close>

record PIDFile =
  pf_file :: "nat option"
  pf_path :: string

definition PIDFile_Close ::
  "uid \<Rightarrow> pid \<Rightarrow> string option list \<Rightarrow> pidFS \<Rightarrow> PIDFile option \<Rightarrow> pidFS \<times> PIDFile option" where
  "PIDFile_Close euid me faults fs p =
     (case p of
        None \<Rightarrow> (fs, p)
      | Some h \<Rightarrow>
          (case pf_file h of
             None \<Rightarrow> (fs, p)
           | Some i \<Rightarrow> (fst (closePIDFile euid me faults fs i), Some (h\<lparr>pf_file := None\<rparr>))))"

subsection \<open>Interleaved processes\<close>

record pidSys =
  ps_fs :: pidFS
  ps_pc :: "pid \<Rightarrow> pc"

definition crashFS :: "pid \<Rightarrow> pidFS \<Rightarrow> pidFS" where
  "crashFS me fs =
     fs\<lparr>fs_flock := (\<lambda>i. if fs_flock fs i = Some me then None else fs_flock fs i),
        fs_record := (\<lambda>i. if fs_record fs i = Some me then None else fs_record fs i)\<rparr>"

inductive pidSysStep :: "uid \<Rightarrow> pidSys \<Rightarrow> pidSys \<Rightarrow> bool" for euid where
  pid_call: "pidStep euid me fault (ps_fs s) (ps_pc s me) = (fs', p') \<Longrightarrow>
     pidSysStep euid s \<lparr>ps_fs = fs', ps_pc = (ps_pc s)(me := p')\<rparr>"
| pid_crash: "pidSysStep euid s \<lparr>ps_fs = crashFS me (ps_fs s), ps_pc = (ps_pc s)(me := PcReleased)\<rparr>"

inductive_cases pidSysStepE: "pidSysStep euid s t"

text \<open>At the start nobody has the file open; a file of an earlier supervisor may be there.\<close>

definition pidInit :: "pidSys \<Rightarrow> bool" where
  "pidInit s \<longleftrightarrow> (\<forall>p. ps_pc s p = PcStart) \<and> (\<forall>i. fs_flock (ps_fs s) i = None \<and> fs_record (ps_fs s) i = None) \<and>
     (\<forall>i. fs_path (ps_fs s) = Some i \<longrightarrow> i < fs_next (ps_fs s))"

subsection \<open>The invariant\<close>

text \<open>The inode a process has open, has locked, has record-locked, and owns with its name.\<close>

fun openInode :: "pc \<Rightarrow> nat option" where
  "openInode PcStart = None" | "openInode PcExists = None" | "openInode (PcFailed e) = None"
| "openInode PcReleased = None"
| "openInode (PcOpened i) = Some i" | "openInode (PcInspected i) = Some i" | "openInode (PcFlocked i) = Some i"
| "openInode (PcLocked i) = Some i" | "openInode (PcLinked i) = Some i" | "openInode (PcTruncated i) = Some i"
| "openInode (PcWritten i) = Some i" | "openInode (PcHeld i) = Some i" | "openInode (PcLockFailed i f) = Some i"
| "openInode (PcAbort i e) = Some i" | "openInode (PcRemoving i) = Some i" | "openInode (PcClosing i) = Some i"

fun ownsInode :: "pc \<Rightarrow> nat option" where
  "ownsInode (PcLinked i) = Some i" | "ownsInode (PcTruncated i) = Some i" | "ownsInode (PcWritten i) = Some i"
| "ownsInode (PcHeld i) = Some i" | "ownsInode (PcRemoving i) = Some i" | "ownsInode _ = None"

fun recordInode :: "pc \<Rightarrow> nat option" where
  "recordInode (PcLocked i) = Some i" | "recordInode (PcClosing i) = Some i" | "recordInode c = ownsInode c"

fun flockInode :: "pc \<Rightarrow> nat option" where
  "flockInode (PcFlocked i) = Some i" | "flockInode c = recordInode c"

fun writtenInode :: "pc \<Rightarrow> nat option" where
  "writtenInode (PcWritten i) = Some i" | "writtenInode (PcHeld i) = Some i"
| "writtenInode (PcRemoving i) = Some i" | "writtenInode _ = None"

definition pidText :: "pid \<Rightarrow> string" where
  "pidText p = itoa p @ [CHR 0x0A]"

definition okAt :: "pidFS \<Rightarrow> pid \<Rightarrow> pc \<Rightarrow> bool" where
  "okAt fs p c \<longleftrightarrow>
     (\<forall>i. openInode c = Some i \<longrightarrow> i < fs_next fs \<and> (0 < fs_extra fs i \<longrightarrow> fs_path fs = Some i)) \<and>
     (\<forall>i. flockInode c = Some i \<longrightarrow> fs_flock fs i = Some p) \<and>
     (\<forall>i. recordInode c = Some i \<longrightarrow> fs_record fs i = Some p) \<and>
     (\<forall>i. ownsInode c = Some i \<longrightarrow> fs_path fs = Some i \<and> fs_extra fs i = 0) \<and>
     (\<forall>i. c = PcTruncated i \<longrightarrow> fs_data fs i = []) \<and>
     (\<forall>i. writtenInode c = Some i \<longrightarrow> fs_data fs i = pidText p)"

definition pathFresh :: "pidFS \<Rightarrow> bool" where
  "pathFresh fs \<longleftrightarrow> (\<forall>i. fs_path fs = Some i \<longrightarrow> i < fs_next fs)"

definition pidInv :: "pidSys \<Rightarrow> bool" where
  "pidInv s \<longleftrightarrow> pathFresh (ps_fs s) \<and> (\<forall>p. okAt (ps_fs s) p (ps_pc s p))"

lemma inode_hierarchy:
  "writtenInode c = Some i \<Longrightarrow> ownsInode c = Some i" "ownsInode c = Some i \<Longrightarrow> recordInode c = Some i"
  "recordInode c = Some i \<Longrightarrow> flockInode c = Some i" "flockInode c = Some i \<Longrightarrow> openInode c = Some i"
  by (cases c; simp)+

abbreviation okOpen :: "pidFS \<Rightarrow> nat \<Rightarrow> bool" where
  "okOpen fs i \<equiv> i < fs_next fs \<and> (0 < fs_extra fs i \<longrightarrow> fs_path fs = Some i)"

abbreviation okOwned :: "pidFS \<Rightarrow> pid \<Rightarrow> nat \<Rightarrow> bool" where
  "okOwned fs p i \<equiv> i < fs_next fs \<and> fs_flock fs i = Some p \<and> fs_record fs i = Some p \<and>
     fs_path fs = Some i \<and> fs_extra fs i = 0"

lemma okAt_simps [simp]:
  "okAt fs p PcStart" "okAt fs p PcExists" "okAt fs p (PcFailed e)" "okAt fs p PcReleased"
  "okAt fs p (PcOpened i) \<longleftrightarrow> okOpen fs i" "okAt fs p (PcInspected i) \<longleftrightarrow> okOpen fs i"
  "okAt fs p (PcLockFailed i lf) \<longleftrightarrow> okOpen fs i" "okAt fs p (PcAbort i e) \<longleftrightarrow> okOpen fs i"
  "okAt fs p (PcFlocked i) \<longleftrightarrow> okOpen fs i \<and> fs_flock fs i = Some p"
  "okAt fs p (PcLocked i) \<longleftrightarrow> okOpen fs i \<and> fs_flock fs i = Some p \<and> fs_record fs i = Some p"
  "okAt fs p (PcClosing i) \<longleftrightarrow> okOpen fs i \<and> fs_flock fs i = Some p \<and> fs_record fs i = Some p"
  "okAt fs p (PcLinked i) \<longleftrightarrow> okOwned fs p i"
  "okAt fs p (PcTruncated i) \<longleftrightarrow> okOwned fs p i \<and> fs_data fs i = []"
  "okAt fs p (PcWritten i) \<longleftrightarrow> okOwned fs p i \<and> fs_data fs i = pidText p"
  "okAt fs p (PcHeld i) \<longleftrightarrow> okOwned fs p i \<and> fs_data fs i = pidText p"
  "okAt fs p (PcRemoving i) \<longleftrightarrow> okOwned fs p i \<and> fs_data fs i = pidText p"
  by (auto simp: okAt_def)

text \<open>The system calls that change the shared state, seen by another process.\<close>

lemma other_create:
  assumes "okAt fs q d" and "createPIDFile euid fs = (fs', c')"
  shows "okAt fs' q d"
proof (cases "fs_path fs")
  case None
  have "openInode d = Some i \<Longrightarrow> i < fs_next fs \<and> fs_extra fs i = 0" for i
    using assms(1) None by (auto simp: okAt_def)
  with assms None show ?thesis
    by (auto simp: okAt_def createPIDFile_def Let_def dest: inode_hierarchy) (use inode_hierarchy in fastforce)+
next
  case (Some i)
  with assms show ?thesis by (simp add: createPIDFile_def)
qed

lemma other_flock:
  "okAt fs q d \<Longrightarrow> q \<noteq> me \<Longrightarrow> takeFlock me fs i = (fs', c') \<Longrightarrow> okAt fs' q d"
  using inode_hierarchy(3) [of d] by (auto simp: okAt_def takeFlock_def split: if_splits)

lemma other_record:
  "okAt fs q d \<Longrightarrow> q \<noteq> me \<Longrightarrow> takeRecordLock me fs i = (fs', c') \<Longrightarrow> okAt fs' q d"
  by (auto simp: okAt_def takeRecordLock_def split: if_splits)

lemma other_close: "okAt fs q d \<Longrightarrow> q \<noteq> me \<Longrightarrow> okAt (closeFile me i fs) q d"
  by (auto simp: okAt_def closeFile_def)

lemma other_crash: "okAt fs q d \<Longrightarrow> q \<noteq> me \<Longrightarrow> okAt (crashFS me fs) q d"
  by (auto simp: okAt_def crashFS_def)

lemma okAt_flock: "okAt fs q d \<Longrightarrow> flockInode d = Some i \<Longrightarrow> fs_flock fs i = Some q"
  by (simp add: okAt_def)

lemma other_write:
  assumes "okAt fs q d" and "q \<noteq> me" and "fs_flock fs i = Some me"
  shows "okAt (fs\<lparr>fs_data := (fs_data fs)(i := x)\<rparr>) q d"
proof -
  have "flockInode d \<noteq> Some i" using okAt_flock [OF assms(1)] assms(2,3) by auto
  then have "ownsInode d \<noteq> Some i" using inode_hierarchy by metis
  then have "d \<noteq> PcTruncated i" "writtenInode d \<noteq> Some i" using inode_hierarchy(1) [of d i] by auto
  with assms(1) show ?thesis by (auto simp: okAt_def)
qed

lemma other_remove:
  assumes "okAt fs q d" and "q \<noteq> me" and "okAt fs me (PcRemoving i)"
  shows "okAt (fs\<lparr>fs_path := None\<rparr>) q d"
proof -
  have m: "fs_path fs = Some i" "fs_extra fs i = 0" "fs_flock fs i = Some me"
    using assms(3) by (auto simp: okAt_def)
  then have "flockInode d \<noteq> Some i" using okAt_flock [OF assms(1)] assms(2) by auto
  then have "ownsInode d \<noteq> Some i" using inode_hierarchy by metis
  with assms(1) m have "ownsInode d = None" by (cases "ownsInode d") (auto simp: okAt_def)
  with assms(1) m show ?thesis by (auto simp: okAt_def)
qed

lemma step_other:
  assumes "okAt fs me c" and o: "okAt fs q d" and n: "q \<noteq> me" and s: "pidStep euid me f fs c = (fs', c')"
  shows "okAt fs' q d"
proof (cases c)
  case PcStart
  with s o show ?thesis by (cases f) (auto intro: other_create)
next
  case (PcInspected i)
  with s o n show ?thesis by (cases f) (auto intro: other_flock)
next
  case (PcFlocked i)
  with s o n show ?thesis by (cases f) (auto intro: other_record)
next
  case (PcLinked i)
  with s o n assms(1) show ?thesis by (cases f) (auto intro: other_write)
next
  case (PcTruncated i)
  with s o n assms(1) show ?thesis by (cases f) (auto intro: other_write)
next
  case (PcRemoving i)
  with s o n assms(1) show ?thesis by (cases f) (simp, use other_remove [of fs q d me i] in auto)
next
  case (PcAbort i e)
  with s o n show ?thesis by (auto intro: other_close)
next
  case (PcClosing i)
  with s o n show ?thesis by (auto intro: other_close)
qed (use s o in \<open>cases f; simp\<close>)+

lemma step_self:
  assumes "okAt fs me c" and "pathFresh fs" and "pidStep euid me f fs c = (fs', c')"
  shows "okAt fs' me c' \<and> pathFresh fs'"
  using assms
  by (cases c; cases f)
     (auto simp: pathFresh_def createPIDFile_def Let_def inspectPIDFile_def takeFlock_def
       takeRecordLock_def validatePIDFileLinkCount_def linkCount_def closeFile_def pidText_def
       split: option.splits if_splits)

text \<open>The interleaved system keeps the invariant.\<close>

interpretation pidlock: invariant_system pidInit "pidSysStep euid" pidInv
proof unfold_locales
  fix s
  assume "pidInit s"
  then show "pidInv s" by (simp add: pidInit_def pidInv_def pathFresh_def)
next
  fix s t
  assume i: "pidInv s" and "pidSysStep euid s t"
  from this(2) show "pidInv t"
  proof cases
    case (pid_call me fault fs' p')
    have me: "okAt (ps_fs s) me (ps_pc s me)" "pathFresh (ps_fs s)" using i by (auto simp: pidInv_def)
    note self = step_self [OF me pid_call(2)]
    have "okAt fs' q (ps_pc s q)" if "q \<noteq> me" for q
      using step_other [OF me(1) _ that pid_call(2)] i by (simp add: pidInv_def)
    with self show ?thesis unfolding pid_call(1) by (simp add: pidInv_def)
  next
    case (pid_crash me)
    have "pathFresh (crashFS me (ps_fs s))" using i by (simp add: pidInv_def pathFresh_def crashFS_def)
    with i other_crash show ?thesis unfolding pid_crash(1) by (auto simp: pidInv_def)
  qed
qed

subsection \<open>The abstract lock\<close>

text \<open>
  What the pid file is for: a lock that one process at a time takes and gives back. The owner is
  read off the shared state, as the process that has locked the inode the path names and is past
  its link check.
\<close>

inductive ownStep :: "pid \<Rightarrow> pid option \<Rightarrow> pid option \<Rightarrow> bool" where
  own_take: "ownStep p None (Some p)"
| own_give: "ownStep p (Some p) None"

text \<open>
  The contract of a system of processes of which at most one owns the resource: \<open>view\<close> is the
  control of a process, \<open>holds\<close> says of a control whether it owns the resource, \<open>own\<close> reads the
  owner off the shared state, and a step moves one process. Such a system implements the lock:
  ownership changes hands only by the process that takes it from nobody or gives it back to
  nobody, and steps of the others leave the owner in possession.
\<close>

locale exclusive_owner = invariant_system init step inv
  for init :: "'s \<Rightarrow> bool" and step :: "'s \<Rightarrow> 's \<Rightarrow> bool" and inv :: "'s \<Rightarrow> bool" +
  fixes own :: "'s \<Rightarrow> pid option"
    and view :: "'s \<Rightarrow> pid \<Rightarrow> 'c"
    and holds :: "'c \<Rightarrow> bool"
  assumes own_iff: "inv s \<Longrightarrow> own s = Some p \<longleftrightarrow> holds (view s p)"
    and owns_init: "init s \<Longrightarrow> \<not> holds (view s p)"
    and one_moves: "step s t \<Longrightarrow> \<exists>me. \<forall>q. q \<noteq> me \<longrightarrow> view t q = view s q"
begin

lemma own_init: "init s \<Longrightarrow> own s = None"
  using own_iff [OF inv_init] owns_init by (metis not_Some_eq)

lemma own_step:
  assumes "inv s" and "step s t"
  shows "own t = own s \<or> (\<exists>p. ownStep p (own s) (own t) \<and> (\<forall>q. q \<noteq> p \<longrightarrow> view t q = view s q))"
proof -
  have t: "inv t" using assms by (rule inv_step)
  obtain me where me: "\<forall>q. q \<noteq> me \<longrightarrow> view t q = view s q" using one_moves [OF assms(2)] by blast
  note changed = own_iff [OF assms(1)] own_iff [OF t]
  consider "own s = own t" | p where "own s = None" "own t = Some p" | p where "own s = Some p" "own t = None"
    | p q where "own s = Some p" "own t = Some q" "p \<noteq> q"
    by (metis not_Some_eq)
  then show ?thesis
  proof cases
    case (2 p)
    then have "p = me" using me changed by (metis option.distinct(1))
    with 2 me show ?thesis by (auto intro: own_take)
  next
    case (3 p)
    then have "p = me" using me changed by (metis option.distinct(1))
    with 3 me show ?thesis by (auto intro: own_give)
  next
    case (4 p q)
    then show ?thesis using me changed by (metis option.inject)
  qed simp
qed

text \<open>While somebody owns it, it is the same process; and a process that does not move keeps it.\<close>

lemma own_kept:
  assumes "(\<lambda>a b. step a b \<and> own b \<noteq> None)\<^sup>*\<^sup>* s t" and "inv s" and "own s = Some p"
  shows "inv t \<and> own t = Some p"
  using assms(1)
proof (induction rule: rtranclp_induct)
  case base
  then show ?case using assms by simp
next
  case (step t u)
  then have "inv u" by (blast intro: inv_step)
  moreover have "own u = Some p"
    using own_step [of t u] step by (auto elim: ownStep.cases)
  ultimately show ?case by simp
qed

lemma own_stable:
  assumes "(\<lambda>a b. step a b \<and> view b p = view a p)\<^sup>*\<^sup>* s t" and "inv s" and "own s = Some p"
  shows "inv t \<and> view t p = view s p \<and> own t = Some p"
  using assms(1)
proof (induction rule: rtranclp_induct)
  case base
  then show ?case using assms by simp
next
  case (step t u)
  then have u: "inv u" by (blast intro: inv_step)
  from step have "own t = Some p" "inv t" by simp_all
  with u own_iff step.hyps(2) have "own u = Some p" by metis
  with u step show ?case by simp
qed

end

definition owner :: "pidSys \<Rightarrow> pid option" where
  "owner s =
     (case fs_path (ps_fs s) of
        None \<Rightarrow> None
      | Some i \<Rightarrow>
          (case fs_flock (ps_fs s) i of
             None \<Rightarrow> None
           | Some p \<Rightarrow> if ownsInode (ps_pc s p) = Some i then Some p else None))"

lemma owner_iff:
  assumes "pidInv s"
  shows "owner s = Some p \<longleftrightarrow> (\<exists>i. ownsInode (ps_pc s p) = Some i)"
proof
  assume "owner s = Some p"
  then show "\<exists>i. ownsInode (ps_pc s p) = Some i" by (auto simp: owner_def split: option.splits if_splits)
next
  assume "\<exists>i. ownsInode (ps_pc s p) = Some i"
  then obtain i where i: "ownsInode (ps_pc s p) = Some i" by blast
  have ok: "okAt (ps_fs s) p (ps_pc s p)" using assms by (simp add: pidInv_def)
  then have "fs_path (ps_fs s) = Some i" "fs_flock (ps_fs s) i = Some p"
    using i inode_hierarchy by (auto simp: okAt_def)
  with i show "owner s = Some p" by (simp add: owner_def)
qed

interpretation pidlock_refines:
  exclusive_owner pidInit "pidSysStep euid" pidInv owner ps_pc "\<lambda>c. \<exists>i. ownsInode c = Some i"
proof unfold_locales
  fix s p
  assume "pidInv s"
  then show "owner s = Some p \<longleftrightarrow> (\<exists>i. ownsInode (ps_pc s p) = Some i)" by (rule owner_iff)
next
  fix s p
  assume "pidInit s"
  then show "\<not> (\<exists>i. ownsInode (ps_pc s p) = Some i)" by (simp add: pidInit_def)
next
  fix s t
  assume "pidSysStep euid s t"
  then show "\<exists>me. \<forall>q. q \<noteq> me \<longrightarrow> ps_pc t q = ps_pc s q"
    by (rule pidSysStepE) (auto intro!: exI)
qed

lemma path_changes:
  assumes "pidInv s" and "pidSysStep euid s t" and "fs_path (ps_fs s) = Some i" and "fs_path (ps_fs t) \<noteq> Some i"
  shows "\<exists>p. ps_pc s p = PcRemoving i"
  using assms(2)
proof cases
  case (pid_call me fault fs' p')
  have ok: "okAt (ps_fs s) me (ps_pc s me)" using assms(1) by (simp add: pidInv_def)
  have "ps_pc s me = PcRemoving j \<Longrightarrow> j = i" for j using ok assms(3) by simp
  moreover have "\<exists>j. ps_pc s me = PcRemoving j"
    using pid_call assms(3,4)
    by (cases "ps_pc s me"; cases fault)
       (auto simp: createPIDFile_def takeFlock_def takeRecordLock_def closeFile_def split: if_splits)
  ultimately show ?thesis by blast
next
  case (pid_crash me)
  with assms(3,4) show ?thesis by (simp add: crashFS_def)
qed

text \<open>A process that has acquired the file leaves that state only through its release.\<close>

lemma held_progress:
  assumes "(pidSysStep euid)\<^sup>*\<^sup>* s t" and "ps_pc s p = PcHeld i"
  shows "ps_pc t p \<in> {PcHeld i, PcRemoving i, PcClosing i, PcReleased}"
  using assms(1)
proof (induction rule: rtranclp_induct)
  case base
  then show ?case using assms(2) by simp
next
  case (step t u)
  from step.hyps(2) show ?case
  proof cases
    case (pid_call me fault fs' p')
    then show ?thesis using step.IH by (cases "me = p"; cases fault) auto
  next
    case (pid_crash me)
    then show ?thesis using step.IH by simp
  qed
qed

text \<open>
  C5: however many supervisors are started on the same pid file, crash or shut down in any
  interleaving of their system calls, at most one of them is past the link check and not yet
  done removing the file. The one that has acquired it owns both locks of the inode the path
  names, and the file holds its pid. The name disappears only by the hand of that supervisor.
\<close>

theorem pidfile_exclusive:
  assumes "reachable pidInit (pidSysStep euid) s"
  shows "(ownsInode (ps_pc s p) = Some i \<and> ownsInode (ps_pc s q) = Some j \<longrightarrow> p = q) \<and>
    (ps_pc s p = PcHeld i \<longrightarrow>
       fs_path (ps_fs s) = Some i \<and> fs_data (ps_fs s) i = pidText p \<and>
       fs_flock (ps_fs s) i = Some p \<and> fs_record (ps_fs s) i = Some p) \<and>
    (pidSysStep euid s t \<and> fs_path (ps_fs s) = Some i \<and> fs_path (ps_fs t) \<noteq> Some i \<longrightarrow>
       (\<exists>p. ps_pc s p = PcRemoving i))"
proof (intro conjI impI)
  note inv = pidlock.reachable_inv [OF assms]
  then have ok: "okAt (ps_fs s) p (ps_pc s p)" for p by (simp add: pidInv_def)
  {
    assume "ownsInode (ps_pc s p) = Some i \<and> ownsInode (ps_pc s q) = Some j"
    then have "fs_path (ps_fs s) = Some i" "fs_path (ps_fs s) = Some j"
      "flockInode (ps_pc s p) = Some i" "flockInode (ps_pc s q) = Some j"
      using ok [of p] ok [of q] inode_hierarchy by (auto simp: okAt_def)
    then show "p = q" using okAt_flock [OF ok [of p]] okAt_flock [OF ok [of q]] by simp
  next
    assume "ps_pc s p = PcHeld i"
    with ok [of p] show "fs_path (ps_fs s) = Some i" "fs_data (ps_fs s) i = pidText p"
      "fs_flock (ps_fs s) i = Some p" "fs_record (ps_fs s) i = Some p" by simp_all
  next
    assume "pidSysStep euid s t \<and> fs_path (ps_fs s) = Some i \<and> fs_path (ps_fs t) \<noteq> Some i"
    then show "\<exists>p. ps_pc s p = PcRemoving i" using path_changes [OF inv] by blast
  }
qed

text \<open>
  C12: the interleaved supervisors implement a lock, however their system calls interleave and
  whichever of them fail or crash. In every reachable state the owner, read off the path and the
  locks, is exactly the process past its link check that has not removed the file yet. A step
  either leaves the owner as it is, or one process takes the free file or gives its own back, and
  only that process moves; so between two owners there is a moment without one. And whatever the
  other processes do, an owner that does not move stays the owner, with the path naming its file
  and the text of the file as it was.
\<close>

theorem pidfile_refines_lock:
  assumes "reachable pidInit (pidSysStep euid) s"
  shows "(\<forall>p. owner s = Some p \<longleftrightarrow> (\<exists>i. ownsInode (ps_pc s p) = Some i)) \<and>
    (\<forall>t. pidSysStep euid s t \<longrightarrow> owner t = owner s \<or>
       (\<exists>p. ownStep p (owner s) (owner t) \<and> (\<forall>q. q \<noteq> p \<longrightarrow> ps_pc t q = ps_pc s q))) \<and>
    (\<forall>t p. (\<lambda>a b. pidSysStep euid a b \<and> owner b \<noteq> None)\<^sup>*\<^sup>* s t \<and> owner s = Some p \<longrightarrow> owner t = Some p) \<and>
    (\<forall>t p i. (\<lambda>a b. pidSysStep euid a b \<and> ps_pc b p = ps_pc a p)\<^sup>*\<^sup>* s t \<and> ps_pc s p = PcHeld i \<longrightarrow>
       owner t = Some p \<and> fs_path (ps_fs t) = Some i \<and> fs_data (ps_fs t) i = pidText p \<and>
       fs_flock (ps_fs t) i = Some p \<and> fs_record (ps_fs t) i = Some p)"
proof -
  note inv = pidlock.reachable_inv [OF assms]
  have "owner t = Some p \<and> fs_path (ps_fs t) = Some i \<and> fs_data (ps_fs t) i = pidText p \<and>
      fs_flock (ps_fs t) i = Some p \<and> fs_record (ps_fs t) i = Some p"
    if "(\<lambda>a b. pidSysStep euid a b \<and> ps_pc b p = ps_pc a p)\<^sup>*\<^sup>* s t" and "ps_pc s p = PcHeld i" for t p i
  proof -
    have "owner s = Some p" using that(2) by (simp add: owner_iff [OF inv])
    from pidlock_refines.own_stable [OF that(1) inv this] that(2)
    have "pidInv t" "ps_pc t p = PcHeld i" "owner t = Some p" by simp_all
    moreover from this have "okAt (ps_fs t) p (PcHeld i)" by (metis pidInv_def)
    ultimately show ?thesis by simp
  qed
  then show ?thesis
    using owner_iff [OF inv] pidlock_refines.own_step [OF inv] pidlock_refines.own_kept [OF _ inv] by blast
qed

subsection \<open>One process\<close>

fun pcRank :: "pc \<Rightarrow> nat" where
  "pcRank PcStart = 10" | "pcRank PcExists = 9" | "pcRank (PcOpened i) = 8" | "pcRank (PcInspected i) = 7"
| "pcRank (PcFlocked i) = 6" | "pcRank (PcLocked i) = 5" | "pcRank (PcLinked i) = 4" | "pcRank (PcTruncated i) = 3"
| "pcRank (PcWritten i) = 2" | "pcRank (PcLockFailed i f) = 2" | "pcRank (PcRemoving i) = 2"
| "pcRank (PcAbort i e) = 1" | "pcRank (PcClosing i) = 1" | "pcRank (PcHeld i) = 0" | "pcRank (PcFailed e) = 0"
| "pcRank PcReleased = 0"

lemma pidStep_rank: "\<not> acquireDone c \<Longrightarrow> pcRank (snd (pidStep euid me f fs c)) < pcRank c"
  by (cases c; cases f) (auto simp: createPIDFile_def Let_def inspectPIDFile_def takeFlock_def
      takeRecordLock_def validatePIDFileLinkCount_def split: option.splits)

lemma runAcquire_done: "pcRank c \<le> n \<Longrightarrow> acquireDone (snd (runAcquire n euid me faults fs c))"
proof (induction n arbitrary: faults fs c)
  case 0
  then show ?case by (cases c) auto
next
  case (Suc n)
  then show ?case
    using pidStep_rank [of c euid me "nextFault faults" fs] by (auto split: prod.splits)
qed

text \<open>A file an acquiring supervisor may use: absent, or its own and not shared.\<close>

definition usablePath :: "uid \<Rightarrow> pidFS \<Rightarrow> bool" where
  "usablePath euid fs \<longleftrightarrow>
     (\<forall>i. fs_path fs = Some i \<longrightarrow> fs_regular fs i \<and> fs_owner fs i = euid \<and> fs_extra fs i = 0)"

lemma Acquire_free:
  assumes "usablePath euid fs" and "\<forall>i. fs_path fs = Some i \<longrightarrow> fs_flock fs i = None \<and> fs_record fs i = None"
  shows "\<exists>i fs'. Acquire euid me [] fs = (fs', PcHeld i) \<and> fs_path fs' = Some i \<and> fs_data fs' i = pidText me \<and>
    fs_flock fs' i = Some me \<and> fs_record fs' i = Some me \<and>
    fs_regular fs' i \<and> fs_owner fs' i = euid \<and> fs_extra fs' i = 0"
proof (cases "fs_path fs")
  case None
  then show ?thesis
    by (simp add: Acquire_def eval_nat_numeral nextFault_def createPIDFile_def Let_def inspectPIDFile_def linkCount_def
        takeFlock_def takeRecordLock_def validatePIDFileLinkCount_def pidText_def)
next
  case (Some i)
  with assms show ?thesis
    by (simp add: Acquire_def eval_nat_numeral nextFault_def createPIDFile_def Let_def inspectPIDFile_def linkCount_def
        takeFlock_def takeRecordLock_def validatePIDFileLinkCount_def pidText_def usablePath_def)
qed

lemma Acquire_busy:
  assumes "usablePath euid fs" and "fs_path fs = Some i" and "fs_flock fs i = Some q" and "q \<noteq> me"
    and "fs_record fs i \<noteq> Some me"
  shows "Acquire euid me [] fs = (fs, PcFailed (ErrPIDFileLocked (readOwnerPID None (fs_data fs i))))"
  using assms
  by (simp add: Acquire_def eval_nat_numeral nextFault_def createPIDFile_def inspectPIDFile_def linkCount_def
      takeFlock_def usablePath_def lockUnavailable_def closeFile_def fun_upd_idem)

lemma pidText_read:
  assumes "0 < q" and "q < 2 ^ 31"
  shows "int (length (pidText q)) \<le> pidTextSize" and "parseInt 32 (trimSpace (pidText q)) = Inr q"
proof -
  have "int (length (itoa q)) \<le> 63"
    using length_formatUint [of q 32] assms by (simp add: itoa_nonneg)
  then show "int (length (pidText q)) \<le> pidTextSize" by (simp add: pidTextSize_def pidText_def)
  have "trimSpace (pidText q) = itoa q"
    unfolding pidText_def using itoa_hd itoa_last by (intro trimSpace_newline) auto
  then show "parseInt 32 (trimSpace (pidText q)) = Inr q" using assms by (simp add: parseInt_itoa)
qed

lemma readOwnerPID_pidText: "0 < q \<Longrightarrow> q < 2 ^ 31 \<Longrightarrow> readOwnerPID None (pidText q) = Some q"
  using pidText_read [of q] limitRead_all [of "pidText q" pidTextSize] by (simp add: readOwnerPID_def)

definition noLocksOf :: "pid \<Rightarrow> pidFS \<Rightarrow> bool" where
  "noLocksOf p fs \<longleftrightarrow> (\<forall>i. fs_flock fs i \<noteq> Some p \<and> fs_record fs i \<noteq> Some p)"

text \<open>Locks are taken only on the open inode, and a failure gives them back.\<close>

definition locksOnlyAt :: "pid \<Rightarrow> pc \<Rightarrow> pidFS \<Rightarrow> bool" where
  "locksOnlyAt p c fs \<longleftrightarrow>
     (\<forall>i. (fs_flock fs i = Some p \<or> fs_record fs i = Some p) \<longrightarrow> openInode c = Some i)"

lemma locksOnlyAt_none: "openInode c = None \<Longrightarrow> locksOnlyAt p c fs \<longleftrightarrow> noLocksOf p fs"
  by (auto simp: locksOnlyAt_def noLocksOf_def)

lemma locks_create: "noLocksOf me fs \<Longrightarrow> createPIDFile euid fs = (fs', c') \<Longrightarrow> locksOnlyAt me c' fs'"
  by (cases "fs_path fs") (auto simp: locksOnlyAt_def noLocksOf_def createPIDFile_def Let_def split: if_splits)

lemma locksOnlyAtD:
  "locksOnlyAt p c fs \<Longrightarrow> openInode c = Some i \<Longrightarrow> j \<noteq> i \<Longrightarrow> fs_flock fs j \<noteq> Some p \<and> fs_record fs j \<noteq> Some p"
  unfolding locksOnlyAt_def by (metis option.inject)

lemma locksOnlyAtI:
  "openInode c = Some i \<Longrightarrow> (\<And>j. j \<noteq> i \<Longrightarrow> fs_flock fs j \<noteq> Some p \<and> fs_record fs j \<noteq> Some p) \<Longrightarrow>
   locksOnlyAt p c fs"
  unfolding locksOnlyAt_def by metis

lemma locks_close:
  assumes "openInode c = Some i" and "locksOnlyAt me c fs"
  shows "noLocksOf me (closeFile me i fs)"
  unfolding noLocksOf_def closeFile_def
proof (rule allI)
  fix j
  show "fs_flock (fs\<lparr>fs_flock := (fs_flock fs)(i := if fs_flock fs i = Some me then None else fs_flock fs i),
          fs_record := (fs_record fs)(i := if fs_record fs i = Some me then None else fs_record fs i)\<rparr>) j \<noteq> Some me \<and>
        fs_record (fs\<lparr>fs_flock := (fs_flock fs)(i := if fs_flock fs i = Some me then None else fs_flock fs i),
          fs_record := (fs_record fs)(i := if fs_record fs i = Some me then None else fs_record fs i)\<rparr>) j \<noteq> Some me"
    using locksOnlyAtD [OF assms(2,1), of j] by (cases "j = i") simp_all
qed

lemma locks_flock:
  assumes "openInode c = Some i" and "locksOnlyAt me c fs"
  shows "takeFlock me fs i = (fs', c') \<Longrightarrow> locksOnlyAt me c' fs'"
    and "takeRecordLock me fs i = (fs', c') \<Longrightarrow> locksOnlyAt me c' fs'"
  using locksOnlyAtD [OF assms(2,1)]
  by (intro locksOnlyAtI [of c' i]; simp add: takeFlock_def takeRecordLock_def split: if_splits; elim conjE; hypsubst; simp)+

lemma locks_same:
  "locksOnlyAt me c fs \<Longrightarrow> openInode c' = openInode c \<Longrightarrow> fs_flock fs' = fs_flock fs \<Longrightarrow>
   fs_record fs' = fs_record fs \<Longrightarrow> locksOnlyAt me c' fs'"
  by (simp add: locksOnlyAt_def)

lemma pidStep_locks:
  assumes "locksOnlyAt me c fs" and "pidStep euid me f fs c = (fs', c')"
  shows "locksOnlyAt me c' fs'"
proof (cases c)
  case PcStart
  with assms show ?thesis by (cases f) (auto simp: locksOnlyAt_none intro: locks_create)
next
  case PcExists
  with assms have "noLocksOf me fs" by (simp add: locksOnlyAt_none)
  with PcExists assms(2) show ?thesis
    by (cases f) (auto simp: locksOnlyAt_def noLocksOf_def split: option.splits)
next
  case (PcInspected i)
  with assms show ?thesis
    using locks_flock(1) [of c i me fs fs' c'] by (cases f) (auto intro: locks_same)
next
  case (PcFlocked i)
  with assms show ?thesis
    using locks_flock(2) [of c i me fs fs' c'] by (cases f) (auto intro: locks_same)
next
  case (PcAbort i e)
  with assms show ?thesis using locks_close [of c i me fs] by (auto simp: locksOnlyAt_none)
next
  case (PcClosing i)
  with assms show ?thesis using locks_close [of c i me fs] by (auto simp: locksOnlyAt_none)
qed (use assms in \<open>cases f; auto simp: inspectPIDFile_def validatePIDFileLinkCount_def intro: locks_same\<close>)+

lemma runAcquire_locks:
  "locksOnlyAt me c fs \<Longrightarrow> runAcquire n euid me faults fs c = (fs', c') \<Longrightarrow> locksOnlyAt me c' fs'"
proof (induction n arbitrary: faults fs c)
  case (Suc n)
  obtain f1 c1 where st: "pidStep euid me (nextFault faults) fs c = (f1, c1)" by (metis surj_pair)
  show ?case
  proof (cases "acquireDone c")
    case True
    with Suc.prems show ?thesis by simp
  next
    case False
    with Suc.prems(2) st have "runAcquire n euid me (tl faults) f1 c1 = (fs', c')" by simp
    with Suc.IH pidStep_locks [OF Suc.prems(1) st] show ?thesis by blast
  qed
qed simp

lemma Acquire_locks:
  assumes "noLocksOf me fs" and "Acquire euid me faults fs = (fs', c')"
  shows "locksOnlyAt me c' fs'"
  using runAcquire_locks [of me PcStart fs 10 euid faults fs' c'] assms
  unfolding Acquire_def by (simp only: locksOnlyAt_none openInode.simps)

text \<open>
  C32: one \<open>Acquire\<close>. Whatever system calls fail, it returns after at most ten of them, and a
  failed one leaves no lock behind. It succeeds on a path that is free or holds the unlocked
  file of an earlier supervisor, so a crash never blocks the next start; it fails, naming the
  owner, while another supervisor holds the file. Closing removes the file and both locks, after
  which the path can be acquired again.
\<close>

theorem Acquire_correct:
  assumes "usablePath euid fs" and "noLocksOf me fs"
  shows "acquireDone (snd (Acquire euid me faults fs)) \<and>
    (\<forall>fs' e. Acquire euid me faults fs = (fs', PcFailed e) \<longrightarrow> noLocksOf me fs') \<and>
    ((\<forall>i. fs_path fs = Some i \<longrightarrow> fs_flock fs i = None \<and> fs_record fs i = None) \<longrightarrow>
       (\<exists>i fs' fs''. Acquire euid me [] fs = (fs', PcHeld i) \<and> fs_path fs' = Some i \<and> fs_data fs' i = pidText me \<and>
          fs_flock fs' i = Some me \<and> fs_record fs' i = Some me \<and>
          closePIDFile euid me [] fs' i = (fs'', PcReleased) \<and> fs_path fs'' = None \<and> noLocksOf me fs'')) \<and>
    (\<forall>i q. fs_path fs = Some i \<and> fs_flock fs i = Some q \<and> fs_data fs i = pidText q \<and> 0 < q \<and> q < 2 ^ 31 \<longrightarrow>
       Acquire euid me [] fs = (fs, PcFailed (ErrPIDFileLocked (Some q))))"
proof (intro conjI allI impI)
  show "acquireDone (snd (Acquire euid me faults fs))"
    unfolding Acquire_def by (rule runAcquire_done) simp
next
  fix fs' e
  assume "Acquire euid me faults fs = (fs', PcFailed e)"
  then show "noLocksOf me fs'"
    using Acquire_locks [OF assms(2)] locksOnlyAt_none [of "PcFailed e"] by (metis openInode.simps(3))
next
  assume "\<forall>i. fs_path fs = Some i \<longrightarrow> fs_flock fs i = None \<and> fs_record fs i = None"
  from Acquire_free [OF assms(1) this] obtain i fs' where a: "Acquire euid me [] fs = (fs', PcHeld i)"
      "fs_path fs' = Some i" "fs_data fs' i = pidText me" "fs_flock fs' i = Some me" "fs_record fs' i = Some me"
    by blast
  let ?fs = "closeFile me i (fs'\<lparr>fs_path := None\<rparr>)"
  have "locksOnlyAt me (PcHeld i) (fs'\<lparr>fs_path := None\<rparr>)"
    using Acquire_locks [OF assms(2) a(1)] by (rule locks_same) simp_all
  then have "noLocksOf me ?fs" using locks_close [of "PcHeld i"] by simp
  moreover have "fs_path ?fs = None" by (simp add: closeFile_def)
  moreover have "closePIDFile euid me [] fs' i = (closeFile me i (fs'\<lparr>fs_path := None\<rparr>), PcReleased)"
    using a(2) by (simp add: closePIDFile_def nextFault_def)
  ultimately show "\<exists>i fs' fs''. Acquire euid me [] fs = (fs', PcHeld i) \<and> fs_path fs' = Some i \<and>
      fs_data fs' i = pidText me \<and> fs_flock fs' i = Some me \<and> fs_record fs' i = Some me \<and>
      closePIDFile euid me [] fs' i = (fs'', PcReleased) \<and> fs_path fs'' = None \<and> noLocksOf me fs''"
    using a by blast
next
  fix i q
  assume q: "fs_path fs = Some i \<and> fs_flock fs i = Some q \<and> fs_data fs i = pidText q \<and> 0 < q \<and> q < 2 ^ 31"
  then have "q \<noteq> me" "fs_record fs i \<noteq> Some me" using assms(2) by (auto simp: noLocksOf_def)
  with q show "Acquire euid me [] fs = (fs, PcFailed (ErrPIDFileLocked (Some q)))"
    using Acquire_busy [OF assms(1), of i q me] by (simp add: readOwnerPID_pidText)
qed

text \<open>A file system in which an earlier supervisor has crashed and left its pid file behind.\<close>

definition staleFS :: pidFS where
  "staleFS = \<lparr>fs_unified = False, fs_path = Some 0, fs_extra = (\<lambda>_. 0), fs_regular = (\<lambda>_. True), fs_owner = (\<lambda>_. 1000),
     fs_data = (\<lambda>_. pidText 41), fs_flock = (\<lambda>_. None), fs_record = (\<lambda>_. None), fs_next = 1\<rparr>"

definition startSys :: pidSys where
  "startSys = \<lparr>ps_fs = staleFS, ps_pc = (\<lambda>_. PcStart)\<rparr>"

lemma pidInit_startSys: "pidInit startSys"
  by (simp add: pidInit_def startSys_def staleFS_def)

text \<open>A run of one process inside the interleaved system.\<close>

lemma reachable_runAcquire:
  "reachable pidInit (pidSysStep euid) s \<Longrightarrow> runAcquire n euid me faults (ps_fs s) (ps_pc s me) = (fs', c') \<Longrightarrow>
   reachable pidInit (pidSysStep euid) \<lparr>ps_fs = fs', ps_pc = (ps_pc s)(me := c')\<rparr>"
proof (induction n arbitrary: faults s)
  case 0
  then have "\<lparr>ps_fs = fs', ps_pc = (ps_pc s)(me := c')\<rparr> = s" by (cases s) auto
  with 0 show ?case by metis
next
  case (Suc n)
  show ?case
  proof (cases "acquireDone (ps_pc s me)")
    case True
    with Suc.prems have "\<lparr>ps_fs = fs', ps_pc = (ps_pc s)(me := c')\<rparr> = s" by (cases s) auto
    with Suc.prems(1) show ?thesis by metis
  next
    case False
    obtain f1 c1 where st: "pidStep euid me (nextFault faults) (ps_fs s) (ps_pc s me) = (f1, c1)" by (metis surj_pair)
    let ?s = "\<lparr>ps_fs = f1, ps_pc = (ps_pc s)(me := c1)\<rparr>"
    have "reachable pidInit (pidSysStep euid) ?s"
      using reach_step [OF Suc.prems(1) pid_call [OF st]] .
    moreover have "runAcquire n euid me (tl faults) (ps_fs ?s) (ps_pc ?s me) = (fs', c')"
      using Suc.prems(2) False st by simp
    ultimately show ?thesis using Suc.IH [of ?s "tl faults"] by (simp only: pidSys.simps fun_upd_upd)
  qed
qed

lemma staleFS_acquired:
  "\<exists>i fs'. Acquire 1000 42 [] staleFS = (fs', PcHeld i)"
  using Acquire_free [of 1000 staleFS 42] by (auto simp: usablePath_def staleFS_def)

theorem pidfile_exclusive_witness:
  "\<exists>s i. reachable pidInit (pidSysStep 1000) s \<and> ps_pc s 42 = PcHeld i \<and> fs_data (ps_fs s) i = pidText 42 \<and>
     ownsInode (ps_pc s 43) = None"
proof -
  obtain i fs' where a: "Acquire 1000 42 [] staleFS = (fs', PcHeld i)" using staleFS_acquired by blast
  let ?s = "\<lparr>ps_fs = fs', ps_pc = (ps_pc startSys)(42 := PcHeld i)\<rparr>"
  have r: "reachable pidInit (pidSysStep 1000) ?s"
    using reachable_runAcquire [OF reach_init [of pidInit, OF pidInit_startSys], where n = 10 and euid = 1000 and me = 42 and faults = "[]" and fs' = fs' and c' = "PcHeld i"] a
    by (simp add: Acquire_def startSys_def)
  have "ownsInode (ps_pc ?s 43) = None"
    using pidfile_exclusive [OF r, of 42 i 43] by (cases "ownsInode (ps_pc ?s 43)") auto
  then show ?thesis using pidfile_exclusive [OF r, of 42 i] r by (intro exI [of _ ?s] exI [of _ i]) simp
qed

theorem Acquire_correct_witness:
  "(\<exists>i fs'. Acquire 1000 42 [] staleFS = (fs', PcHeld i) \<and> fs_data fs' i = pidText 42) \<and>
   Acquire 1000 42 [] (staleFS\<lparr>fs_flock := (\<lambda>_. Some 41)\<rparr>) =
     (staleFS\<lparr>fs_flock := (\<lambda>_. Some 41)\<rparr>, PcFailed (ErrPIDFileLocked (Some 41)))"
proof
  have "usablePath 1000 staleFS" "noLocksOf 42 staleFS"
    by (simp_all add: usablePath_def noLocksOf_def staleFS_def)
  moreover have "\<forall>i. fs_path staleFS = Some i \<longrightarrow> fs_flock staleFS i = None \<and> fs_record staleFS i = None"
    by (simp add: staleFS_def)
  ultimately show "\<exists>i fs'. Acquire 1000 42 [] staleFS = (fs', PcHeld i) \<and> fs_data fs' i = pidText 42"
    using Acquire_correct [of 1000 staleFS 42] by blast
next
  let ?fs = "staleFS\<lparr>fs_flock := (\<lambda>_. Some 41)\<rparr>"
  have "usablePath 1000 ?fs" "noLocksOf 42 ?fs"
    by (simp_all add: usablePath_def noLocksOf_def staleFS_def)
  moreover have "fs_path ?fs = Some 0 \<and> fs_flock ?fs 0 = Some 41 \<and> fs_data ?fs 0 = pidText 41 \<and> 0 < (41::int) \<and> 41 < (2::int) ^ 31"
    by (simp add: staleFS_def)
  ultimately show "Acquire 1000 42 [] ?fs = (?fs, PcFailed (ErrPIDFileLocked (Some 41)))"
    using Acquire_correct [of 1000 ?fs 42] by blast
qed

theorem pidfile_refines_lock_witness:
  "\<exists>s t i. reachable pidInit (pidSysStep 1000) s \<and> pidSysStep 1000 s t \<and> ps_pc s 42 = PcHeld i \<and>
     owner s = Some 42 \<and> fs_data (ps_fs s) i = pidText 42 \<and> owner t = None \<and> ownStep 42 (owner s) (owner t)"
proof -
  obtain i fs' where a: "Acquire 1000 42 [] staleFS = (fs', PcHeld i)" using staleFS_acquired by blast
  let ?s = "\<lparr>ps_fs = fs', ps_pc = (ps_pc startSys)(42 := PcHeld i)\<rparr>"
  let ?t = "\<lparr>ps_fs = crashFS 42 fs', ps_pc = (ps_pc ?s)(42 := PcReleased)\<rparr>"
  have r: "reachable pidInit (pidSysStep 1000) ?s"
    using reachable_runAcquire [OF reach_init [of pidInit, OF pidInit_startSys], where n = 10 and euid = 1000
        and me = 42 and faults = "[]" and fs' = fs' and c' = "PcHeld i"] a
    by (simp add: Acquire_def startSys_def)
  have st: "pidSysStep 1000 ?s ?t" using pid_crash [of 1000 ?s 42] by simp
  note rs = pidfile_refines_lock [OF r] and rt = pidfile_refines_lock [OF reach_step [OF r st]]
  have pc: "ps_pc ?s 42 = PcHeld i" and idle: "ownsInode (ps_pc ?t p) = None" for p
    by (simp_all add: startSys_def)
  have held: "owner ?s = Some 42" "fs_data (ps_fs ?s) i = pidText 42"
    using rs [THEN conjunct2, THEN conjunct2, THEN conjunct2] pc by (blast intro: rtranclp.rtrancl_refl)+
  have ot: "owner ?t = None"
    using rt [THEN conjunct1] idle by (metis not_Some_eq)
  have "owner ?t = owner ?s \<or> (\<exists>p. ownStep p (owner ?s) (owner ?t))"
    using rs [THEN conjunct2, THEN conjunct1] st by blast
  then have "ownStep 42 (owner ?s) (owner ?t)" using held(1) ot by (auto elim: ownStep.cases)
  with r st pc held ot show ?thesis by blast
qed

text \<open>
  Closing twice is closing once: whatever happened to the path in between, the second call
  leaves the file system alone, so it cannot remove the pid file of a successor.
\<close>

lemma PIDFile_Close_idempotent:
  assumes "PIDFile_Close euid me faults fs p = (fs', p')"
  shows "PIDFile_Close euid me faults2 fs2 p' = (fs2, p')"
  using assms by (auto simp: PIDFile_Close_def split: option.splits)

end
