(* ===== verification/PidLockWindows.thy ===== *)
theory PidLockWindows
  imports PidLock
begin

text \<open>
  Acquiring and releasing the pid file on Windows (\<open>internal/statefile/pidfile_windows.go\<close> with
  \<open>acquire\<close> of \<open>pidfile.go\<close>). The protocol differs from the one on Unix: the lock is an exclusive
  lock on the first byte that is then replaced by a shared one, and the file is removed after it
  was closed, not before. What makes this safe is a rule of the system: a file that some process
  has open without sharing deletion cannot be removed. As on Unix the processes run interleaved,
  one system call at a time, each of which may fail, and may crash.
\<close>

subsection \<open>The system calls\<close>

text \<open>
  Of each file: its other hard links, its kind, its text, the owner of the exclusive and those of
  the shared lock on byte zero, and the processes that have it open.
\<close>

record winFS =
  wf_path :: "nat option"
  wf_extra :: "nat \<Rightarrow> nat"
  wf_regular :: "nat \<Rightarrow> bool"
  wf_reparse :: "nat \<Rightarrow> bool"
  wf_data :: "nat \<Rightarrow> string"
  wf_excl :: "nat \<Rightarrow> pid option"
  wf_shared :: "nat \<Rightarrow> pid list"
  wf_open :: "nat \<Rightarrow> pid list"
  wf_next :: nat

definition winLinks :: "winFS \<Rightarrow> nat \<Rightarrow> nat" where
  "winLinks fs i = wf_extra fs i + (if wf_path fs = Some i then 1 else 0)"

datatype win_error =
    WeOpen string
  | WeInspect string
  | WeNotRegular
  | WeReparse
  | WeLinks nat
  | WeLocked "pid option"
  | WeLock string
  | WeWrite string
  | WeFinish string

datatype wpc =
    WcStart
  | WcExists
  | WcOpened nat
  | WcStatted nat
  | WcInspected nat
  | WcLocked nat
  | WcLinked nat
  | WcTruncated nat
  | WcWritten nat
  | WcSynced nat
  | WcOverlaid nat
  | WcHeld nat
  | WcLockFailed nat lockFailure
  | WcAbort nat win_error
  | WcFailed win_error
  | WcClosing nat bool
  | WcRemoving
  | WcReleased

text \<open>
  Reading the text of the file: where another process has byte zero locked, through a mapped
  view of at most the file's size. The faults are those of the calls in order (\<open>ReadAt\<close> or else
  \<open>Stat\<close>, then the three calls of the mapping).
\<close>

fun firstFault :: "string option list \<Rightarrow> string option" where
  "firstFault [] = None"
| "firstFault (Some e # fs) = Some e"
| "firstFault (None # fs) = firstFault fs"

definition readPIDText :: "bool \<Rightarrow> string option list \<Rightarrow> string \<Rightarrow> string + string" where
  "readPIDText locked faults text =
     (case nextFault faults of
        Some e \<Rightarrow> Inl e
      | None \<Rightarrow>
          if \<not> locked then Inr (limitRead pidTextSize text)
          else
            let size = min pidTextSize (int (length text)) in
            if size = 0 then Inr []
            else (case firstFault (tl faults) of
                    Some e \<Rightarrow> Inl e
                  | None \<Rightarrow> Inr (limitRead size text)))"

definition winOwnerPID :: "bool \<Rightarrow> string option list \<Rightarrow> string \<Rightarrow> pid option" where
  "winOwnerPID locked faults text =
     (case readPIDText locked faults text of
        Inl e \<Rightarrow> readOwnerPID (Some e) []
      | Inr t \<Rightarrow> readOwnerPID None t)"

text \<open>Creating the file, or opening the one that is there.\<close>

definition winCreate :: "pid \<Rightarrow> winFS \<Rightarrow> winFS \<times> wpc" where
  "winCreate me fs =
     (case wf_path fs of
        Some _ \<Rightarrow> (fs, WcExists)
      | None \<Rightarrow>
          let i = wf_next fs in
          (fs\<lparr>wf_path := Some i, wf_extra := (wf_extra fs)(i := 0), wf_regular := (wf_regular fs)(i := True),
              wf_reparse := (wf_reparse fs)(i := False), wf_data := (wf_data fs)(i := []),
              wf_excl := (wf_excl fs)(i := None), wf_shared := (wf_shared fs)(i := []),
              wf_open := (wf_open fs)(i := [me]), wf_next := Suc i\<rparr>, WcOpened i))"

definition winOpen :: "pid \<Rightarrow> winFS \<Rightarrow> winFS \<times> wpc" where
  "winOpen me fs =
     (case wf_path fs of
        None \<Rightarrow> (fs, WcFailed (WeOpen ''ERROR_FILE_NOT_FOUND''))
      | Some i \<Rightarrow> (fs\<lparr>wf_open := (wf_open fs)(i := me # wf_open fs i)\<rparr>, WcOpened i))"

definition winInspect :: "winFS \<Rightarrow> nat \<Rightarrow> wpc" where
  "winInspect fs i =
     (if wf_reparse fs i then WcAbort i WeReparse
      else if winLinks fs i \<noteq> 1 then WcAbort i (WeLinks (winLinks fs i))
      else WcInspected i)"

definition winLinkCount :: "winFS \<Rightarrow> nat \<Rightarrow> wpc" where
  "winLinkCount fs i = (if winLinks fs i \<noteq> 1 then WcAbort i (WeLinks (winLinks fs i)) else WcLinked i)"

text \<open>\<open>lockFile\<close>: the exclusive lock conflicts with every lock of another handle.\<close>

definition winLock :: "pid \<Rightarrow> winFS \<Rightarrow> nat \<Rightarrow> winFS \<times> wpc" where
  "winLock me fs i =
     (if wf_excl fs i \<noteq> None \<or> wf_shared fs i \<noteq> [] then (fs, WcLockFailed i LockBusy)
      else (fs\<lparr>wf_excl := (wf_excl fs)(i := Some me)\<rparr>, WcLocked i))"

text \<open>
  \<open>finishPIDFileLock\<close>: a handle may overlay its own exclusive lock with a shared one, and the
  first unlock then gives back the exclusive one.
\<close>

definition winOverlay :: "pid \<Rightarrow> winFS \<Rightarrow> nat \<Rightarrow> winFS \<times> wpc" where
  "winOverlay me fs i =
     (if wf_excl fs i \<notin> {None, Some me} then (fs, WcAbort i (WeFinish ''ERROR_LOCK_VIOLATION''))
      else (fs\<lparr>wf_shared := (wf_shared fs)(i := me # wf_shared fs i)\<rparr>, WcOverlaid i))"

definition winUnlock :: "pid \<Rightarrow> winFS \<Rightarrow> nat \<Rightarrow> winFS" where
  "winUnlock me fs i =
     (if wf_excl fs i = Some me then fs\<lparr>wf_excl := (wf_excl fs)(i := None)\<rparr>
      else fs\<lparr>wf_shared := (wf_shared fs)(i := remove1 me (wf_shared fs i))\<rparr>)"

text \<open>Closing the handle drops its locks.\<close>

definition winClose :: "pid \<Rightarrow> nat \<Rightarrow> winFS \<Rightarrow> winFS" where
  "winClose me i fs =
     fs\<lparr>wf_excl := (wf_excl fs)(i := (if wf_excl fs i = Some me then None else wf_excl fs i)),
        wf_shared := (wf_shared fs)(i := removeAll me (wf_shared fs i)),
        wf_open := (wf_open fs)(i := removeAll me (wf_open fs i))\<rparr>"

text \<open>Removing the path fails while some process has the file it names open.\<close>

definition winRemove :: "winFS \<Rightarrow> winFS" where
  "winRemove fs =
     (case wf_path fs of
        None \<Rightarrow> fs
      | Some j \<Rightarrow> if wf_open fs j \<noteq> [] then fs else fs\<lparr>wf_path := None\<rparr>)"

text \<open>
  One system call, from \<open>openPIDFile\<close> through \<open>acquire\<close> to \<open>closePIDFile\<close>. The last
  component of \<open>WcClosing\<close> is the variable \<open>owned\<close>.
\<close>

fun winStep :: "pid \<Rightarrow> string option \<Rightarrow> winFS \<Rightarrow> wpc \<Rightarrow> winFS \<times> wpc" where
  "winStep me (Some e) fs WcStart = (fs, WcFailed (WeOpen e))"
| "winStep me None fs WcStart = winCreate me fs"
| "winStep me (Some e) fs WcExists = (fs, WcFailed (WeOpen e))"
| "winStep me None fs WcExists = winOpen me fs"
| "winStep me (Some e) fs (WcOpened i) = (fs, WcAbort i (WeInspect e))"
| "winStep me None fs (WcOpened i) = (fs, if wf_regular fs i then WcStatted i else WcAbort i WeNotRegular)"
| "winStep me (Some e) fs (WcStatted i) = (fs, WcAbort i (WeInspect e))"
| "winStep me None fs (WcStatted i) = (fs, winInspect fs i)"
| "winStep me (Some e) fs (WcInspected i) = (fs, WcLockFailed i (LockErr e))"
| "winStep me None fs (WcInspected i) = winLock me fs i"
| "winStep me r fs (WcLockFailed i e) =
     (fs, WcAbort i (case e of
        LockBusy \<Rightarrow> WeLocked (winOwnerPID (wf_excl fs i \<notin> {None, Some me}) [r] (wf_data fs i))
      | LockErr s \<Rightarrow> WeLock s))"
| "winStep me (Some e) fs (WcLocked i) = (fs, WcAbort i (WeInspect e))"
| "winStep me None fs (WcLocked i) = (fs, winLinkCount fs i)"
| "winStep me (Some e) fs (WcLinked i) = (fs, WcAbort i (WeWrite e))"
| "winStep me None fs (WcLinked i) = (fs\<lparr>wf_data := (wf_data fs)(i := [])\<rparr>, WcTruncated i)"
| "winStep me (Some e) fs (WcTruncated i) = (fs, WcAbort i (WeWrite e))"
| "winStep me None fs (WcTruncated i) =
     (fs\<lparr>wf_data := (wf_data fs)(i := wf_data fs i @ itoa me @ [CHR 0x0A])\<rparr>, WcWritten i)"
| "winStep me (Some e) fs (WcWritten i) = (fs, WcAbort i (WeWrite e))"
| "winStep me None fs (WcWritten i) = (fs, WcSynced i)"
| "winStep me (Some e) fs (WcSynced i) = (fs, WcAbort i (WeFinish e))"
| "winStep me None fs (WcSynced i) = winOverlay me fs i"
| "winStep me (Some e) fs (WcOverlaid i) = (fs, WcAbort i (WeFinish e))"
| "winStep me None fs (WcOverlaid i) = (winUnlock me fs i, WcHeld i)"
| "winStep me r fs (WcAbort i e) = (winClose me i fs, WcFailed e)"
| "winStep me r fs (WcHeld i) = (fs, WcClosing i (r = None \<and> wf_path fs = Some i))"
| "winStep me r fs (WcClosing i owned) = (winClose me i fs, if owned then WcRemoving else WcReleased)"
| "winStep me (Some e) fs WcRemoving = (fs, WcReleased)"
| "winStep me None fs WcRemoving = (winRemove fs, WcReleased)"
| "winStep me r fs (WcFailed e) = (fs, WcFailed e)"
| "winStep me r fs WcReleased = (fs, WcReleased)"

subsection \<open>Interleaved processes\<close>

record winSys =
  wy_fs :: winFS
  wy_pc :: "pid \<Rightarrow> wpc"

definition winCrash :: "pid \<Rightarrow> winFS \<Rightarrow> winFS" where
  "winCrash me fs =
     fs\<lparr>wf_excl := (\<lambda>i. if wf_excl fs i = Some me then None else wf_excl fs i),
        wf_shared := (\<lambda>i. removeAll me (wf_shared fs i)),
        wf_open := (\<lambda>i. removeAll me (wf_open fs i))\<rparr>"

inductive winSysStep :: "winSys \<Rightarrow> winSys \<Rightarrow> bool" where
  win_call: "winStep me fault (wy_fs s) (wy_pc s me) = (fs', c') \<Longrightarrow>
     winSysStep s \<lparr>wy_fs = fs', wy_pc = (wy_pc s)(me := c')\<rparr>"
| win_crash: "winSysStep s \<lparr>wy_fs = winCrash me (wy_fs s), wy_pc = (wy_pc s)(me := WcReleased)\<rparr>"

inductive_cases winSysStepE: "winSysStep s t"

definition winInit :: "winSys \<Rightarrow> bool" where
  "winInit s \<longleftrightarrow> (\<forall>p. wy_pc s p = WcStart) \<and>
     (\<forall>i. wf_excl (wy_fs s) i = None \<and> wf_shared (wy_fs s) i = [] \<and> wf_open (wy_fs s) i = [])"

subsection \<open>The invariant\<close>

text \<open>The file a process has open, and the file it has locked.\<close>

fun winFile :: "wpc \<Rightarrow> nat option" where
  "winFile WcStart = None" | "winFile WcExists = None" | "winFile (WcFailed e) = None"
| "winFile WcRemoving = None" | "winFile WcReleased = None"
| "winFile (WcOpened i) = Some i" | "winFile (WcStatted i) = Some i" | "winFile (WcInspected i) = Some i"
| "winFile (WcLocked i) = Some i" | "winFile (WcLinked i) = Some i" | "winFile (WcTruncated i) = Some i"
| "winFile (WcWritten i) = Some i" | "winFile (WcSynced i) = Some i" | "winFile (WcOverlaid i) = Some i"
| "winFile (WcHeld i) = Some i" | "winFile (WcLockFailed i e) = Some i" | "winFile (WcAbort i e) = Some i"
| "winFile (WcClosing i b) = Some i"

fun winOwns :: "wpc \<Rightarrow> nat option" where
  "winOwns (WcLocked i) = Some i" | "winOwns (WcLinked i) = Some i" | "winOwns (WcTruncated i) = Some i"
| "winOwns (WcWritten i) = Some i" | "winOwns (WcSynced i) = Some i" | "winOwns (WcOverlaid i) = Some i"
| "winOwns (WcHeld i) = Some i" | "winOwns (WcClosing i b) = Some i" | "winOwns _ = None"

text \<open>The locks of an owner: exclusive, both, or the shared one alone.\<close>

fun winLocks :: "pid \<Rightarrow> wpc \<Rightarrow> pid option \<times> pid list" where
  "winLocks p (WcOverlaid i) = (Some p, [p])" | "winLocks p (WcHeld i) = (None, [p])"
| "winLocks p (WcClosing i b) = (None, [p])" | "winLocks p _ = (Some p, [])"

fun winWritten :: "wpc \<Rightarrow> nat option" where
  "winWritten (WcWritten i) = Some i" | "winWritten (WcSynced i) = Some i" | "winWritten (WcOverlaid i) = Some i"
| "winWritten (WcHeld i) = Some i" | "winWritten (WcClosing i b) = Some i" | "winWritten _ = None"

definition winOk :: "winFS \<Rightarrow> pid \<Rightarrow> wpc \<Rightarrow> bool" where
  "winOk fs p c \<longleftrightarrow>
     (\<forall>i. winFile c = Some i \<longrightarrow> wf_path fs = Some i \<and> p \<in> set (wf_open fs i)) \<and>
     (\<forall>i. winOwns c = Some i \<longrightarrow> (wf_excl fs i, wf_shared fs i) = winLocks p c) \<and>
     (\<forall>i. c = WcTruncated i \<longrightarrow> wf_data fs i = []) \<and>
     (\<forall>i. winWritten c = Some i \<longrightarrow> wf_data fs i = pidText p)"

definition winInv :: "winSys \<Rightarrow> bool" where
  "winInv s \<longleftrightarrow> (\<forall>p. winOk (wy_fs s) p (wy_pc s p))"

lemma winFile_hierarchy:
  "winWritten c = Some i \<Longrightarrow> winOwns c = Some i" "winOwns c = Some i \<Longrightarrow> winFile c = Some i"
  by (cases c; simp)+

lemma winLocks_owner: "winLocks p c \<noteq> winLocks q d" if "p \<noteq> q"
  using that by (cases c; cases d; simp)

text \<open>Two owners are the same process.\<close>

lemma winOk_unique:
  assumes "winOk fs p c" and "winOk fs q d" and "winOwns c = Some i" and "winOwns d = Some j"
  shows "p = q"
proof -
  have "i = j" using assms winFile_hierarchy(2) [OF assms(3)] winFile_hierarchy(2) [OF assms(4)] by (auto simp: winOk_def)
  with assms have "winLocks p c = winLocks q d" by (auto simp: winOk_def)
  then show ?thesis using winLocks_owner by blast
qed

subsection \<open>The steps of one process, seen by another\<close>

lemma winOk_closed: "winFile d = None \<Longrightarrow> winOk fs q d"
  by (cases d) (auto simp: winOk_def)

lemma winLocks_other:
  assumes "winLocks q d = (e, sh)"
  shows "(e, sh) \<noteq> (None, [])" and "me \<noteq> q \<Longrightarrow> e \<noteq> Some me" and "me \<noteq> q \<Longrightarrow> removeAll me sh = sh"
  using assms by (cases d; auto)+

lemma win_other_open:
  "winOk fs q d \<Longrightarrow> winOpen me fs = (fs', c') \<Longrightarrow> winOk fs' q d"
  by (auto simp: winOk_def winOpen_def split: option.splits)

lemma win_other_create: "winOk fs q d \<Longrightarrow> winCreate me fs = (fs', c') \<Longrightarrow> winOk fs' q d"
  by (cases "winFile d") (auto simp: winOk_closed, auto simp: winOk_def winCreate_def split: option.splits)

lemma win_other_lock:
  assumes "winOk fs q d" and "winLock me fs i = (fs', c')"
  shows "winOk fs' q d"
proof (cases "winOwns d = Some i \<and> wf_excl fs i = None \<and> wf_shared fs i = []")
  case True
  then have "winLocks q d = (None, [])" using assms(1) by (simp add: winOk_def)
  with winLocks_other(1) show ?thesis by blast
next
  case False
  with assms show ?thesis by (auto simp: winOk_def winLock_def split: if_splits)
qed

text \<open>Whatever an owner does to the locks and the text of its file does not concern the others.\<close>

lemma win_other_owned:
  assumes "winOk fs q d" and "winOk fs me c" and "winOwns c = Some i" and "q \<noteq> me"
  shows "winOk (fs\<lparr>wf_data := (wf_data fs)(i := x)\<rparr>) q d"
    and "winOk (fs\<lparr>wf_excl := (wf_excl fs)(i := e)\<rparr>) q d"
    and "winOk (fs\<lparr>wf_shared := (wf_shared fs)(i := sh)\<rparr>) q d"
proof -
  have "winOwns d \<noteq> Some i" using winOk_unique [OF assms(1,2)] assms(3,4) by blast
  moreover from this have "winWritten d \<noteq> Some i" using winFile_hierarchy(1) by blast
  moreover from calculation have "d \<noteq> WcTruncated i" by auto
  ultimately show "winOk (fs\<lparr>wf_data := (wf_data fs)(i := x)\<rparr>) q d"
    and "winOk (fs\<lparr>wf_excl := (wf_excl fs)(i := e)\<rparr>) q d"
    and "winOk (fs\<lparr>wf_shared := (wf_shared fs)(i := sh)\<rparr>) q d"
    using assms(1) by (auto simp: winOk_def)
qed

lemma win_other_drop:
  assumes "winOk fs q d" and "q \<noteq> me"
  shows "winOk (winClose me i fs) q d" and "winOk (winCrash me fs) q d"
proof -
  have "wf_excl fs j \<noteq> Some me \<and> removeAll me (wf_shared fs j) = wf_shared fs j" if "winOwns d = Some j" for j
  proof -
    have "winLocks q d = (wf_excl fs j, wf_shared fs j)" using assms(1) that by (simp add: winOk_def)
    from winLocks_other(2,3) [OF this, of me] assms(2) show ?thesis by auto
  qed
  with assms show "winOk (winClose me i fs) q d" and "winOk (winCrash me fs) q d"
    by (auto simp: winOk_def winClose_def winCrash_def)
qed

lemma win_other_remove: "winOk fs q d \<Longrightarrow> winOk (winRemove fs) q d"
  by (cases "winFile d") (auto simp: winOk_closed, auto simp: winOk_def winRemove_def split: option.splits)

lemma win_step_other:
  assumes me: "winOk fs me c" and o: "winOk fs q d" and n: "q \<noteq> me" and s: "winStep me f fs c = (fs', c')"
  shows "winOk fs' q d"
proof (cases c)
  case WcStart
  with s o show ?thesis by (cases f) (auto intro: win_other_create)
next
  case WcExists
  with s o show ?thesis by (cases f) (auto intro: win_other_open)
next
  case (WcInspected i)
  with s o show ?thesis by (cases f) (auto intro: win_other_lock)
next
  case (WcLinked i)
  with s o n me show ?thesis by (cases f) (auto intro: win_other_owned)
next
  case (WcTruncated i)
  with s o n me show ?thesis by (cases f) (auto intro: win_other_owned)
next
  case (WcSynced i)
  with s o n me show ?thesis by (cases f) (auto simp: winOverlay_def intro: win_other_owned split: if_splits)
next
  case (WcOverlaid i)
  with s o n me win_other_owned [OF o me] show ?thesis by (cases f) (auto simp: winUnlock_def)
next
  case (WcAbort i e)
  with s o n show ?thesis by (auto intro: win_other_drop)
next
  case (WcClosing i b)
  with s o n show ?thesis by (auto intro: win_other_drop)
next
  case WcRemoving
  with s o show ?thesis by (cases f) (auto intro: win_other_remove)
qed (use s o in \<open>cases f; simp\<close>)+

lemma win_step_self:
  assumes "winOk fs me c" and "winStep me f fs c = (fs', c')"
  shows "winOk fs' me c'"
  using assms
  by (cases c; cases f)
     (auto simp: winOk_def winCreate_def winOpen_def Let_def winInspect_def winLock_def winLinkCount_def
       winOverlay_def winUnlock_def pidText_def split: option.splits if_splits)

interpretation winlock: invariant_system winInit winSysStep winInv
proof unfold_locales
  fix s
  assume "winInit s"
  then show "winInv s" by (simp add: winInit_def winInv_def winOk_closed)
next
  fix s t
  assume i: "winInv s" and "winSysStep s t"
  from this(2) show "winInv t"
  proof cases
    case (win_call me fault fs' c')
    have me: "winOk (wy_fs s) me (wy_pc s me)" using i by (simp add: winInv_def)
    have "winOk fs' q (wy_pc s q)" if "q \<noteq> me" for q
      using win_step_other [OF me _ that win_call(2)] i by (simp add: winInv_def)
    with win_step_self [OF me win_call(2)] show ?thesis unfolding win_call(1) by (simp add: winInv_def)
  next
    case (win_crash me)
    with i win_other_drop(2) show ?thesis unfolding win_crash(1) by (auto simp: winInv_def winOk_closed)
  qed
qed

subsection \<open>The lock\<close>

text \<open>The owner, read off the locks of the file that the path names.\<close>

definition winOwner :: "winSys \<Rightarrow> pid option" where
  "winOwner s =
     (case wf_path (wy_fs s) of
        None \<Rightarrow> None
      | Some i \<Rightarrow>
          (case (wf_excl (wy_fs s) i, wf_shared (wy_fs s) i) of
             (Some p, _) \<Rightarrow> if winOwns (wy_pc s p) = Some i then Some p else None
           | (None, p # _) \<Rightarrow> if winOwns (wy_pc s p) = Some i then Some p else None
           | (None, []) \<Rightarrow> None))"

lemma winOwner_iff:
  assumes "winInv s"
  shows "winOwner s = Some p \<longleftrightarrow> (\<exists>i. winOwns (wy_pc s p) = Some i)"
proof
  assume "winOwner s = Some p"
  then show "\<exists>i. winOwns (wy_pc s p) = Some i" by (auto simp: winOwner_def split: option.splits list.splits if_splits)
next
  assume "\<exists>i. winOwns (wy_pc s p) = Some i"
  then obtain i where i: "winOwns (wy_pc s p) = Some i" by blast
  have ok: "winOk (wy_fs s) p (wy_pc s p)" using assms by (simp add: winInv_def)
  have "wf_path (wy_fs s) = Some i" using ok winFile_hierarchy(2) [OF i] by (simp add: winOk_def)
  moreover have "(wf_excl (wy_fs s) i, wf_shared (wy_fs s) i) = winLocks p (wy_pc s p)"
    using ok i by (simp add: winOk_def)
  ultimately show "winOwner s = Some p" using i by (cases "wy_pc s p") (auto simp: winOwner_def)
qed

interpretation winlock_refines:
  exclusive_owner winInit winSysStep winInv winOwner wy_pc "\<lambda>c. \<exists>i. winOwns c = Some i"
proof unfold_locales
  fix s p
  assume "winInv s"
  then show "winOwner s = Some p \<longleftrightarrow> (\<exists>i. winOwns (wy_pc s p) = Some i)" by (rule winOwner_iff)
next
  fix s p
  assume "winInit s"
  then show "\<not> (\<exists>i. winOwns (wy_pc s p) = Some i)" by (simp add: winInit_def)
next
  fix s t
  assume "winSysStep s t"
  then show "\<exists>me. \<forall>q. q \<noteq> me \<longrightarrow> wy_pc t q = wy_pc s q"
    by (rule winSysStepE) (auto intro!: exI)
qed

text \<open>
  C19: on Windows too the interleaved supervisors implement the lock, although the file is closed
  before it is removed. At most one process at a time has the file locked; every step leaves the
  owner as it is, or one process takes the free file or gives its own back, and only that process
  moves; so between two owners there is a moment without one. A process that has acquired
  the file keeps a shared lock, so that the text, which is its pid, stays readable for the others;
  and as long as a process has the file open, the path names that file, so none of them can be
  left with a removed one.
\<close>

theorem windows_refines_lock:
  assumes "reachable winInit winSysStep s" and "winSysStep\<^sup>*\<^sup>* s t"
  shows "(\<forall>u. winSysStep t u \<longrightarrow> winOwner u = winOwner t \<or>
       (\<exists>p. ownStep p (winOwner t) (winOwner u) \<and> (\<forall>q. q \<noteq> p \<longrightarrow> wy_pc u q = wy_pc t q))) \<and>
    (\<forall>u p. (\<lambda>a b. winSysStep a b \<and> winOwner b \<noteq> None)\<^sup>*\<^sup>* t u \<and> winOwner t = Some p \<longrightarrow> winOwner u = Some p) \<and>
    (\<forall>p. winOwner t = Some p \<longleftrightarrow> (\<exists>i. winOwns (wy_pc t p) = Some i)) \<and>
    (\<forall>p i. winFile (wy_pc t p) = Some i \<longrightarrow> wf_path (wy_fs t) = Some i) \<and>
    (\<forall>p i. wy_pc t p = WcHeld i \<longrightarrow>
       wf_data (wy_fs t) i = pidText p \<and> wf_shared (wy_fs t) i = [p] \<and> wf_excl (wy_fs t) i = None)"
proof -
  have s: "winInv s" using assms(1) by (rule winlock.reachable_inv)
  then have t: "winInv t" using assms(2) by (rule winlock.reachable_from)
  then have ok: "winOk (wy_fs t) p (wy_pc t p)" for p by (simp add: winInv_def)
  have "\<forall>p i. winFile (wy_pc t p) = Some i \<longrightarrow> wf_path (wy_fs t) = Some i" using ok by (auto simp: winOk_def)
  moreover have "\<forall>p i. wy_pc t p = WcHeld i \<longrightarrow>
       wf_data (wy_fs t) i = pidText p \<and> wf_shared (wy_fs t) i = [p] \<and> wf_excl (wy_fs t) i = None"
    using ok by (metis (no_types, lifting) prod.inject winLocks.simps(2) winOk_def winOwns.simps(7) winWritten.simps(4))
  ultimately show ?thesis
    using winlock_refines.own_step [OF t] winlock_refines.own_kept [OF _ t] winOwner_iff [OF t] by blast
qed

text \<open>The calls of one process without interference, given their faults.\<close>

fun winRun :: "pid \<Rightarrow> string option list \<Rightarrow> winFS \<Rightarrow> wpc \<Rightarrow> winFS \<times> wpc" where
  "winRun me [] fs c = (fs, c)"
| "winRun me (f # faults) fs c = (case winStep me f fs c of (fs', c') \<Rightarrow> winRun me faults fs' c')"

lemma winRun_steps:
  "winRun me faults (wy_fs s) (wy_pc s me) = (fs', c') \<Longrightarrow>
     winSysStep\<^sup>*\<^sup>* s \<lparr>wy_fs = fs', wy_pc = (wy_pc s)(me := c')\<rparr>"
proof (induction faults arbitrary: s)
  case Nil
  then have "\<lparr>wy_fs = fs', wy_pc = (wy_pc s)(me := c')\<rparr> = s" by (cases s) auto
  then show ?case by (simp only: rtranclp.rtrancl_refl)
next
  case (Cons f faults)
  obtain fs1 c1 where st: "winStep me f (wy_fs s) (wy_pc s me) = (fs1, c1)" by fastforce
  let ?s = "\<lparr>wy_fs = fs1, wy_pc = (wy_pc s)(me := c1)\<rparr>"
  have "winSysStep s ?s" using st by (rule win_call)
  moreover have "winSysStep\<^sup>*\<^sup>* ?s \<lparr>wy_fs = fs', wy_pc = (wy_pc s)(me := c')\<rparr>"
    using Cons.IH [of ?s] Cons.prems st by (simp del: fun_upd_apply) (simp only: fun_upd_same)
  ultimately show ?case by (rule converse_rtranclp_into_rtranclp)
qed

definition winFresh :: winSys where
  "winFresh = \<lparr>wy_fs = \<lparr>wf_path = None, wf_extra = \<lambda>_. 0, wf_regular = \<lambda>_. True, wf_reparse = \<lambda>_. False,
     wf_data = \<lambda>_. [], wf_excl = \<lambda>_. None, wf_shared = \<lambda>_. [], wf_open = \<lambda>_. [], wf_next = 0\<rparr>,
     wy_pc = \<lambda>_. WcStart\<rparr>"

lemmas win_call_defs = winCreate_def winOpen_def winInspect_def winLock_def winLinkCount_def winLinks_def
  winOverlay_def winUnlock_def winClose_def winRemove_def Let_def

text \<open>
  A first process acquires the file, a second one is told its pid, and after the first has
  closed it the path is free.
\<close>

lemma win_sample:
  "\<exists>fs. winRun 5 (replicate 10 None) (wy_fs winFresh) WcStart = (fs, WcHeld 0) \<and> wf_data fs 0 = pidText 5 \<and>
     snd (winRun 6 (replicate 7 None) fs WcStart) = WcFailed (WeLocked (Some 5)) \<and>
     wf_path (fst (winRun 5 (replicate 3 None) fs (WcHeld 0))) = None"
proof -
  have p: "winOwnerPID False [None] (itoa 5 @ [CHR 0x0A]) = Some 5" by code_simp
  show ?thesis
    by (simp add: winFresh_def win_call_defs numeral_eq_Suc pidText_def fun_upd_def p [simplified numeral_eq_Suc])
qed

theorem windows_refines_lock_witness:
  "\<exists>t. winSysStep\<^sup>*\<^sup>* winFresh t \<and> wy_pc t 5 = WcHeld 0 \<and> winOwner t = Some 5 \<and> wf_shared (wy_fs t) 0 = [5]"
proof -
  obtain fs where "winRun 5 (replicate 10 None) (wy_fs winFresh) WcStart = (fs, WcHeld 0)" using win_sample by blast
  then have "winRun 5 (replicate 10 None) (wy_fs winFresh) (wy_pc winFresh 5) = (fs, WcHeld 0)" by (simp add: winFresh_def)
  note st = winRun_steps [OF this]
  let ?t = "\<lparr>wy_fs = fs, wy_pc = (wy_pc winFresh)(5 := WcHeld 0)\<rparr>"
  have "winInit winFresh" by (simp add: winInit_def winFresh_def)
  then have "reachable winInit winSysStep winFresh" by (rule reach_init)
  note r = windows_refines_lock [OF this st]
  have pc: "wy_pc ?t 5 = WcHeld 0" by simp
  then have "winOwner ?t = Some 5" using r by (metis winOwns.simps(7))
  moreover have "wf_shared (wy_fs ?t) 0 = [5]" using r pc by blast
  ultimately show ?thesis using st pc by metis
qed

end
