(* ===== verification/WindowsControl.thy ===== *)
theory WindowsControl
  imports PidLockWindows Control
begin

text \<open>
  The control commands on Windows: \<open>OpenRunningPID\<close> of \<open>pidfile.go\<close> with the Windows build of what it
  calls (\<open>pidfile_windows.go\<close>) and \<open>signalProcess\<close> of \<open>signal_windows.go\<close>. The owner of a lock cannot be
  asked for there and a process cannot be signalled, so the commands refuse; the theorems say that
  they do nothing else to a pid file that exists.
\<close>

subsection \<open>What the Windows build does not support\<close>

definition winSignalProcess :: "pid \<Rightarrow> Signal \<Rightarrow> killAnswer" where
  "winSignalProcess p sig = KillErr ''signalling a process by pid is not supported on windows''"

definition winTryLock :: tryLock where
  "winTryLock = TryErr ''waiting for a stopped process is not supported on windows''"

definition winLockOwnerPID :: "nat \<Rightarrow> lock_error + pid" where
  "winLockOwnerPID i = Inl (ErrLockSys ''inspecting pid-file lock ownership is not supported on windows'')"

definition winLockNoLongerOwnedByPID :: "nat \<Rightarrow> pid \<Rightarrow> lock_error + bool" where
  "winLockNoLongerOwnedByPID i p = Inl (ErrLockSys ''waiting for a stopped process is not supported on windows'')"

subsection \<open>Opening the pid file\<close>

text \<open>
  \<open>openPIDFile\<close>, the calls of the acquiring process up to the lock: create or open, then the
  checks, with the close after a failed one.
\<close>

fun openRank :: "wpc \<Rightarrow> nat" where
  "openRank WcStart = 5"
| "openRank WcExists = 4"
| "openRank (WcOpened i) = 3"
| "openRank (WcStatted i) = 2"
| "openRank (WcAbort i e) = 1"
| "openRank _ = 0"

lemma openRank_decreases:
  assumes "0 < openRank c" and "winStep me r fs c = (fs', c')"
  shows "openRank c' < openRank c"
proof -
  have i: "openRank (winInspect fs i) < 2" for i by (simp add: winInspect_def)
  show ?thesis
    using assms i by (cases c; cases r) (auto simp: winCreate_def winOpen_def Let_def split: option.splits if_splits)
qed

function winOpenFrom :: "pid \<Rightarrow> string option list \<Rightarrow> winFS \<Rightarrow> wpc \<Rightarrow> winFS \<times> wpc" where
  "winOpenFrom me faults fs c =
     (if openRank c = 0 then (fs, c)
      else (case winStep me (nextFault faults) fs c of
              (fs', c') \<Rightarrow> winOpenFrom me (tl faults) fs' c'))"
  by auto
termination
  by (relation "measure (\<lambda>(me, faults, fs, c). openRank c)") (auto split: prod.splits intro: openRank_decreases)

declare winOpenFrom.simps [simp del]

text \<open>The errors of opening; those of the lock and of writing do not occur before it.\<close>

definition winPidError :: "win_error \<Rightarrow> pid_error" where
  "winPidError e =
     (case e of
        WeInspect s \<Rightarrow> ErrPidStat s
      | WeNotRegular \<Rightarrow> ErrPidNotRegular
      | WeReparse \<Rightarrow> ErrPidReparse
      | WeLinks n \<Rightarrow> ErrPidLinks n
      | WeOpen s \<Rightarrow> ErrPidOpen s
      | _ \<Rightarrow> ErrPidInvalid)"

text \<open>The methods of \<open>runningPIDPath\<close>: preparing the path does nothing.\<close>

definition winRunningOpen :: "pid \<Rightarrow> string option list \<Rightarrow> winFS \<Rightarrow> winFS \<times> (pid_error + nat)" where
  "winRunningOpen me faults fs =
     (case winOpenFrom me faults fs WcStart of
        (fs', WcInspected i) \<Rightarrow> (fs', Inr i)
      | (fs', WcFailed e) \<Rightarrow> (fs', Inl (winPidError e))
      | (fs', _) \<Rightarrow> (fs', Inl ErrPidInvalid))"

definition winRunningValidate :: "string option \<Rightarrow> string option \<Rightarrow> winFS \<Rightarrow> nat \<Rightarrow> pid_error option" where
  "winRunningValidate statErr lstatErr fs i =
     (case statErr of Some e \<Rightarrow> Some (ErrPidStat e) | None \<Rightarrow>
      case lstatErr of Some e \<Rightarrow> Some (ErrPidStat e) | None \<Rightarrow>
      case wf_path fs of
        None \<Rightarrow> Some (ErrPidStat ''ERROR_FILE_NOT_FOUND'')
      | Some j \<Rightarrow> if \<not> wf_regular fs j \<or> wf_reparse fs j \<or> j \<noteq> i then Some ErrPidReplaced else None)"

subsection \<open>The reference to a running supervisor\<close>

text \<open>The answers after the file is open; reading fails where another handle has byte zero locked exclusively.\<close>

record winAnswers =
  wa_faults :: "string option list"
  wa_readErr :: "string option"
  wa_statErr :: "string option"
  wa_lstatErr :: "string option"

definition winReadAll :: "pid \<Rightarrow> string option \<Rightarrow> winFS \<Rightarrow> nat \<Rightarrow> pid_error + string" where
  "winReadAll me readErr fs i =
     (case readErr of Some e \<Rightarrow> Inl (ErrPidRead e) | None \<Rightarrow>
      if wf_excl fs i \<notin> {None, Some me} then Inl (ErrPidRead ''ERROR_LOCK_VIOLATION'')
      else Inr (limitRead (pidTextSize + 1) (wf_data fs i)))"

definition winCheckRunningPID ::
  "(nat \<Rightarrow> fileID) \<Rightarrow> pid \<Rightarrow> winAnswers \<Rightarrow> winFS \<Rightarrow> nat \<Rightarrow> pid_error + RunningPID" where
  "winCheckRunningPID ident me a fs i =
     (case winReadAll me (wa_readErr a) fs i of Inl e \<Rightarrow> Inl e | Inr data \<Rightarrow>
      if int (length data) > pidTextSize then Inl ErrPidTooLarge
      else
      case parseInt 32 (trimSpace data) of Inl _ \<Rightarrow> Inl ErrPidInvalid | Inr p \<Rightarrow>
      if p \<le> 0 then Inl ErrPidInvalid
      else
      case winLockOwnerPID i of Inl e \<Rightarrow> Inl (ErrPidInspect e) | Inr q \<Rightarrow>
      if q > 0 then
        (if q \<noteq> p then Inl (ErrPidMismatch p q)
         else (case winRunningValidate (wa_statErr a) (wa_lstatErr a) fs i of
                 Some e \<Rightarrow> Inl e
               | None \<Rightarrow> Inr \<lparr>run_file = ident i, run_pid = p\<rparr>))
      else Inl ErrPidUnverified)"

definition winOpenRunningPID ::
  "(nat \<Rightarrow> fileID) \<Rightarrow> pid \<Rightarrow> winAnswers \<Rightarrow> winFS \<Rightarrow> winFS \<times> (pid_error + RunningPID)" where
  "winOpenRunningPID ident me a fs =
     (case winRunningOpen me (wa_faults a) fs of
        (fs1, Inl e) \<Rightarrow> (fs1, Inl e)
      | (fs1, Inr i) \<Rightarrow>
          (case winCheckRunningPID ident me a fs1 i of
             Inl e \<Rightarrow> (winClose me i fs1, Inl e)
           | Inr r \<Rightarrow> (fs1, Inr r)))"

subsection \<open>The commands\<close>

definition winStop ::
  "string option \<Rightarrow> (nat \<Rightarrow> fileID) \<Rightarrow> pid \<Rightarrow> winAnswers \<Rightarrow> string option \<Rightarrow> lockPoll poll list \<Rightarrow> winFS \<Rightarrow>
   winFS \<times> controlEffect list \<times> control_error option option" where
  "winStop ctxErr ident me a ctxErr' polls fs =
     (case winOpenRunningPID ident me a fs of
        (fs', opened) \<Rightarrow>
          (if ctxErr = None then fs' else fs,
           stopWithOpenRunningPID ctxErr opened ctxErr'
             (case opened of Inr running \<Rightarrow> winSignalProcess (PID running) SIGTERM | Inl _ \<Rightarrow> KillOk) polls))"

definition winRestart ::
  "string option \<Rightarrow> string \<Rightarrow> (nat \<Rightarrow> fileID) \<Rightarrow> pid \<Rightarrow> winAnswers \<Rightarrow> stateFile \<Rightarrow> stateFile poll list \<Rightarrow> winFS \<Rightarrow>
   winFS \<times> controlEffect list \<times> control_error option option" where
  "winRestart ctxErr statusPath ident me a prev polls fs =
     (if statusPath = [] then (fs, [], Some (Some ErrCtlStatusRequired))
      else (case ctxErr of Some e \<Rightarrow> (fs, [], Some (Some (ErrCtlCancelled e))) | None \<Rightarrow>
        (case winOpenRunningPID ident me a fs of
           (fs', opened) \<Rightarrow>
             (fs', restartRunning opened prev
                (case opened of Inr running \<Rightarrow> winSignalProcess (PID running) SIGHUP | Inl _ \<Rightarrow> KillOk) polls))))"

subsection \<open>What the commands do to the file\<close>

text \<open>A process that has nothing to do with the file yet.\<close>

definition winOutsider :: "pid \<Rightarrow> winFS \<Rightarrow> bool" where
  "winOutsider me fs \<longleftrightarrow> (\<forall>i. me \<notin> set (wf_open fs i) \<and> wf_excl fs i \<noteq> Some me \<and> me \<notin> set (wf_shared fs i))"

lemma winOpenFrom_stop: "openRank c = 0 \<Longrightarrow> winOpenFrom me faults fs c = (fs, c)"
  by (simp add: winOpenFrom.simps)

lemma winOpenFrom_step:
  "openRank c \<noteq> 0 \<Longrightarrow> winOpenFrom me faults fs c =
     (case winStep me (nextFault faults) fs c of (fs', c') \<Rightarrow> winOpenFrom me (tl faults) fs' c')"
  by (subst winOpenFrom.simps) simp

lemma winOpenFrom_abort: "winOpenFrom me faults fs (WcAbort i e) = (winClose me i fs, WcFailed e)"
  by (simp add: winOpenFrom_step winOpenFrom_stop)

lemma winOpenFrom_statted:
  "winOpenFrom me faults fs (WcStatted i) = (fs, WcInspected i) \<or>
   (\<exists>e. winOpenFrom me faults fs (WcStatted i) = (winClose me i fs, WcFailed e))"
  by (cases "nextFault faults")
     (auto simp: winOpenFrom_step winOpenFrom_stop winOpenFrom_abort winInspect_def)

lemma winOpenFrom_opened:
  "winOpenFrom me faults fs (WcOpened i) = (fs, WcInspected i) \<or>
   (\<exists>e. winOpenFrom me faults fs (WcOpened i) = (winClose me i fs, WcFailed e))"
  using winOpenFrom_statted [of me "tl faults" fs i]
  by (cases "nextFault faults") (auto simp: winOpenFrom_step [of "WcOpened i"] winOpenFrom_abort)

lemma winOpenFrom_start:
  "(\<exists>e. winOpenFrom me faults fs WcStart = (fs, WcFailed e)) \<or>
   (\<exists>faults' fs1 i. (wf_path fs = None \<and> winCreate me fs = (fs1, WcOpened i) \<or>
        wf_path fs = Some i \<and> fs1 = fs\<lparr>wf_open := (wf_open fs)(i := me # wf_open fs i)\<rparr>) \<and>
      winOpenFrom me faults fs WcStart = winOpenFrom me faults' fs1 (WcOpened i))"
proof (cases "nextFault faults")
  case (Some e)
  then show ?thesis by (auto simp: winOpenFrom_step winOpenFrom_stop)
next
  case None
  show ?thesis
  proof (cases "wf_path fs")
    case create: None
    then obtain fs1 i where "winCreate me fs = (fs1, WcOpened i)" by (simp add: winCreate_def Let_def)
    with None create show ?thesis by (auto simp: winOpenFrom_step [of WcStart])
  next
    case (Some j)
    with None have "winOpenFrom me faults fs WcStart = winOpenFrom me (tl faults) fs WcExists"
      by (simp add: winOpenFrom_step [of WcStart] winCreate_def)
    moreover have "winOpenFrom me (tl faults) fs WcExists =
        (case nextFault (tl faults) of Some e \<Rightarrow> (fs, WcFailed (WeOpen e))
         | None \<Rightarrow> winOpenFrom me (tl (tl faults)) (fs\<lparr>wf_open := (wf_open fs)(j := me # wf_open fs j)\<rparr>) (WcOpened j))"
      using Some by (simp add: winOpenFrom_step [of WcExists] winOpenFrom_stop winOpen_def split: option.splits)
    ultimately show ?thesis using Some by (cases "nextFault (tl faults)") auto
  qed
qed

text \<open>The file system after the reference was refused.\<close>

definition winUntouched :: "pid \<Rightarrow> winFS \<Rightarrow> winFS \<Rightarrow> bool" where
  "winUntouched me fs fs' \<longleftrightarrow>
     fs' = fs \<or> (wf_path fs = None \<and> (\<exists>i fs1. winCreate me fs = (fs1, WcOpened i) \<and> fs' = winClose me i fs1))"

lemma winClose_opened:
  assumes "winOutsider me fs"
  shows "winClose me i (fs\<lparr>wf_open := (wf_open fs)(i := me # wf_open fs i)\<rparr>) = fs"
  using assms by (simp add: winOutsider_def winClose_def)

lemma winOpenRunningPID_refuses:
  assumes "winOutsider me fs"
  shows "\<exists>e fs'. winOpenRunningPID ident me a fs = (fs', Inl e) \<and> winUntouched me fs fs'"
proof -
  consider (fail) e where "winOpenFrom me (wa_faults a) fs WcStart = (fs, WcFailed e)"
    | (opened) faults' fs1 i where "wf_path fs = None \<and> winCreate me fs = (fs1, WcOpened i) \<or>
        wf_path fs = Some i \<and> fs1 = fs\<lparr>wf_open := (wf_open fs)(i := me # wf_open fs i)\<rparr>"
      "winOpenFrom me (wa_faults a) fs WcStart = winOpenFrom me faults' fs1 (WcOpened i)"
    using winOpenFrom_start [of me "wa_faults a" fs] by blast
  then show ?thesis
  proof cases
    case fail
    then show ?thesis by (simp add: winOpenRunningPID_def winRunningOpen_def winUntouched_def)
  next
    case opened
    have u: "winUntouched me fs (winClose me i fs1)"
      using opened(1) winClose_opened [OF assms, of i] by (auto simp: winUntouched_def)
    have "\<exists>e. winCheckRunningPID ident me a fs1 i = Inl e"
      by (auto simp: winCheckRunningPID_def winLockOwnerPID_def split: sum.splits)
    with winOpenFrom_opened [of me faults' fs1 i] opened(2) u show ?thesis
      by (auto simp: winOpenRunningPID_def winRunningOpen_def)
  qed
qed

text \<open>
  C30: on Windows \<open>--stop\<close> and \<open>--restart\<close> fail and signal nobody, whatever the pid file says and
  whatever the system answers. An existing pid file is left exactly as it was, with its text and
  the locks of its owner; a missing one may have been created, empty and unlocked.
\<close>

theorem windows_control_refuses:
  assumes "winOutsider me fs"
  shows "(\<exists>fs' e. winStop ctxErr ident me a ctxErr' polls fs = (fs', [], Some (Some e)) \<and> winUntouched me fs fs') \<and>
    (\<exists>fs' e. winRestart ctxErr2 statusPath ident me a prev polls2 fs = (fs', [], Some (Some e)) \<and> winUntouched me fs fs')"
proof -
  obtain e fs' where o: "winOpenRunningPID ident me a fs = (fs', Inl e)" and u: "winUntouched me fs fs'"
    using winOpenRunningPID_refuses [OF assms] by blast
  have same: "winUntouched me fs fs" by (simp add: winUntouched_def)
  have "\<exists>fs' e. winStop ctxErr ident me a ctxErr' polls fs = (fs', [], Some (Some e)) \<and> winUntouched me fs fs'"
    using o u same by (cases ctxErr) (auto simp: winStop_def stopWithOpenRunningPID_def)
  moreover have "\<exists>fs' e. winRestart ctxErr2 statusPath ident me a prev polls2 fs = (fs', [], Some (Some e)) \<and> winUntouched me fs fs'"
    using o u same by (cases ctxErr2) (auto simp: winRestart_def restartRunning_def)
  ultimately show ?thesis by blast
qed

definition calmWin :: winAnswers where
  "calmWin = \<lparr>wa_faults = [], wa_readErr = None, wa_statErr = None, wa_lstatErr = None\<rparr>"

theorem windows_control_refuses_witness:
  "\<exists>fs fs' e. winRun 5 (replicate 10 None) (wy_fs winFresh) WcStart = (fs, WcHeld 0) \<and> wf_data fs 0 = pidText 5 \<and>
     winStop None (\<lambda>_. sampleID) 6 calmWin None [] fs = (fs', [], Some (Some e)) \<and> fs' = fs"
proof -
  obtain fs where w: "winRun 5 (replicate 10 None) (wy_fs winFresh) WcStart = (fs, WcHeld 0)" and t: "wf_data fs 0 = pidText 5"
    using win_sample by blast
  have o: "winOutsider 6 fs" and p: "wf_path fs = Some 0"
    using w by (auto simp: winFresh_def win_call_defs numeral_eq_Suc winOutsider_def)
  from windows_control_refuses [OF o, of None "\<lambda>_. sampleID" calmWin None "[]"] p w t show ?thesis
    by (auto simp: winUntouched_def)
qed

text \<open>A command on a missing pid file leaves an empty one behind.\<close>

lemma windows_stop_creates_file:
  "wf_path (wy_fs winFresh) = None \<and>
   wf_path (fst (winStop None (\<lambda>_. sampleID) 6 calmWin None [] (wy_fs winFresh))) = Some 0"
  by code_simp

end
