(* ===== verification/Samples.thy ===== *)
theory Samples
  imports Run WorkerListen
begin

text \<open>
  The two sample workers (\<open>samples/udp-echo/main.go\<close> and \<open>samples/http/main.go\<close>), clients of the
  worker-side package: they refuse to run outside the supervisor, open what they inherited, serve
  until a signal arrives, and close everything.
\<close>

subsection \<open>The UDP echo worker\<close>

text \<open>
  What one call of \<open>ReadFrom\<close> gives: a datagram from an address, with the error that writing it
  back will have, or a failure, which may be that the connection was closed.
\<close>

datatype datagramRead = Datagram string nat "string option" | ReadFailed bool

datatype echoEffect = EchoWrite string nat | EchoLogWrite | EchoLogRead

definition echoBuffer :: nat where
  "echoBuffer = 64 * 1024"

text \<open>\<open>False\<close> as the second component says that the loop waits for another datagram.\<close>

fun echo :: "datagramRead list \<Rightarrow> echoEffect list \<times> bool" where
  "echo [] = ([], False)"
| "echo (Datagram data addr werr # rs) =
     (case echo rs of (es, ended) \<Rightarrow>
        (EchoWrite (take echoBuffer data) addr # (if werr = None then [] else [EchoLogWrite]) @ es, ended))"
| "echo (ReadFailed isClosed # rs) = (if isClosed then [] else [EchoLogRead], True)"

text \<open>
  A run of the worker: the calls that opened descriptors, what each goroutine did, the
  connections that were closed, and the exit code, \<open>None\<close> while the process runs.
\<close>

record workerRun =
  sr_listen :: "listenEvent list"
  sr_loops :: "echoEffect list list"
  sr_closed :: "handle list"
  sr_exit :: "int option"

definition udpEchoMain ::
  "bool \<Rightarrow> (nat \<Rightarrow> convAnswer) \<Rightarrow> env \<Rightarrow> (nat \<Rightarrow> datagramRead list) \<Rightarrow> bool \<Rightarrow> workerRun" where
  "udpEchoMain windows ans env reads signalled =
     (if \<not> IsUnderStartServer env
      then \<lparr>sr_listen = [], sr_loops = [], sr_closed = [], sr_exit = Some 1\<rparr>
      else (case ListenPacketAll windows ans env of
              (ev, Inl err) \<Rightarrow> \<lparr>sr_listen = ev, sr_loops = [], sr_closed = [], sr_exit = Some 1\<rparr>
            | (ev, Inr connections) \<Rightarrow>
                let loops = map (\<lambda>i. echo (reads i)) [0..<length connections] in
                \<lparr>sr_listen = ev, sr_loops = map fst loops,
                 sr_closed = (if signalled then connections else []),
                 sr_exit = (if signalled \<and> list_all snd loops then Some 0 else None)\<rparr>))"

subsection \<open>The HTTP worker\<close>

text \<open>The handler: the header it sets and the body it writes.\<close>

definition httpHandle :: "env \<Rightarrow> (string \<times> string) \<times> string" where
  "httpHandle env =
     (case Generation env of (generation, ok) \<Rightarrow>
        ((''Content-Type'', ''text/plain; charset=utf-8''),
         ''hello from start_server generation '' @ itoa (if ok then generation else 0) @ [CHR 0x5C, CHR ''n'']))"

text \<open>
  \<open>serve i\<close> says whether \<open>Serve\<close> of the i-th listener has returned; \<open>Shutdown\<close> closes the
  listeners. What these two do belongs to \<open>net/http\<close>.
\<close>

definition httpMain ::
  "otherListen \<Rightarrow> bool \<Rightarrow> (nat \<Rightarrow> convAnswer) \<Rightarrow> env \<Rightarrow> (nat \<Rightarrow> bool) \<Rightarrow> bool \<Rightarrow> workerRun" where
  "httpMain other windows ans env serve signalled =
     (if \<not> IsUnderStartServer env
      then \<lparr>sr_listen = [], sr_loops = [], sr_closed = [], sr_exit = Some 1\<rparr>
      else (case ListenAll other windows ans env of
              (ev, Inl err) \<Rightarrow> \<lparr>sr_listen = ev, sr_loops = [], sr_closed = [], sr_exit = Some 1\<rparr>
            | (ev, Inr listeners) \<Rightarrow>
                \<lparr>sr_listen = ev, sr_loops = [],
                 sr_closed = (if signalled then listeners else []),
                 sr_exit = (if signalled \<and> (\<forall>i < length listeners. serve i) then Some 0 else None)\<rparr>))"

subsection \<open>What the echo worker does\<close>

text \<open>The datagrams that arrive before the loop ends.\<close>

fun received :: "datagramRead list \<Rightarrow> (string \<times> nat) list" where
  "received [] = []"
| "received (Datagram data addr werr # rs) = (data, addr) # received rs"
| "received (ReadFailed isClosed # rs) = []"

fun written :: "echoEffect list \<Rightarrow> (string \<times> nat) list" where
  "written [] = []"
| "written (EchoWrite data addr # es) = (data, addr) # written es"
| "written (_ # es) = written es"

lemma written_append [simp]: "written (a @ b) = written a @ written b"
  by (induction a rule: written.induct) auto

lemma echo_written: "written (fst (echo rs)) = map (\<lambda>(data, addr). (take echoBuffer data, addr)) (received rs)"
  by (induction rs rule: echo.induct) (auto split: prod.splits)

lemma echo_ended: "snd (echo rs) \<longleftrightarrow> (\<exists>b. ReadFailed b \<in> set rs)"
  by (induction rs rule: echo.induct) (auto split: prod.splits)

lemma echo_whole:
  assumes "\<forall>(data, addr) \<in> set (received rs). length data \<le> echoBuffer"
  shows "written (fst (echo rs)) = received rs"
  using assms unfolding echo_written by (induction rs rule: received.induct) auto

text \<open>
  The echo worker is correct. It exits with success exactly when it runs under the
  supervisor, could open all its packet connections, got a signal and every loop has ended; then
  every connection it opened has been closed, once, and every inherited descriptor was given
  back. Each loop has written every datagram it read back to its sender, unchanged if it fits
  the buffer, in the order of arrival, a failed write notwithstanding. A worker that fails to
  start leaves nothing open.
\<close>

theorem udp_echo_correct:
  assumes "udpEchoMain windows ans env reads signalled = r"
  shows "(sr_exit r = Some 0 \<longleftrightarrow> signalled \<and> IsUnderStartServer env \<and>
       (\<exists>hs. snd (ListenPacketAll windows ans env) = Inr hs \<and> (\<forall>i < length hs. \<exists>b. ReadFailed b \<in> set (reads i)))) \<and>
    (sr_exit r \<noteq> None \<longrightarrow> converted (sr_listen r) = closed (sr_listen r) + mset (sr_closed r)) \<and>
    (\<forall>i < length (sr_loops r). (\<forall>(data, addr) \<in> set (received (reads i)). length data \<le> echoBuffer) \<longrightarrow>
       written (sr_loops r ! i) = received (reads i))"
proof (cases "IsUnderStartServer env")
  case False
  with assms show ?thesis by (auto simp: udpEchoMain_def converted_def closed_def)
next
  case under: True
  obtain ev res where l: "ListenPacketAll windows ans env = (ev, res)" by (metis surj_pair)
  show ?thesis
  proof (cases res)
    case (Inl err)
    have "closed ev = converted ev" using ListenPacketAll_balance [of windows env ans] l Inl by (simp add: balanced_def)
    with assms under l Inl show ?thesis by (auto simp: udpEchoMain_def)
  next
    case (Inr hs)
    have b: "closed ev = {#} \<and> converted ev = mset hs" using ListenPacketAll_balance [of windows env ans] l Inr by (simp add: balanced_def)
    have e: "list_all snd (map (\<lambda>i. echo (reads i)) [0..<length hs]) \<longleftrightarrow> (\<forall>i < length hs. \<exists>b. ReadFailed b \<in> set (reads i))"
      by (auto simp: list_all_iff echo_ended)
    have w: "written (sr_loops r ! i) = received (reads i)"
      if "i < length (sr_loops r)" "\<forall>(data, addr) \<in> set (received (reads i)). length data \<le> echoBuffer" for i
      using that assms under l Inr echo_whole [of "reads i"] by (auto simp: udpEchoMain_def Let_def)
    show ?thesis
      using assms under l Inr b e w by (auto simp: udpEchoMain_def Let_def split: if_splits)
  qed
qed

definition udpEnv :: env where
  "udpEnv = map_of [(''SERVER_STARTER_PORT'', ''u53=3''), (''SERVER_STARTER_GENERATION'', ''1'')]"

lemma udpEnv_listens:
  "IsUnderStartServer udpEnv" "\<exists>ev. ListenPacketAll False (\<lambda>_. calmConv) udpEnv = (ev, Inr [Handle EpUDP 3])"
proof -
  show "IsUnderStartServer udpEnv" by code_simp
  have "snd (ListenPacketAll False (\<lambda>_. calmConv) udpEnv) = Inr [Handle EpUDP 3]" by code_simp
  then show "\<exists>ev. ListenPacketAll False (\<lambda>_. calmConv) udpEnv = (ev, Inr [Handle EpUDP 3])" by (metis prod.collapse)
qed

theorem udp_echo_correct_witness:
  "\<exists>r. udpEchoMain False (\<lambda>_. calmConv) udpEnv
      (\<lambda>_. [Datagram ''ping'' 7 (Some ''EPERM''), Datagram ''pong'' 8 None, ReadFailed True]) True = r \<and>
     sr_exit r = Some 0 \<and> converted (sr_listen r) = closed (sr_listen r) + mset (sr_closed r) \<and>
     written (sr_loops r ! 0) = [(''ping'', 7), (''pong'', 8)]"
proof -
  let ?reads = "\<lambda>_::nat. [Datagram ''ping'' 7 (Some ''EPERM''), Datagram ''pong'' 8 None, ReadFailed True]"
  let ?r = "udpEchoMain False (\<lambda>_. calmConv) udpEnv ?reads True"
  have exit: "sr_exit ?r = Some 0" and n: "0 < length (sr_loops ?r)"
    using udpEnv_listens by (auto simp: udpEchoMain_def)
  from udp_echo_correct [OF refl, of False "\<lambda>_. calmConv" udpEnv ?reads True] exit n
  have "converted (sr_listen ?r) = closed (sr_listen ?r) + mset (sr_closed ?r)" "written (sr_loops ?r ! 0) = received (?reads 0)"
    by (auto simp: echoBuffer_def)
  with exit show ?thesis by simp
qed

subsection \<open>What the HTTP worker says\<close>

text \<open>
  A sample worker started by the supervisor answers with the generation the supervisor started
  it at. The body ends in a backslash and the letter n, not in a line break: the format string
  escapes the backslash.
\<close>

lemma http_reports_generation:
  assumes "runSetup w su = (Inr rs, effs)" and "\<forall>j n q h a. su_bindUnix su j n q = Inr (h, a) \<longrightarrow> a \<noteq> []"
    and "length (rs_listeners rs) < 2 ^ 62" and "rs_listeners rs \<noteq> []"
    and "distinct_keys overlay" and "\<forall>k \<in> fst ` set overlay. CHR ''='' \<notin> set k"
    and "r_spawn (startRound s pl policy checked (rs_listeners rs) (rs_descriptors rs) overlay lookCmd g a) = Some sp"
    and "0 \<le> g" and "g + 1 < 2 ^ 63" and "mset kvs = mset (sp_env sp)"
  shows "snd (httpHandle (lookupEnviron kvs)) =
    ''hello from start_server generation '' @ itoa (g + 1) @ [CHR 0x5C, CHR ''n'']"
  using worker_view [OF assms] by (simp add: httpHandle_def)

lemma http_body_no_newline: "newline \<notin> set (snd (httpHandle env))"
  by (simp add: httpHandle_def split: prod.splits)

end
