(* ===== verification/Spec2Isabelle.thy ===== *)
theory Spec2Isabelle
  imports Lifecycle Logs PublishedStatus Service Cli WorkerListen OpenFiles WindowsControl Samples
begin

text \<open>
  Verification of server-starter (\<open>src/\<close>), a supervisor that binds sockets once and keeps a worker
  process running on them across restarts.

  The program and its parts. The command \<open>start_server\<close> (\<open>internal/cli\<close>) parses its options, may
  detach itself as a daemon, and runs the supervisor (\<open>internal/supervisor\<close>). The supervisor acquires
  a pid file (\<open>internal/statefile/pidfile*.go\<close>), binds the ports and Unix sockets it was asked for,
  starts a worker that inherits them, and then waits: for the exit of a worker, for a hangup
  request, for a timer, or for the end. It publishes its workers in a status file
  (\<open>internal/statefile/status.go\<close>). The commands \<open>--stop\<close> and \<open>--restart\<close> (\<open>internal/control\<close>) find
  the running supervisor through the pid file, signal it, and watch the lock or the status file.
  A worker uses the root package (\<open>ports.go\<close>, \<open>listener.go\<close>, \<open>environment.go\<close>) to read what it
  inherited from two environment variables and turns the descriptors into listeners.

  Conventions. A Go function that may fail returns a sum whose left side is the error; errors are
  datatypes with the data of the message, the text of messages is not modelled. Integers are \<open>int\<close>
  with the range checks and the wrap-around of the code written out, \<open>uintptr\<close> and the frame length
  are 64-bit words, user ids and permission bits 32-bit words. Maps that the code iterates over are
  association lists with distinct keys; the order of iteration is the order of the list, and
  theorems about environments hold for every order. What the operating system or another package
  answers (system calls, \<open>exec.LookPath\<close>, go-flags, the clock and the scheduler) is an argument.
  A loop that may wait for ever takes the finite list of answers it gets, and \<open>None\<close> says that it
  still waits when the list is used up; theorems of termination say which answers end it. The only
  fuel is the ten system calls of \<open>Acquire\<close>, which \<open>Acquire_correct\<close> shows to be enough whatever
  fails. Calls that open, close, signal or write are recorded as effects, in order.

  The theories, from the bottom.

  \<^item> \<open>Prelude\<close>: results, maps, reachability and histories of states; the locales \<open>invariant_system\<close> (a step relation and
    its invariant) and \<open>refinement\<close> (an abstraction function to an abstract step relation).
  \<^item> \<open>GoLib\<close>: the functions of the standard library the sources use on strings and numbers (trimming,
    splitting, \<open>strconv\<close>), with the laws the components need.
  \<^item> \<open>PortWire\<close> and \<open>PortCodec\<close>: listeners and the format of the port variable and of the socket types
    (\<open>ParsePorts\<close>, \<open>FormatPorts\<close>, \<open>FormatSocketTypes\<close>, \<open>applySocketTypes\<close>, \<open>Ports\<close>). The locale
    \<open>sep_codec\<close> is a list codec with a separator; both formats interpret it, as does the status file.
    \<open>FormatPorts\<close> accepts exactly the well-formed listeners and the hand-over is a round trip.
  \<^item> \<open>WorkerListen\<close>: \<open>Listen\<close>, \<open>ListenPacket\<close>, \<open>ListenAll\<close>, \<open>ListenPacketAll\<close>. The locale
    \<open>listen_loop\<close> is the loop both have; failures leave no handle open.
  \<^item> \<open>PortSpec\<close>: \<open>--port\<close> arguments, the assignment of descriptors, the check of the wire format and of
    Unix socket paths (\<open>portspec.go\<close>, \<open>socket_path.go\<close>).
  \<^item> \<open>Sockets\<close>: the options set on a socket before it is bound (\<open>listenConfig\<close>, \<open>socket_unix.go\<close>,
    \<open>socket_windows.go\<close>).
  \<^item> \<open>EnvDir\<close>: loading the envdir and building the environment of a worker (\<open>env.go\<close>,
    \<open>buildWorkerEnv\<close>). The load is exact: which directories are accepted, and which variables with
    which values they give.
  \<^item> \<open>Signals\<close>, \<open>Starter\<close>: signal names, the constructor of the supervisor and its validation, on
    Unix and on Windows; the path functions of the system are a parameter, \<open>unixPaths\<close> those of Unix.
  \<^item> \<open>Worker\<close>: one start of a worker (\<open>worker.go\<close>): descriptor table, launch, probe, retry, terminal
    errors. A round closes every file it opens, and the file behind each descriptor is the socket
    of the listener announced under it. \<open>generation_source\<close> is what the supervisor relies on.
  \<^item> \<open>StatusFile\<close>: \<open>WriteStatus\<close> as a sequence of file-system states (atomic replacement), \<open>ReadStatus\<close>,
    \<open>ReadPID\<close>.
  \<^item> \<open>OpenFiles\<close>: how files of the envdir and state files are opened (\<open>env_open_*.go\<close>,
    \<open>status_open_*.go\<close>), by the kind of the file behind the name: never a link, never a wait. Links
    in the directories of a path are followed, by the code and outside the model.
  \<^item> \<open>Controller\<close>, \<open>Supervisor\<close>: the state of a run (\<open>runState\<close>), one iteration of the loop
    (\<open>loopIter\<close>), the deferred shutdown (\<open>finishLoop\<close>) and the step relation \<open>sysStep\<close> of loop and live
    processes. The invariant: one current worker, at most one old one, exactly the live processes.
    A new process has a pid that no live process has.
    \<open>selectStep_cases\<close> is the case distinction that the proofs about an iteration share.
  \<^item> \<open>Shutdown\<close>, \<open>PublishedStatus\<close>: no live process is forgotten on the way out and the way out ends;
    the status file of a reachable state lists exactly its live processes.
  \<^item> \<open>Run\<close>: the setup with its failure path, the sockets bound at the configured addresses and paths,
    the start of the loop, and what a worker then sees.
  \<^item> \<open>Lifecycle\<close>: \<open>loop\<close> from its start to its last deferred call under any sequence of events, \<open>run\<close>
    and \<open>RunWithStartupCheck\<close> around it: what a run takes it gives back, once; a startup error is
    reported after that; automatic restarts keep coming (an interpretation of \<open>invariant_system\<close>).
  \<^item> \<open>Logs\<close>: the log lines that list workers (\<open>printWorkerPIDs\<close>); the list can be read back.
  \<^item> \<open>Service\<close>: the abstract specification of the supervisor, a service with a current and at most one
    draining worker, the refinement, and the truth of the restart command at the poll at which it
    reports success.
  \<^item> \<open>PidPath\<close>, \<open>PidFile\<close>: the two walkers of the path of a pid file with their ownership checks and
    the build constants that choose one, the owner of the lock, the validated reference of a
    running supervisor, with every open and close of its handles.
  \<^item> \<open>PidLock\<close>, \<open>PidLockWindows\<close>: acquiring and releasing the pid file by any number of interleaved
    processes, one system call at a time, with faults and crashes; the locale \<open>exclusive_owner\<close>
    gives the refinement of a lock, for both systems: each step that changes the owner is a taking
    from nobody or a giving back by the one process that moves, and steps of others leave an owner in
    possession. It is assumed that nobody else writes,
    replaces or links the file.
  \<^item> \<open>Control\<close>: \<open>Stop\<close> and \<open>Restart\<close>; the locale \<open>polling\<close> is the loop they share, whose success is
    the answer to one poll. \<open>WindowsControl\<close>:
    the same commands with the Windows build of what they call, which refuses.
  \<^item> \<open>Daemon\<close>, \<open>Settings\<close>, \<open>Help\<close>, \<open>Cli\<close>: the readiness handshake of a daemon, the resolution of
    settings, the help text, the dispatch of the command line, exit codes and the signal goroutine.
  \<^item> \<open>Samples\<close>: the two sample workers (\<open>samples/http\<close>, \<open>samples/udp-echo\<close>) on top of \<open>WorkerListen\<close>.
  \<^item> This theory: properties that span components, from the configuration to the sockets of a
    worker, from the exit code of \<open>--daemonize\<close> to the first worker of the daemon's supervisor, and
    from the stop command to the interleaved holders of the pid file.

  Where the code has a file per system, the definition takes the system as a flag or has a
  version with the suffix \<open>_unix\<close>, \<open>_windows\<close>, \<open>_linux\<close> or \<open>_other\<close>; theorems hold for each.

  Hypotheses that theorems carry: the address the kernel reports for an unnamed Unix socket is
  not empty; the names of envdir files contain no equals sign (a name with one can shadow a
  protocol variable, \<open>EnvDir.envdir_name_with_eq_shadows\<close>); process ids are below 2^31 where a
  pid file is parsed; the answers of a control command's polls are those of the states the
  supervisor is in at these polls, one reached from the other; the names of the entries of a
  directory are distinct. Two properties leave out a case in which comments contradict the code:
  \<open>startWorker_result\<close> a context that is cancelled during a liveness probe (the process is then
  returned, \<open>Worker.cancelled_probe_returns_process\<close>), and \<open>resolveSettings_exact\<close> a setting given
  both as a flag and as a variable (the flag then wins, \<open>Settings.flag_overrides_variable\<close>).

  Not modelled: the log lines that do not list workers and the texts of most errors; the parsing
  of arguments by go-flags and the HTTP server of \<open>net/http\<close>, which are parameters; the copying of
  bytes by the kernel. Durations pass only as bounds on waits. What is left of the sources besides
  this are imports and comments.
\<close>

section \<open>From the configuration to the sockets of a worker\<close>

text \<open>
  C7: a worker that opens its listeners. Take a run whose setup succeeded, with TCP ports and
  Unix sockets only, and any worker it starts. When the worker calls \<open>ListenAll\<close> and the system
  converts the inherited descriptors, it gets one listener per configured endpoint, in the order
  of the configuration, each on the descriptor behind which the supervisor put the socket it had
  bound for that endpoint, and no source descriptor is left open.
\<close>

theorem worker_listens:
  assumes "runSetup w su = (Inr rs, effs)" and "\<forall>j n q h a. su_bindUnix su j n q = Inr (h, a) \<longrightarrow> a \<noteq> []"
    and "length (rs_listeners rs) < 2 ^ 62" and "rs_listeners rs \<noteq> []"
    and "distinct_keys overlay" and "\<forall>k \<in> fst ` set overlay. CHR ''='' \<notin> set k"
    and "r_spawn (startRound s pl policy checked (rs_listeners rs) (rs_descriptors rs) overlay lookCmd g a) = Some sp"
    and "0 \<le> g" and "g + 1 < 2 ^ 63" and "mset kvs = mset (sp_env sp)"
    and "\<forall>i < length (rs_listeners rs).
      \<not> is_UDPListener (portListOf (rs_listeners rs) (rs_descriptors rs) ! i) \<and>
      convertible windows (ans i) (of_int (rs_descriptors rs ! i))"
  shows "\<exists>ev hs. ListenAll other windows ans (lookupEnviron kvs) = (ev, Inr hs) \<and>
    length hs = length (rs_listeners rs) \<and> closed ev = {#} \<and>
    sourcesClosed windows ev = mset (map of_int (rs_descriptors rs)) \<and>
    (\<forall>i < length hs. (\<exists>ep. hs ! i = Handle ep (of_int (rs_descriptors rs ! i))) \<and>
       sp_files sp ! nat (rs_descriptors rs ! i - 3) = Some (ListenerFile i))"
proof -
  let ?ls = "rs_listeners rs" and ?ds = "rs_descriptors rs"
  let ?pl = "portListOf ?ls ?ds"
  note view = worker_view [OF assms(1-10)]
  have "setupGuarantee rs" using assms(1,2) by (rule runSetup_ok)
  then have len: "length ?ls = length ?ds" by (simp add: setupGuarantee_def)
  have fds: "map Fd ?pl = map of_int ?ds"
    using len by (auto simp: portListOf_def Fd_starterListener intro!: nth_equalityI)
  have pl: "length ?pl = length ?ls" using len by (simp add: portListOf_def)
  have fd: "Fd (?pl ! i) = of_int (?ds ! i)" if "i < length ?ls" for i
    using fds that len pl by (metis nth_map)
  have ports: "Ports (lookupEnviron kvs) = Inr ?pl" using view by blast
  have "\<forall>i < length ?pl. \<not> is_UDPListener (?pl ! i) \<and> convertible windows (ans i) (Fd (?pl ! i))"
    using assms(11) pl fd by simp
  from ListenAll_ok [OF ports this] obtain ev where
    ev: "ListenAll other windows ans (lookupEnviron kvs) = (ev, Inr (map handleOf ?pl))"
      "sourcesClosed windows ev = mset (map Fd ?pl)" "closed ev = {#}" by blast
  have "(\<exists>ep. map handleOf ?pl ! i = Handle ep (of_int (?ds ! i))) \<and>
       sp_files sp ! nat (?ds ! i - 3) = Some (ListenerFile i)" if "i < length (map handleOf ?pl)" for i
    using that pl fd view by (simp add: handleOf_def)
  with ev pl fds show ?thesis by (intro exI [of _ ev] exI [of _ "map handleOf ?pl"]) simp
qed

theorem worker_listens_witness:
  "\<exists>rs effs sp ev hs. runSetup (portWorld [''8080=5''] []) calmSetup = (Inr rs, effs) \<and>
     r_spawn (startRound sampleStarter Linux samplePolicy False (rs_listeners rs) (rs_descriptors rs) [] id 0 (goodAttempt 9)) = Some sp \<and>
     ListenAll noOther False (\<lambda>_. calmConv) (lookupEnviron (sp_env sp)) = (ev, Inr hs) \<and> length hs = 1 \<and>
     (\<exists>ep. hs ! 0 = Handle ep 5)"
proof -
  define rs where "rs = freshRun\<lparr>rs_pidFile := True, rs_descriptors := [5], rs_listeners :=
    [\<lparr>l_listener = Some 0, l_packet = None, l_network = ''tcp4'', l_host = [], l_port = 8080, l_path = []\<rparr>]\<rparr>"
  have h: "runSetup (portWorld [''8080=5''] []) calmSetup = (Inr rs, [EfAcquirePidFile, EfBindSocket 0])"
    unfolding rs_def by code_simp
  have c: "\<not> a_ctxErr (goodAttempt 9)" by (simp add: goodAttempt_def)
  have st: "isOk (snd (setupFiles (goodAttempt 9) (rs_listeners rs) (rs_descriptors rs)))"
    "isOk (formatPortList (portListOf (rs_listeners rs) (rs_descriptors rs)))"
    unfolding rs_def by code_simp+
  from startRound_spawns [OF c st] obtain sp where
    sp: "r_spawn (startRound sampleStarter Linux samplePolicy False (rs_listeners rs) (rs_descriptors rs) [] id 0 (goodAttempt 9)) = Some sp"
    by blast
  have p: "portListOf (rs_listeners rs) (rs_descriptors rs) = [TCPListener ''0.0.0.0'' 8080 5]"
    unfolding rs_def by code_simp
  have n: "length (rs_listeners rs) < 2 ^ 62" "rs_listeners rs \<noteq> []" and d: "rs_descriptors rs = [5]"
    and l: "length (rs_listeners rs) = 1" by (simp_all add: rs_def)
  have b: "\<forall>j n q h a. su_bindUnix calmSetup j n q = Inr (h, a) \<longrightarrow> a \<noteq> []" by (simp add: calmSetup_def)
  have "convertible False calmConv 5"
    by (simp add: convertible_def newFileFails_def calmConv_def closeSourceDescriptor_def)
  then have cv: "\<forall>i < length (rs_listeners rs).
      \<not> is_UDPListener (portListOf (rs_listeners rs) (rs_descriptors rs) ! i) \<and>
      convertible False ((\<lambda>_. calmConv) i) (of_int (rs_descriptors rs ! i))"
    unfolding p unfolding l d by simp
  obtain ev hs where "ListenAll noOther False (\<lambda>_. calmConv) (lookupEnviron (sp_env sp)) = (ev, Inr hs)"
    "length hs = 1" "\<forall>i < length hs. \<exists>ep. hs ! i = Handle ep (of_int (rs_descriptors rs ! i))"
    using worker_listens [OF h b n _ _ sp _ _ _ cv, of "sp_env sp" noOther] l by auto
  moreover from this obtain ep where "hs ! 0 = Handle ep 5" using d by auto
  ultimately show ?thesis using h sp by blast
qed

section \<open>From the daemon's launcher to its worker\<close>

text \<open>
  The supervisor behind the command: \<open>Run\<close> or \<open>RunWithStartupCheck\<close> of the starter that the
  options gave, and \<open>Wait\<close> of the controller it returns, for given answers of the system.
\<close>

definition supervisorOf ::
  "world \<Rightarrow> setupAnswers \<Rightarrow> startAnswers \<Rightarrow> shutdownAnswers \<Rightarrow> loopInput list \<Rightarrow> bool \<Rightarrow> Starter \<Rightarrow>
   (run_error + run_error option option) option" where
  "supervisorOf w su sa sd ins checked s =
     (let w' = w\<lparr>w_starter := s\<rparr> in
      case (if checked then RunWithStartupCheck w' su sa sd ins else Starter_Run w' su sa sd ins) of
        None \<Rightarrow> None
      | Some (Inl e, _) \<Rightarrow> Some (Inl e)
      | Some (Inr rs, _) \<Rightarrow>
          Some (Inr (case (if checked then loopRest w' sd ins (Inr rs) else loop w' sa sd ins False rs) of
                       None \<Rightarrow> None
                     | Some (rs', _) \<Rightarrow> Wait (rs_ctrl rs'))))"

text \<open>
  C9: the exit code of \<open>--daemonize\<close> can be trusted. Suppose the command launches a daemon, the
  child runs the supervisor with the environment the launcher built, what the launcher reads
  from the pipe is what the child reported, and the launcher exits with success. Then the
  daemon's supervisor has completed its setup and released nothing, its context is live, and its
  first worker has been started and is the current one.
\<close>

theorem daemon_start_truthful:
  assumes "CfLaunch ls \<in> set (fst (cliRun w))" and "start_server_main w = Some 0"
    and "cw_environ c = daemonEnvironment (cw_environ w)" and "cw_parse c = cw_parse w" and "cw_unsetErr c = None"
    and "cw_run c = supervisorOf wd su sa sd ins"
    and "reports (fst (cliRun c)) = [out]" and "la_status (cw_launch w) = (out, EndEOF)"
  shows "\<exists>s rs effs pid. CfRun True s \<in> set (fst (cliRun c)) \<and>
    RunWithStartupCheck (wd\<lparr>w_starter := s\<rparr>) su sa sd ins = Some (Inr rs, effs) \<and>
    \<not> sa_ctxErr sa \<and> filter isRelease effs = [] \<and> rs_p rs = Some pid \<and> newWorkers effs = [pid]"
proof -
  have "readDaemonStatus (out, EndEOF) = None"
    using launcher_success [OF assms(1)] assms(2,8) by (simp add: start_server_main_def)
  moreover have "fst (cliRun c) \<noteq> [CfStderr]" using assms(7) by (auto simp: reports_def)
  ultimately have ready: "CfControllerReady \<in> set (fst (cliRun c))"
    using child_reports [OF assms(1,3-5)] assms(7) by simp
  obtain s waited where s: "CfRun True s \<in> set (fst (cliRun c))" and r: "cw_run c True s = Some (Inr waited)"
    using child_ready [OF assms(1,3-5) ready] by blast
  from r assms(6) obtain rs effs where run: "RunWithStartupCheck (wd\<lparr>w_starter := s\<rparr>) su sa sd ins = Some (Inr rs, effs)"
    by (auto simp: supervisorOf_def Let_def split: option.splits sum.splits prod.splits)
  from startup_check [OF run] run s show ?thesis by auto
qed

definition readyLauncher :: cliWorld where
  "readyLauncher = daemonWorld\<lparr>cw_launch := (cw_launch daemonWorld)\<lparr>la_status := (daemonFrame daemonReady [], EndEOF)\<rparr>\<rparr>"

definition readyChild :: cliWorld where
  "readyChild = readyLauncher\<lparr>cw_environ := daemonEnvironment [''PATH=/bin''],
     cw_run := supervisorOf sampleWorld calmSetup \<lparr>sa_attempts = [goodAttempt 9], sa_ctxErr = False\<rparr> calmShutdown []\<rparr>"

theorem daemon_start_truthful_witness:
  "\<exists>s rs effs. CfRun True s \<in> set (fst (cliRun readyChild)) \<and>
     RunWithStartupCheck (sampleWorld\<lparr>w_starter := s\<rparr>) calmSetup \<lparr>sa_attempts = [goodAttempt 9], sa_ctxErr = False\<rparr> calmShutdown [] =
       Some (Inr rs, effs) \<and> newWorkers effs \<noteq> []"
proof -
  have l: "list_ex (\<lambda>e. case e of CfLaunch ls \<Rightarrow> True | _ \<Rightarrow> False) (fst (cliRun readyLauncher))"
    and z: "start_server_main readyLauncher = Some 0"
    and r: "reports (fst (cliRun readyChild)) = [daemonFrame daemonReady []]" by code_simp+
  from l obtain x where x: "x \<in> set (fst (cliRun readyLauncher))" "case x of CfLaunch ls \<Rightarrow> True | _ \<Rightarrow> False"
    unfolding list_ex_iff by blast
  from x(2) obtain ls where "x = CfLaunch ls" by (cases x) simp_all
  with x(1) have ls: "CfLaunch ls \<in> set (fst (cliRun readyLauncher))" by simp
  have c: "cw_environ readyChild = daemonEnvironment (cw_environ readyLauncher)" "cw_parse readyChild = cw_parse readyLauncher"
    "cw_unsetErr readyChild = None" "la_status (cw_launch readyLauncher) = (daemonFrame daemonReady [], EndEOF)"
    "cw_run readyChild = supervisorOf sampleWorld calmSetup \<lparr>sa_attempts = [goodAttempt 9], sa_ctxErr = False\<rparr> calmShutdown []"
    by (simp_all add: readyChild_def readyLauncher_def daemonWorld_def)
  from daemon_start_truthful [OF ls z c(1-3,5) r c(4)] show ?thesis by auto
qed

section \<open>The stop command and the pid file\<close>

text \<open>
  What the system answers to the control commands when the pid file is in a given state: the
  owner of the record lock, and the answers to the opening of the file. The device and inode
  numbers of a file are a parameter.
\<close>

definition getlkAt :: "pidFS \<Rightarrow> nat \<Rightarrow> getlk" where
  "getlkAt fs i = (case fs_record fs i of None \<Rightarrow> GetlkUnlocked | Some q \<Rightarrow> GetlkHeld q)"

definition answersAt :: "(nat \<Rightarrow> fileID) \<Rightarrow> procLocks \<Rightarrow> pidFS \<Rightarrow> nat \<Rightarrow> pidAnswers" where
  "answersAt ident locks fs i =
     (let opened = \<lparr>oa_openErr = None, oa_statErr = None, oa_regular = fs_regular fs i,
                    oa_nlink = linkCount fs i, oa_id = ident i\<rparr> in
      \<lparr>pa_open = opened, pa_data = fs_data fs i, pa_readErr = None, pa_getlk = getlkAt fs i,
       pa_locks = locks, pa_statErr = None, pa_reopen = opened, pa_restatErr = None\<rparr>)"

lemma held_opens:
  assumes "pidInv s" and "ps_pc s p = PcHeld i" and "0 < p" and "p < 2 ^ 31" and "fs_regular (ps_fs s) i"
    and "isOk (snd (prepareRunningPIDPath ra tr uid getwd path))"
  shows "snd (OpenRunningPID ra tr uid getwd path (answersAt ident locks (ps_fs s) i)) =
     Inr \<lparr>run_file = ident i, run_pid = p\<rparr>"
proof -
  have "okAt (ps_fs s) p (PcHeld i)" using assms(1,2) by (metis pidInv_def)
  then have "fs_path (ps_fs s) = Some i" "fs_extra (ps_fs s) i = 0" "fs_data (ps_fs s) i = pidText p"
    "fs_record (ps_fs s) i = Some p" by simp_all
  with assms(3-6) pidText_read [OF assms(3,4)] show ?thesis
    unfolding OpenRunningPID_spec
    by (simp add: answersAt_def Let_def soundOpen_def linkCount_def PID_def getlkAt_def lockOwnerPID_simps)
qed

lemma exited_released:
  assumes "pidInv t" and "Exited (getlkAt (ps_fs t) i) l tlk \<lparr>run_file = f, run_pid = p\<rparr> = Inr True" and "0 < p"
  shows "recordInode (ps_pc t p) \<noteq> Some i"
proof
  assume r: "recordInode (ps_pc t p) = Some i"
  have "okAt (ps_fs t) p (ps_pc t p)" using assms(1) by (simp add: pidInv_def)
  with r have "fs_record (ps_fs t) i = Some p" by (simp add: okAt_def)
  with assms(2,3) show False by (simp add: Exited_def lockNoLongerOwnedByPID_def getlkAt_def lockOwnerPID_simps)
qed

text \<open>
  C8: the stop command tells the truth. Let \<open>hist\<close> be the states of the system at the observations
  of the command, with any number of steps of the supervisors on that file in between: in the
  first one a supervisor holds the pid file, and the command reads the file; the \<open>k\<close>-th poll sees
  the record lock of the state after it. The command signals that supervisor and nobody else. When
  it reports success, it does so at one of the polls, while before that poll it was still waiting,
  and in the state of that poll the supervisor has given the file back, by closing it or by dying.
\<close>

theorem stop_command_truthful:
  assumes "reachable pidInit (pidSysStep euid) (hist 0)" and "\<forall>k. (pidSysStep euid)\<^sup>*\<^sup>* (hist k) (hist (Suc k))"
    and "ps_pc (hist 0) p = PcHeld i" and "0 < p" and "p < 2 ^ 31"
    and "fs_regular (ps_fs (hist 0)) i" and "isOk (snd (prepareRunningPIDPath ra tr uid getwd path))"
    and "\<forall>k < length polls. \<forall>g l tlk. polls ! k = PollTick (g, l, tlk) \<longrightarrow> g = getlkAt (ps_fs (hist (Suc k))) i"
    and "Stop None ra tr uid getwd path (answersAt ident locks (ps_fs (hist 0)) i) None kill polls = (es, r)"
  shows "CeSignal p SIGTERM \<in> set es \<and> (\<forall>q sig. CeSignal q sig \<in> set es \<longrightarrow> q = p \<and> sig = SIGTERM) \<and>
    (r = Some None \<longrightarrow> (\<exists>k < length polls.
       snd (Stop None ra tr uid getwd path (answersAt ident locks (ps_fs (hist 0)) i) None kill (take k polls)) = None \<and>
       Stop None ra tr uid getwd path (answersAt ident locks (ps_fs (hist 0)) i) None kill (take (Suc k) polls) = (es, r) \<and>
       ps_pc (hist (Suc k)) p = PcReleased))"
proof -
  have inv: "pidInv (hist 0)" using assms(1) by (rule pidlock.reachable_inv)
  note o = held_opens [OF inv assms(3-7), of ident locks]
  note stop = Stop_running [OF assms(9) o, unfolded PID_def RunningPID.simps]
  have "ps_pc (hist (Suc k)) p = PcReleased" if "k < length polls" "polls ! k = PollTick (g, l, tlk)"
      "Exited g l tlk \<lparr>run_file = ident i, run_pid = p\<rparr> = Inr True" for k g l tlk
  proof -
    have st: "(pidSysStep euid)\<^sup>*\<^sup>* (hist 0) (hist (Suc k))" by (rule history_reaches [OF assms(2)])
    have "g = getlkAt (ps_fs (hist (Suc k))) i" using assms(8) that(1,2) by blast
    with exited_released [OF pidlock.reachable_from [OF inv st]] that(3) assms(4)
    have "recordInode (ps_pc (hist (Suc k)) p) \<noteq> Some i" by blast
    with held_progress [OF st assms(3)] show ?thesis by auto
  qed
  with stop(3) have "r = Some None \<longrightarrow> (\<exists>k < length polls.
       snd (Stop None ra tr uid getwd path (answersAt ident locks (ps_fs (hist 0)) i) None kill (take k polls)) = None \<and>
       Stop None ra tr uid getwd path (answersAt ident locks (ps_fs (hist 0)) i) None kill (take (Suc k) polls) = (es, r) \<and>
       ps_pc (hist (Suc k)) p = PcReleased)" by meson
  with stop(1,2) show ?thesis by blast
qed

theorem stop_command_truthful_witness:
  "\<exists>s t i es. reachable pidInit (pidSysStep 1000) s \<and> pidSysStep 1000 s t \<and> ps_pc s 42 = PcHeld i \<and>
     Stop None False sampleTree 1000 (Inr []) ''/tmp/run/app.pid'' (answersAt (\<lambda>_. sampleID) sampleLocks (ps_fs s) i) None KillOk
       [PollTick (getlkAt (ps_fs s) i, sampleLocks, TryBusy), PollTick (getlkAt (ps_fs t) i, freeLocks, TryLocked)] = (es, Some None) \<and>
     CeSignal 42 SIGTERM \<in> set es \<and> ps_pc t 42 = PcReleased"
proof -
  obtain i fs' where a: "Acquire 1000 42 [] staleFS = (fs', PcHeld i)" and reg: "fs_regular fs' i"
    and rec: "fs_record fs' i = Some 42"
    using Acquire_free [of 1000 staleFS 42] by (auto simp: usablePath_def staleFS_def)
  define s where "s = \<lparr>ps_fs = fs', ps_pc = (ps_pc startSys)(42 := PcHeld i)\<rparr>"
  define t where "t = \<lparr>ps_fs = crashFS 42 fs', ps_pc = (ps_pc s)(42 := PcReleased)\<rparr>"
  let ?hist = "\<lambda>k::nat. if k \<le> 1 then s else t"
  let ?polls = "[PollTick (getlkAt (ps_fs s) i, sampleLocks, TryBusy), PollTick (getlkAt (ps_fs t) i, freeLocks, TryLocked)]"
  let ?S = "Stop None False sampleTree 1000 (Inr []) ''/tmp/run/app.pid'' (answersAt (\<lambda>_. sampleID) sampleLocks (ps_fs s) i) None KillOk"
  have r: "reachable pidInit (pidSysStep 1000) s"
    using reachable_runAcquire [OF reach_init [of pidInit, OF pidInit_startSys], where n = 10 and euid = 1000
        and me = 42 and faults = "[]" and fs' = fs' and c' = "PcHeld i"] a
    by (simp add: Acquire_def startSys_def s_def)
  have st: "pidSysStep 1000 s t" using pid_crash [of 1000 s 42] by (simp add: s_def t_def)
  have held: "ps_pc s 42 = PcHeld i" and reg': "fs_regular (ps_fs s) i" using reg by (simp_all add: s_def)
  have prep: "isOk (snd (prepareRunningPIDPath False sampleTree 1000 (Inr []) ''/tmp/run/app.pid''))" by code_simp
  have o: "snd (OpenRunningPID False sampleTree 1000 (Inr []) ''/tmp/run/app.pid''
      (answersAt (\<lambda>_. sampleID) sampleLocks (ps_fs s) i)) = Inr \<lparr>run_file = sampleID, run_pid = 42\<rparr>"
    using held_opens [OF pidlock.reachable_inv [OF r] held _ _ reg' prep] by simp
  have g: "getlkAt (ps_fs s) i = GetlkHeld 42" "getlkAt (ps_fs t) i = GetlkUnlocked"
    using rec by (simp_all add: s_def t_def getlkAt_def crashFS_def)
  have "linuxFlockOwnerAt freeLocks sampleID = Inr 0" by code_simp
  note eval = Stop_def stopWithOpenRunningPID_def o signalError_def Let_def Exited_def lockNoLongerOwnedByPID_def
    lockOwnerPID_simps freeLocks_def g this [unfolded freeLocks_def]
  have e: "\<exists>es. ?S ?polls = (es, Some None)" and first: "snd (?S (take 1 ?polls)) = None"
    by (simp_all add: eval)
  then obtain es where e: "?S ?polls = (es, Some None)" by blast
  have h: "reachable pidInit (pidSysStep 1000) (?hist 0)" "\<forall>k. (pidSysStep 1000)\<^sup>*\<^sup>* (?hist k) (?hist (Suc k))"
    "ps_pc (?hist 0) 42 = PcHeld i" "fs_regular (ps_fs (?hist 0)) i"
    using r st held reg' by auto
  have polls: "\<forall>k < length ?polls. \<forall>g l tlk. ?polls ! k = PollTick (g, l, tlk) \<longrightarrow> g = getlkAt (ps_fs (?hist (Suc k))) i"
    by (auto simp: less_Suc_eq)
  have run: "Stop None False sampleTree 1000 (Inr []) ''/tmp/run/app.pid''
      (answersAt (\<lambda>_. sampleID) sampleLocks (ps_fs (?hist 0)) i) None KillOk ?polls = (es, Some None)" using e by simp
  note truth = stop_command_truthful [OF h(1-3) _ _ h(4) prep polls run, simplified]
  then obtain k where k: "k < length ?polls" "?S (take (Suc k) ?polls) = (es, Some None)"
    "ps_pc (?hist (Suc k)) 42 = PcReleased" by auto
  then have "ps_pc t 42 = PcReleased" using first by (cases k) auto
  with truth e r st held show ?thesis by blast
qed

end
